(* ===== verification/Prelude.thy ===== *)
theory Prelude
  imports Main "HOL-Library.Word"
begin

text \<open>
  Shared vocabulary of the development: the machine types of the kernel's C code, the
  result type in which every assertion failure, bad array access and endless loop of the
  code is a value, the wrap-around of C's 32-bit \<open>int\<close>, little-endian access to byte
  arrays, and the lemmas on these that the components share.
\<close>

type_synonym u8 = "8 word"
type_synonym u16 = "16 word"
type_synonym u32 = "32 word"

named_theorems exec_simps \<open>equations that run the result monad\<close>
named_theorems layout_simps \<open>sizes and offsets of the C structures\<close>


section \<open>Results\<close>

text \<open>
  \<open>AssertFail f n\<close> is \<open>abort(f, n)\<close> of kernel/lib/abort.c, where the machine prints the
  place and halts for ever. \<open>OutOfBounds\<close> and \<open>NullDeref\<close> are the accesses whose effect C
  leaves undefined; the model stops there rather than inventing an effect. \<open>Diverges\<close>
  is a loop of the code that never ends, \<open>Waiting\<close> a wait for an interrupt that
  did not come.
\<close>

datatype fault = AssertFail string nat | OutOfBounds | NullDeref | Diverges | Waiting

type_synonym 'a exec = "fault + 'a"

definition bind_r :: "'e + 'a \<Rightarrow> ('a \<Rightarrow> 'e + 'b) \<Rightarrow> 'e + 'b" where
  "bind_r m f = (case m of Inl e \<Rightarrow> Inl e | Inr x \<Rightarrow> f x)"

definition require :: "bool \<Rightarrow> fault \<Rightarrow> 'a exec \<Rightarrow> 'a exec" where
  "require b e m = (if b then m else Inl e)"

lemma bind_r_Inr [simp, exec_simps]: "bind_r (Inr x) f = f x"
  by (simp add: bind_r_def)

lemma bind_r_Inl [simp, exec_simps]: "bind_r (Inl e) f = Inl e"
  by (simp add: bind_r_def)

lemma bind_r_eq_Inr: "bind_r m f = Inr y \<longleftrightarrow> (\<exists>x. m = Inr x \<and> f x = Inr y)"
  by (cases m) auto

lemma bind_r_eq_Inl: "bind_r m f = Inl e \<longleftrightarrow> m = Inl e \<or> (\<exists>x. m = Inr x \<and> f x = Inl e)"
  by (cases m) auto

lemma bind_r_assoc [exec_simps]: "bind_r (bind_r m f) g = bind_r m (\<lambda>x. bind_r (f x) g)"
  by (cases m) auto

lemma bind_r_cong [fundef_cong]:
  "m = m' \<Longrightarrow> (\<And>x. m' = Inr x \<Longrightarrow> f x = f' x) \<Longrightarrow> bind_r m f = bind_r m' f'"
  by (cases m') auto

lemma require_True [simp, exec_simps]: "b \<Longrightarrow> require b e m = m"
  by (simp add: require_def)

lemma require_False [simp, exec_simps]: "\<not> b \<Longrightarrow> require b e m = Inl e"
  by (simp add: require_def)

lemma require_eq_Inr: "require b e m = Inr y \<longleftrightarrow> b \<and> m = Inr y"
  by (simp add: require_def)

lemma require_cong [fundef_cong]:
  "b = b' \<Longrightarrow> e = e' \<Longrightarrow> (b' \<Longrightarrow> m = m') \<Longrightarrow> require b e m = require b' e' m'"
  by (simp add: require_def)

lemmas exec_Inr_iffs = bind_r_eq_Inr require_eq_Inr

definition ok :: "'e + 'a \<Rightarrow> bool" where
  "ok m \<longleftrightarrow> (case m of Inl _ \<Rightarrow> False | Inr _ \<Rightarrow> True)"

lemma ok_simps [simp]: "ok (Inr x)" "\<not> ok (Inl e)"
  by (simp_all add: ok_def)

lemma ok_iff: "ok m \<longleftrightarrow> (\<exists>x. m = Inr x)"
  by (cases m) auto


section \<open>C integers\<close>

text \<open>
  A C \<open>int\<close> is an \<open>int\<close> of HOL that stays between \<open>-2^31\<close> and \<open>2^31 - 1\<close>; \<open>wrap32\<close> is
  written where the code's arithmetic can leave that range (two's complement, what the
  generated i386 code computes). A \<open>uint32_t\<close> is a \<^typ>\<open>u32\<close>; \<open>sint\<close> is the
  cast to \<open>int\<close> and \<open>word_of_int\<close> the cast back.
\<close>

definition wrap32 :: "int \<Rightarrow> int" where
  "wrap32 x = (x + 2147483648) mod 4294967296 - 2147483648"

lemma wrap32_id [simp]: "-2147483648 \<le> x \<Longrightarrow> x < 2147483648 \<Longrightarrow> wrap32 x = x"
  by (simp add: wrap32_def)

lemma wrap32_range: "-2147483648 \<le> wrap32 x \<and> wrap32 x < 2147483648"
proof -
  have "0 \<le> (x + 2147483648) mod 4294967296" by simp
  moreover have "(x + 2147483648) mod 4294967296 < 4294967296" by simp
  ultimately show ?thesis by (simp add: wrap32_def)
qed

lemma wrap32_wrap32 [simp]: "wrap32 (wrap32 x) = wrap32 x"
  using wrap32_range [of x] by simp

lemma wrap32_add [simp]: "wrap32 (wrap32 x + y) = wrap32 (x + y)"
proof -
  have e: "(x + 2147483648) mod 4294967296 - 2147483648 + y + 2147483648 = (x + 2147483648) mod 4294967296 + y"
    by simp
  show ?thesis unfolding wrap32_def e mod_add_left_eq by (simp add: ac_simps)
qed

lemma word_of_int_wrap32 [simp]: "(word_of_int (wrap32 x) :: u32) = word_of_int x"
proof -
  have "take_bit 32 (wrap32 x) = take_bit 32 x"
    by (simp add: wrap32_def take_bit_eq_mod mod_diff_left_eq)
  then show ?thesis by (simp add: word_of_int_eq_iff)
qed

lemma sint_word_of_int32: "sint (word_of_int x :: u32) = wrap32 x"
proof -
  have "sint (word_of_int x :: u32) = signed_take_bit 31 x"
    by (simp add: sint_sbintrunc')
  also have "\<dots> = wrap32 x"
    by (simp add: signed_take_bit_eq_take_bit_shift take_bit_eq_mod wrap32_def)
  finally show ?thesis .
qed

lemma unat_u32: "n < 4294967296 \<Longrightarrow> unat (word_of_nat n :: u32) = n"
  by (simp add: unat_of_nat)

lemma u32_int_add: "(word_of_int (int a + int b) :: u32) = word_of_nat (a + b)"
  by (metis of_int_of_nat_eq of_nat_add)

text \<open>A negative \<open>int\<close> converted to \<open>uint32_t\<close> is at least \<open>2^31\<close>.\<close>

lemma uint_u32_negative:
  assumes "-2147483648 \<le> x" and "x < 0"
  shows "uint (word_of_int x :: u32) = x + 4294967296"
proof -
  have "x mod 4294967296 = (x + 4294967296) mod 4294967296" by simp
  also have "\<dots> = x + 4294967296" using assms by (intro mod_pos_pos_trivial) simp_all
  finally show ?thesis by (simp add: uint_word_of_int)
qed


section \<open>Bytes\<close>

text \<open>
  A region of memory is a function from offsets to bytes. \<open>get32\<close> and \<open>put32\<close> read and
  write a \<open>uint32_t\<close> at an offset, lowest byte first, as the i386 does; \<open>put_bytes\<close> writes
  a run of bytes and \<open>get_bytes\<close> reads one.
\<close>

definition get32 :: "(nat \<Rightarrow> u8) \<Rightarrow> nat \<Rightarrow> u32" where
  "get32 f a = word_of_nat (unat (f a) + 256 * unat (f (a + 1)) + 65536 * unat (f (a + 2))
     + 16777216 * unat (f (a + 3)))"

definition put32 :: "(nat \<Rightarrow> u8) \<Rightarrow> nat \<Rightarrow> u32 \<Rightarrow> (nat \<Rightarrow> u8)" where
  "put32 f a w = f(a := word_of_nat (unat w), a + 1 := word_of_nat (unat w div 256),
     a + 2 := word_of_nat (unat w div 65536), a + 3 := word_of_nat (unat w div 16777216))"

definition get_bytes :: "(nat \<Rightarrow> u8) \<Rightarrow> nat \<Rightarrow> nat \<Rightarrow> u8 list" where
  "get_bytes f a n = map (\<lambda>i. f (a + i)) [0..<n]"

definition put_bytes :: "(nat \<Rightarrow> u8) \<Rightarrow> nat \<Rightarrow> u8 list \<Rightarrow> (nat \<Rightarrow> u8)" where
  "put_bytes f a bs = (\<lambda>k. if a \<le> k \<and> k < a + length bs then bs ! (k - a) else f k)"

lemma nat_bytes_split:
  fixes n :: nat
  assumes "n < 4294967296"
  shows "n mod 256 + 256 * (n div 256 mod 256) + 65536 * (n div 65536 mod 256)
    + 16777216 * (n div 16777216 mod 256) = n"
proof -
  have a: "n div 65536 = n div 256 div 256" and b: "n div 16777216 = n div 256 div 256 div 256"
    by (simp_all add: div_mult2_eq [symmetric])
  have c: "n div 256 div 256 div 256 < 256"
    using assms by (simp add: div_mult2_eq [symmetric] less_mult_imp_div_less)
  have "n mod 256 + 256 * (n div 256) = n" for n :: nat
    by simp
  from this [of n] this [of "n div 256"] this [of "n div 256 div 256"]
  show ?thesis unfolding a b using mod_less [OF c] by linarith
qed

lemma get32_put32_same [simp]: "get32 (put32 f a w) a = w"
proof -
  obtain n where w: "w = word_of_nat n" and n: "n < 4294967296"
    using that [of "unat w"] unsigned_less [of w] by simp
  have u: "unat w = n" using n by (simp add: w unat_of_nat)
  have b: "unat (word_of_nat m :: u8) = m mod 256" for m
    by (simp add: unat_of_nat)
  have g: "put32 f a w a = word_of_nat n" "put32 f a w (a + 1) = word_of_nat (n div 256)"
    "put32 f a w (a + 2) = word_of_nat (n div 65536)"
    "put32 f a w (a + 3) = word_of_nat (n div 16777216)"
    by (simp_all add: put32_def u)
  have "get32 (put32 f a w) a = word_of_nat (n mod 256 + 256 * (n div 256 mod 256)
      + 65536 * (n div 65536 mod 256) + 16777216 * (n div 16777216 mod 256))"
    by (simp only: get32_def g b)
  then show ?thesis by (simp only: nat_bytes_split [OF n] w)
qed

lemma put32_other [simp]: "k < a \<or> a + 4 \<le> k \<Longrightarrow> put32 f a w k = f k"
  by (auto simp: put32_def)

lemma get32_put32_other [simp]: "b + 4 \<le> a \<or> a + 4 \<le> b \<Longrightarrow> get32 (put32 f a w) b = get32 f b"
  by (auto simp: get32_def)

lemma length_get_bytes [simp]: "length (get_bytes f a n) = n"
  by (simp add: get_bytes_def)

lemma nth_get_bytes [simp]: "i < n \<Longrightarrow> get_bytes f a n ! i = f (a + i)"
  by (simp add: get_bytes_def)

lemma get_put_bytes_same [simp]: "get_bytes (put_bytes f a bs) a (length bs) = bs"
  by (rule nth_equalityI) (simp_all add: put_bytes_def)

lemma put_bytes_other [simp]: "k < a \<or> a + length bs \<le> k \<Longrightarrow> put_bytes f a bs k = f k"
  by (auto simp: put_bytes_def)

lemma get_bytes_cong:
  "(\<And>i. i < n \<Longrightarrow> f (a + i) = g (a + i)) \<Longrightarrow> get_bytes f a n = get_bytes g a n"
  by (simp add: get_bytes_def)

lemma get_bytes_put32_other [simp]:
  "b + n \<le> a \<or> a + 4 \<le> b \<Longrightarrow> get_bytes (put32 f a w) b n = get_bytes f b n"
  by (rule get_bytes_cong) auto

lemma get_bytes_put_bytes_other [simp]:
  "b + n \<le> a \<or> a + length bs \<le> b \<Longrightarrow> get_bytes (put_bytes f a bs) b n = get_bytes f b n"
  by (rule get_bytes_cong) auto

lemma get32_put_bytes_other [simp]:
  "b + 4 \<le> a \<or> a + length bs \<le> b \<Longrightarrow> get32 (put_bytes f a bs) b = get32 f b"
  by (auto simp: get32_def)


section \<open>Lists\<close>

lemma list_update_take_drop: "i < length xs \<Longrightarrow> take i xs @ x # drop (Suc i) xs = xs[i := x]"
  by (simp add: upd_conv_take_nth_drop)

lemma distinct_remove1_notin: "distinct xs \<Longrightarrow> x \<notin> set (remove1 x xs)"
  by simp

end
