(* ===== verification/Plist.thy ===== *)
theory Plist
  imports Prelude
begin

text \<open>
  The process lists of kernel/kernel/list.c. A \<open>PCB*\<close> is a value of \<open>pcbref\<close>; the field
  \<open>next\<close> of \<open>struct ProcessControlBlock\<close> is a map from PCBs to an optional PCB (\<open>None\<close> is
  NULL), kept apart from the other fields. The operations walk that map as the code walks
  the pointers, so a cyclic list makes them run for ever. \<open>chain\<close> relates a head to the
  processes queued behind it, and the locale \<open>pqueue\<close> states what the scheduler, the
  semaphores and fork rely on.
\<close>

section \<open>Process control blocks as references\<close>

text \<open>The PCB objects of include/x86/memory.h: four list heads, the table and the idle process.\<close>

datatype pcbref = Dummy1 | Dummy2 | Dummy3 | DummySem | Pcb nat | IdlePcb

type_synonym links = "pcbref \<Rightarrow> pcbref option"


section \<open>The operations of list.c\<close>

text \<open>\<open>for(p=head;p->next!=NULL;p = p->next);\<close>: the last node, \<open>None\<close> if the walk never ends.\<close>

partial_function (option) list_last :: "links \<Rightarrow> pcbref \<Rightarrow> pcbref option" where
  "list_last nx p = (case nx p of None \<Rightarrow> Some p | Some q \<Rightarrow> list_last nx q)"

definition list_add :: "links \<Rightarrow> pcbref \<Rightarrow> pcbref \<Rightarrow> links exec" where
  "list_add nx head data =
     (case list_last nx head of
        None \<Rightarrow> Inl Diverges
      | Some p \<Rightarrow> let nx' = nx(data := nx p) in Inr (nx'(p := Some data)))"

text \<open>The loop of \<open>list_delete\<close>: stops at the node before \<open>data\<close>, or at the last node.\<close>

partial_function (option) find_pred :: "links \<Rightarrow> pcbref \<Rightarrow> pcbref \<Rightarrow> pcbref option" where
  "find_pred nx data p =
     (case nx p of None \<Rightarrow> Some p | Some q \<Rightarrow> if q = data then Some p else find_pred nx data q)"

definition list_delete :: "links \<Rightarrow> pcbref \<Rightarrow> pcbref \<Rightarrow> links exec" where
  "list_delete nx head data =
     (case find_pred nx data head of
        None \<Rightarrow> Inl Diverges
      | Some p \<Rightarrow>
          (case nx p of
             None \<Rightarrow> Inl (AssertFail ''list.c'' 19)
           | Some q \<Rightarrow> Inr (nx(p := nx q))))"

definition list_head :: "links \<Rightarrow> pcbref \<Rightarrow> pcbref exec" where
  "list_head nx head = (case nx head of None \<Rightarrow> Inl (AssertFail ''list.c'' 26) | Some p \<Rightarrow> Inr p)"


section \<open>What a list holds\<close>

primrec chain :: "links \<Rightarrow> pcbref \<Rightarrow> pcbref list \<Rightarrow> bool" where
  "chain nx h [] \<longleftrightarrow> nx h = None"
| "chain nx h (x # xs) \<longleftrightarrow> nx h = Some x \<and> chain nx x xs"

lemma chain_None_iff: "nx h = None \<Longrightarrow> chain nx h xs \<longleftrightarrow> xs = []"
  by (cases xs) auto

lemma chain_Some: "nx h = Some x \<Longrightarrow> chain nx h xs \<longleftrightarrow> (\<exists>ys. xs = x # ys \<and> chain nx x ys)"
  by (cases xs) auto

lemma chain_unique: "chain nx h xs \<Longrightarrow> chain nx h ys \<Longrightarrow> xs = ys"
proof (induction xs arbitrary: h ys)
  case Nil
  then show ?case by (simp add: chain_None_iff)
next
  case (Cons x xs)
  then show ?case by (cases ys) auto
qed

lemma chain_append: "chain nx h (xs @ ys) \<Longrightarrow> chain nx (last (h # xs)) ys"
  by (induction xs arbitrary: h) auto

lemma chain_notin: "chain nx h xs \<Longrightarrow> h \<notin> set xs"
proof
  assume c: "chain nx h xs" and "h \<in> set xs"
  then obtain us vs where xs: "xs = us @ h # vs" by (meson split_list)
  from c have "chain nx (last (h # us @ [h])) vs"
    using chain_append [of nx h "us @ [h]" vs] by (simp add: xs)
  then have "chain nx h vs" by simp
  with c have "xs = vs" by (rule chain_unique)
  with xs show False by (metis append_is_Nil_conv length_append length_Cons add_Suc_right
      less_irrefl_nat less_add_Suc2)
qed

lemma chain_distinct: "chain nx h xs \<Longrightarrow> distinct (h # xs)"
proof (induction xs arbitrary: h)
  case Nil
  show ?case by simp
next
  case (Cons x xs)
  from Cons.prems have "chain nx x xs" by simp
  then have "distinct (x # xs)" by (rule Cons.IH)
  with chain_notin [OF Cons.prems] show ?case by simp
qed

text \<open>Only the links of the head and of the queued nodes matter.\<close>

lemma chain_cong: "(\<And>p. p \<in> set (h # xs) \<Longrightarrow> nx' p = nx p) \<Longrightarrow> chain nx' h xs = chain nx h xs"
  by (induction xs arbitrary: h) auto

lemma chain_upd_other [simp]: "p \<notin> set (h # xs) \<Longrightarrow> chain (nx(p := v)) h xs = chain nx h xs"
  by (rule chain_cong) auto

lemma list_last_chain: "chain nx h xs \<Longrightarrow> list_last nx h = Some (last (h # xs))"
  by (induction xs arbitrary: h) (auto simp: list_last.simps)

lemma chain_last: "chain nx h xs \<Longrightarrow> nx (last (h # xs)) = None"
  by (induction xs arbitrary: h) auto

lemma list_add_chain:
  assumes "chain nx h xs"
  shows "list_add nx h x = Inr (nx(x := None, last (h # xs) := Some x))"
  using list_last_chain [OF assms] chain_last [OF assms] by (simp add: list_add_def Let_def)

lemma chain_snoc:
  assumes "chain nx h xs" and "x \<notin> set (h # xs)"
  shows "chain (nx(x := None, last (h # xs) := Some x)) h (xs @ [x])"
  using assms
proof (induction xs arbitrary: h)
  case Nil
  then show ?case by simp
next
  case (Cons y ys)
  have "chain nx y ys" and "x \<notin> set (y # ys)" using Cons.prems by auto
  then have IH: "chain (nx(x := None, last (y # ys) := Some x)) y (ys @ [x])"
    by (rule Cons.IH)
  let ?nx = "nx(x := None, last (y # ys) := Some x)"
  have "h \<noteq> last (y # ys)" using chain_distinct [OF Cons.prems(1)] by auto
  then have "?nx h = Some y" using Cons.prems by (auto simp del: last.simps)
  with IH have "chain ?nx h ((y # ys) @ [x])" by (simp only: append_Cons chain.simps simp_thms)
  then show ?case by (simp only: last_ConsR list.distinct not_False_eq_True)
qed

lemma find_pred_chain:
  "chain nx h (us @ x # vs) \<Longrightarrow> x \<notin> set us \<Longrightarrow> find_pred nx x h = Some (last (h # us))"
  by (induction us arbitrary: h) (auto simp: find_pred.simps)

lemma find_pred_absent: "chain nx h xs \<Longrightarrow> x \<notin> set xs \<Longrightarrow> find_pred nx x h = Some (last (h # xs))"
  by (induction xs arbitrary: h) (auto simp: find_pred.simps)

lemma list_delete_chain:
  assumes c: "chain nx h (us @ x # vs)"
  shows "list_delete nx h x = Inr (nx(last (h # us) := nx x))"
proof -
  have d: "x \<notin> set us" using chain_distinct [OF c] by auto
  have "nx (last (h # us)) = Some x" using chain_append [OF c] by simp
  then show ?thesis using find_pred_chain [OF c d] by (simp add: list_delete_def)
qed

lemma chain_unlink:
  assumes "chain nx h (us @ x # vs)"
  shows "chain (nx(last (h # us) := nx x)) h (us @ vs)"
  using assms
proof (induction us arbitrary: h)
  case Nil
  have d: "distinct (h # x # vs)" using chain_distinct [OF Nil] by simp
  show ?case
  proof (cases vs)
    case Nil
    then show ?thesis using \<open>chain nx h ([] @ x # vs)\<close> by simp
  next
    case (Cons v ws)
    then have v: "nx x = Some v" and "chain nx v ws"
      using \<open>chain nx h ([] @ x # vs)\<close> by auto
    then have "chain (nx(h := Some v)) v ws" using d Cons by (subst chain_upd_other) auto
    then have "chain (nx(h := Some v)) h vs" by (simp only: Cons chain.simps fun_upd_same simp_thms)
    then show ?thesis by (simp only: v append_Nil last_ConsL)
  qed
next
  case (Cons y us)
  have "chain nx y (us @ x # vs)" using Cons.prems by simp
  then have IH: "chain (nx(last (y # us) := nx x)) y (us @ vs)" by (rule Cons.IH)
  let ?nx = "nx(last (y # us) := nx x)"
  have "h \<noteq> last (y # us)" using chain_distinct [OF Cons.prems] by auto
  then have "?nx h = Some y" using Cons.prems by (auto simp del: last.simps)
  with IH have "chain ?nx h ((y # us) @ vs)" by (simp only: append_Cons chain.simps simp_thms)
  then show ?case by (simp only: last_ConsR list.distinct not_False_eq_True)
qed

lemma list_delete_absent:
  assumes "chain nx h xs" and "x \<notin> set xs"
  shows "list_delete nx h x = Inl (AssertFail ''list.c'' 19)"
  using find_pred_absent [OF assms] chain_last [OF assms(1)] by (simp add: list_delete_def)

lemma list_head_chain: "chain nx h (x # xs) \<Longrightarrow> list_head nx h = Inr x"
  by (simp add: list_head_def)

lemma list_head_empty: "chain nx h [] \<Longrightarrow> list_head nx h = Inl (AssertFail ''list.c'' 26)"
  by (simp add: list_head_def)


section \<open>The interface the kernel relies on\<close>

text \<open>
  A kernel has several lists at once. \<open>queues repr s H Q\<close>: in \<open>s\<close>, every head \<open>h\<close> of \<open>H\<close> holds the
  processes \<open>Q h\<close>, and no node is in two lists.
\<close>

definition queues :: "('s \<Rightarrow> 'n \<Rightarrow> 'n list \<Rightarrow> bool) \<Rightarrow> 's \<Rightarrow> 'n set \<Rightarrow> ('n \<Rightarrow> 'n list) \<Rightarrow> bool" where
  "queues repr s H Q \<longleftrightarrow> (\<forall>h\<in>H. repr s h (Q h))
     \<and> (\<forall>g\<in>H. \<forall>h\<in>H. g \<noteq> h \<longrightarrow> set (g # Q g) \<inter> set (h # Q h) = {})"

definition unqueued :: "'n set \<Rightarrow> ('n \<Rightarrow> 'n list) \<Rightarrow> 'n \<Rightarrow> bool" where
  "unqueued H Q x \<longleftrightarrow> (\<forall>h\<in>H. x \<notin> set (h # Q h))"

locale pqueue =
  fixes repr :: "'s \<Rightarrow> 'n \<Rightarrow> 'n list \<Rightarrow> bool"
    and add :: "'s \<Rightarrow> 'n \<Rightarrow> 'n \<Rightarrow> 's exec"
    and del :: "'s \<Rightarrow> 'n \<Rightarrow> 'n \<Rightarrow> 's exec"
    and front :: "'s \<Rightarrow> 'n \<Rightarrow> 'n exec"
  assumes repr_distinct: "repr s h xs \<Longrightarrow> distinct (h # xs)"
    and repr_unique: "repr s h xs \<Longrightarrow> repr s h ys \<Longrightarrow> xs = ys"
    and add_ok: "repr s h xs \<Longrightarrow> x \<notin> set (h # xs) \<Longrightarrow> \<exists>s'. add s h x = Inr s' \<and> repr s' h (xs @ [x])"
    and add_frame: "repr s h xs \<Longrightarrow> add s h x = Inr s' \<Longrightarrow> repr s g ys \<Longrightarrow>
      set (g # ys) \<inter> set (x # h # xs) = {} \<Longrightarrow> repr s' g ys"
    and del_ok: "repr s h xs \<Longrightarrow> x \<in> set xs \<Longrightarrow> \<exists>s'. del s h x = Inr s' \<and> repr s' h (remove1 x xs)"
    and del_frame: "repr s h xs \<Longrightarrow> del s h x = Inr s' \<Longrightarrow> repr s g ys \<Longrightarrow>
      set (g # ys) \<inter> set (h # xs) = {} \<Longrightarrow> repr s' g ys"
    and del_absent: "repr s h xs \<Longrightarrow> x \<notin> set xs \<Longrightarrow> \<not> ok (del s h x)"
    and front_ok: "repr s h (x # xs) \<Longrightarrow> front s h = Inr x"
    and front_empty: "repr s h [] \<Longrightarrow> \<not> ok (front s h)"
begin

lemma queues_add:
  assumes q: "queues repr s H Q" and h: "h \<in> H" and x: "unqueued H Q x"
  shows "\<exists>s'. add s h x = Inr s' \<and> queues repr s' H (Q(h := Q h @ [x]))"
proof -
  have r: "\<And>g. g \<in> H \<Longrightarrow> repr s g (Q g)"
    and d: "\<And>f g. f \<in> H \<Longrightarrow> g \<in> H \<Longrightarrow> f \<noteq> g \<Longrightarrow> set (f # Q f) \<inter> set (g # Q g) = {}"
    using q by (auto simp: queues_def)
  have x': "\<And>g. g \<in> H \<Longrightarrow> x \<notin> set (g # Q g)" using x by (simp add: unqueued_def)
  obtain s' where s': "add s h x = Inr s'" "repr s' h (Q h @ [x])"
    using add_ok [OF r [OF h] x' [OF h]] by blast
  have "repr s' g (Q g)" if g: "g \<in> H" "g \<noteq> h" for g
    using add_frame [OF r [OF h] s'(1) r [OF g(1)]] d [OF g(1) h g(2)] x' [OF g(1)] by auto
  moreover have "set (f # (Q(h := Q h @ [x])) f) \<inter> set (g # (Q(h := Q h @ [x])) g) = {}"
    if "f \<in> H" "g \<in> H" "f \<noteq> g" for f g
    using d [OF that] x' [OF that(1)] x' [OF that(2)] that by auto
  ultimately show ?thesis using s' by (auto simp: queues_def)
qed

lemma queues_del:
  assumes q: "queues repr s H Q" and h: "h \<in> H" and x: "x \<in> set (Q h)"
  shows "\<exists>s'. del s h x = Inr s' \<and> queues repr s' H (Q(h := remove1 x (Q h)))
    \<and> unqueued H (Q(h := remove1 x (Q h))) x"
proof -
  have r: "\<And>g. g \<in> H \<Longrightarrow> repr s g (Q g)"
    and d: "\<And>f g. f \<in> H \<Longrightarrow> g \<in> H \<Longrightarrow> f \<noteq> g \<Longrightarrow> set (f # Q f) \<inter> set (g # Q g) = {}"
    using q by (auto simp: queues_def)
  obtain s' where s': "del s h x = Inr s'" "repr s' h (remove1 x (Q h))"
    using del_ok [OF r [OF h] x] by blast
  have "repr s' g (Q g)" if g: "g \<in> H" "g \<noteq> h" for g
    by (rule del_frame [OF r [OF h] s'(1) r [OF g(1)] d [OF g(1) h g(2)]])
  moreover have "set (f # (Q(h := remove1 x (Q h))) f) \<inter> set (g # (Q(h := remove1 x (Q h))) g) = {}"
    if "f \<in> H" "g \<in> H" "f \<noteq> g" for f g
    using d [OF that] that set_remove1_subset [of x "Q h"] by auto
  moreover have "x \<notin> set (g # (Q(h := remove1 x (Q h))) g)" if "g \<in> H" for g
    using d [OF that h] repr_distinct [OF r [OF h]] x by (cases "g = h") auto
  ultimately show ?thesis using s' by (auto simp: queues_def unqueued_def)
qed

text \<open>Taking a process from one list and queueing it on another, as waking a process does.\<close>

lemma queues_move:
  assumes q: "queues repr s H Q" and h: "h \<in> H" "g \<in> H" "g \<noteq> h" and x: "x \<in> set (Q h)"
  shows "\<exists>s'. bind_r (del s h x) (\<lambda>s. add s g x) = Inr s'
    \<and> queues repr s' H (Q(h := remove1 x (Q h), g := Q g @ [x]))"
proof -
  obtain s1 where s1: "del s h x = Inr s1" "queues repr s1 H (Q(h := remove1 x (Q h)))"
    "unqueued H (Q(h := remove1 x (Q h))) x"
    using queues_del [OF q h(1) x] by blast
  from queues_add [OF s1(2) h(2) s1(3)] h(3) s1(1) show ?thesis by auto
qed

text \<open>Taking the first process of a list.\<close>

lemma queues_pop:
  assumes q: "queues repr s H Q" and h: "h \<in> H" and x: "Q h = x # xs"
  shows "front s h = Inr x \<and> (\<exists>s'. del s h x = Inr s' \<and> queues repr s' H (Q(h := xs))
    \<and> unqueued H (Q(h := xs)) x)"
  using queues_del [OF q h, of x] front_ok [of s h x xs] q h x by (auto simp: queues_def)

lemma queues_front_empty: "queues repr s H Q \<Longrightarrow> h \<in> H \<Longrightarrow> Q h = [] \<Longrightarrow> \<not> ok (front s h)"
  using front_empty [of s h] by (auto simp: queues_def)

end

text \<open>list.c provides the interface.\<close>

lemma list_add_frame:
  assumes "chain nx h xs" and "list_add nx h x = Inr nx'" and "chain nx g ys"
    and d: "set (g # ys) \<inter> set (x # h # xs) = {}"
  shows "chain nx' g ys"
proof -
  have nx': "nx' = nx(x := None, last (h # xs) := Some x)"
    using assms(2) list_add_chain [OF assms(1)] by simp
  have "last (h # xs) \<in> set (h # xs)" by (rule last_in_set) simp
  with d have "last (h # xs) \<notin> set (g # ys)" "x \<notin> set (g # ys)" by auto
  then show ?thesis using assms(3) by (simp only: nx' chain_upd_other simp_thms)
qed

lemma list_delete_ok:
  assumes "chain nx h xs" and "x \<in> set xs"
  shows "\<exists>nx'. list_delete nx h x = Inr nx' \<and> chain nx' h (remove1 x xs)
    \<and> (\<forall>p. p \<notin> set (h # xs) \<longrightarrow> nx' p = nx p)"
proof -
  obtain us vs where xs: "xs = us @ x # vs" using assms(2) by (meson split_list)
  have "x \<notin> set us" using chain_distinct [OF assms(1)] xs by auto
  then have "remove1 x xs = us @ vs" by (simp add: xs remove1_append)
  moreover have "last (h # us) \<in> set (h # xs)"
    using last_in_set [of "h # us"] by (auto simp del: last.simps simp: xs)
  moreover note list_delete_chain [of nx h us x vs] chain_unlink [of nx h us x vs]
  ultimately show ?thesis using assms(1) xs by (metis fun_upd_other)
qed

lemma list_delete_frame:
  assumes "chain nx h xs" and "list_delete nx h x = Inr nx'" and "chain nx g ys"
    and d: "set (g # ys) \<inter> set (h # xs) = {}"
  shows "chain nx' g ys"
proof (cases "x \<in> set xs")
  case True
  then obtain m where "list_delete nx h x = Inr m" "\<forall>p. p \<notin> set (h # xs) \<longrightarrow> m p = nx p"
    using list_delete_ok [OF assms(1)] by blast
  then have "\<forall>p\<in>set (g # ys). nx' p = nx p" using assms(2) d by auto
  then show ?thesis using chain_cong [of g ys nx' nx] assms(3) by blast
next
  case False
  with list_delete_absent [OF assms(1)] assms(2) show ?thesis by simp
qed

interpretation pl: pqueue chain list_add list_delete list_head
proof (unfold_locales, goal_cases)
  case 1 then show ?case by (rule chain_distinct)
next
  case 2 then show ?case by (rule chain_unique)
next
  case 3 then show ?case using list_add_chain chain_snoc by blast
next
  case 4 then show ?case by (rule list_add_frame)
next
  case 5 then show ?case using list_delete_ok by blast
next
  case 6 then show ?case by (rule list_delete_frame)
next
  case 7 then show ?case by (simp add: list_delete_absent)
next
  case 8 then show ?case by (rule list_head_chain)
next
  case 9 then show ?case by (simp add: list_head_def)
qed

end
