(* ===== verification/Cstring.thy ===== *)
theory Cstring
  imports Prelude
begin

text \<open>
  \<open>strlen\<close>, \<open>strcpy\<close> and \<open>strcmp\<close> of kernel/kernel/lib.c. A \<open>char*\<close> is the list of the bytes
  from the pointer to the end of the object it points into; reading or writing past that
  end is \<^const>\<open>OutOfBounds\<close>. The loops are the code's, over an index; the lemmas relate
  them to \<open>cstr\<close>, the bytes before the terminator.
\<close>

section \<open>The functions of lib.c\<close>

function strlen_from :: "u8 list \<Rightarrow> nat \<Rightarrow> nat exec" where
  "strlen_from src i =
     require (i < length src) OutOfBounds
       (if src ! i \<noteq> 0 then strlen_from src (Suc i) else Inr i)"
  by pat_completeness auto
termination
  by (relation "measure (\<lambda>(src, i). length src - i)") auto

definition strlen :: "u8 list \<Rightarrow> nat exec" where
  "strlen src = strlen_from src 0"

function strcpy_from :: "u8 list \<Rightarrow> u8 list \<Rightarrow> nat \<Rightarrow> nat \<Rightarrow> u8 list exec" where
  "strcpy_from dst src len i =
     (if i < len
      then require (i < length dst \<and> i < length src) OutOfBounds
             (strcpy_from (dst[i := src ! i]) src len (Suc i))
      else require (len < length dst) OutOfBounds (Inr (dst[len := 0])))"
  by pat_completeness auto
termination
  by (relation "measure (\<lambda>(dst, src, len, i). len - i)") auto

definition strcpy :: "u8 list \<Rightarrow> u8 list \<Rightarrow> u8 list exec" where
  "strcpy dst src = bind_r (strlen src) (\<lambda>len. strcpy_from dst src len 0)"

text \<open>\<open>char\<close> is signed, so the bytes are compared by \<open>sint\<close>.\<close>

function strcmp_from :: "u8 list \<Rightarrow> u8 list \<Rightarrow> nat \<Rightarrow> nat \<Rightarrow> nat \<Rightarrow> nat \<Rightarrow> int" where
  "strcmp_from dst src len1 len2 len i =
     (if i < len
      then if sint (dst ! i) > sint (src ! i) then 1
           else if sint (dst ! i) < sint (src ! i) then -1
           else strcmp_from dst src len1 len2 len (Suc i)
      else if len1 = len2 then 0 else if len1 > len2 then 1 else -1)"
  by pat_completeness auto
termination
  by (relation "measure (\<lambda>(dst, src, len1, len2, len, i). len - i)") auto

definition strcmp :: "u8 list \<Rightarrow> u8 list \<Rightarrow> int exec" where
  "strcmp dst src =
     bind_r (strlen dst) (\<lambda>len1.
     bind_r (strlen src) (\<lambda>len2.
       let len = (if len1 < len2 then len1 else len2)
       in Inr (strcmp_from dst src len1 len2 len 0)))"

declare strlen_from.simps [simp del] strcpy_from.simps [simp del] strcmp_from.simps [simp del]


section \<open>Their meaning on terminated strings\<close>

definition cstr :: "u8 list \<Rightarrow> u8 list" where
  "cstr s = takeWhile (\<lambda>c. c \<noteq> 0) s"

definition terminated :: "u8 list \<Rightarrow> bool" where
  "terminated s \<longleftrightarrow> 0 \<in> set s"

text \<open>A string literal of C: its characters and the terminator.\<close>

definition c_lit :: "string \<Rightarrow> u8 list" where
  "c_lit s = map of_char s @ [0]"

lemma cstr_Cons [simp]: "cstr (c # s) = (if c = 0 then [] else c # cstr s)"
  by (simp add: cstr_def)

lemma cstr_Nil [simp]: "cstr [] = []"
  by (simp add: cstr_def)

lemma terminated_Cons [simp]: "terminated (c # s) \<longleftrightarrow> c = 0 \<or> terminated s"
  by (auto simp: terminated_def)

lemma terminated_Nil [simp]: "\<not> terminated []"
  by (simp add: terminated_def)

lemma terminated_append [simp]: "terminated (s @ r) \<longleftrightarrow> terminated s \<or> terminated r"
  by (auto simp: terminated_def)

lemma terminated_append_zero: "terminated (s @ 0 # r)"
  by simp

lemma cstr_append [simp]: "0 \<notin> set s \<Longrightarrow> cstr (s @ r) = s @ cstr r"
  by (induction s) auto

lemma cstr_no_zero: "0 \<notin> set s \<Longrightarrow> cstr s = s"
  using cstr_append [of s "[]"] by simp

lemma cstr_append_zero: "0 \<notin> set s \<Longrightarrow> cstr (s @ 0 # r) = s"
  by simp

lemma zero_notin_cstr [simp]: "0 \<notin> set (cstr s)"
  by (induction s) auto

lemma length_cstr_less: "terminated s \<Longrightarrow> length (cstr s) < length s"
  by (induction s) auto

lemma cstr_prefix: "i < length (cstr s) \<Longrightarrow> s ! i = cstr s ! i"
  by (simp add: cstr_def takeWhile_nth)

lemma terminated_split: "terminated s \<Longrightarrow> \<exists>r. s = cstr s @ 0 # r"
  by (induction s) auto

lemma strlen_from_append: "strlen_from (pre @ s) (length pre) =
    (if terminated s then Inr (length pre + length (cstr s)) else Inl OutOfBounds)"
proof (induction s arbitrary: pre)
  case Nil
  then show ?case by (simp add: strlen_from.simps)
next
  case (Cons c s)
  have "strlen_from (pre @ c # s) (Suc (length pre)) =
      (if terminated s then Inr (Suc (length pre) + length (cstr s)) else Inl OutOfBounds)"
    using Cons.IH [of "pre @ [c]"] by simp
  then show ?case by (simp add: strlen_from.simps [of _ "length pre"])
qed

lemma strlen_eq: "strlen s = (if terminated s then Inr (length (cstr s)) else Inl OutOfBounds)"
  using strlen_from_append [of "[]" s] by (simp add: strlen_def)

lemma strcpy_from_eq:
  assumes "len \<le> length src" and "i \<le> len" and "len \<le> length dst" and "take i dst = take i src"
  shows "strcpy_from dst src len i =
    (if len < length dst then Inr (take len src @ 0 # drop (Suc len) dst) else Inl OutOfBounds)"
  using assms
proof (induction "len - i" arbitrary: dst i)
  case 0
  then have "i = len" by simp
  with 0 show ?case by (simp add: strcpy_from.simps [of dst src len len] upd_conv_take_nth_drop)
next
  case (Suc n)
  have i: "i < length dst" "i < length src" using Suc.hyps(2) Suc.prems by auto
  have "take (Suc i) (dst[i := src ! i]) = take (Suc i) src"
    using i Suc.prems(4) by (simp add: take_Suc_conv_app_nth)
  then have IH: "strcpy_from (dst[i := src ! i]) src len (Suc i) =
      (if len < length dst then Inr (take len src @ 0 # drop (Suc len) (dst[i := src ! i]))
       else Inl OutOfBounds)"
    using Suc.hyps(1) [of "Suc i" "dst[i := src ! i]"] Suc.hyps(2) Suc.prems by simp
  have "i < len" using Suc.hyps(2) by simp
  then have "strcpy_from dst src len i = strcpy_from (dst[i := src ! i]) src len (Suc i)"
    using i by (simp add: strcpy_from.simps [of _ _ _ i])
  with IH \<open>i < len\<close> show ?case by simp
qed

lemma strcpy_from_overrun:
  "length dst < len \<Longrightarrow> i \<le> length dst \<Longrightarrow> strcpy_from dst src len i = Inl OutOfBounds"
proof (induction "length dst - i" arbitrary: dst i)
  case 0
  then show ?case by (simp add: strcpy_from.simps [of _ _ _ i])
next
  case (Suc n)
  have "strcpy_from (dst[i := src ! i]) src len (Suc i) = Inl OutOfBounds"
    using Suc.hyps(1) [of "dst[i := src ! i]" "Suc i"] Suc.hyps(2) Suc.prems by simp
  then show ?case using Suc.hyps(2) Suc.prems
    by (simp add: strcpy_from.simps [of _ _ _ i] require_def)
qed

lemma strcpy_eq: "strcpy dst src =
    (if terminated src \<and> length (cstr src) < length dst
     then Inr (cstr src @ 0 # drop (Suc (length (cstr src))) dst) else Inl OutOfBounds)"
proof (cases "terminated src")
  case True
  let ?n = "length (cstr src)"
  have "?n \<le> length src" using length_cstr_less [OF True] by simp
  moreover have "take ?n src = cstr src"
    by (metis append_eq_conv_conj terminated_split [OF True])
  ultimately show ?thesis
    using True strcpy_from_eq [of ?n src 0 dst] strcpy_from_overrun [of dst ?n 0 src]
    by (cases "?n \<le> length dst") (auto simp: strcpy_def strlen_eq)
next
  case False
  then show ?thesis by (simp add: strcpy_def strlen_eq)
qed

lemma strcpy_ok:
  "terminated src \<Longrightarrow> length (cstr src) < length dst \<Longrightarrow>
    \<exists>d. strcpy dst src = Inr d \<and> cstr d = cstr src \<and> terminated d \<and> length d = length dst"
  by (simp add: strcpy_eq)


text \<open>The order \<open>strcmp\<close> decides: lexicographic over signed characters.\<close>

fun cmp_str :: "u8 list \<Rightarrow> u8 list \<Rightarrow> int" where
  "cmp_str [] [] = 0"
| "cmp_str [] (_ # _) = -1"
| "cmp_str (_ # _) [] = 1"
| "cmp_str (x # xs) (y # ys) =
     (if sint x > sint y then 1 else if sint x < sint y then -1 else cmp_str xs ys)"

lemma strcmp_from_stop:
  "len \<le> i \<Longrightarrow> strcmp_from dst src len1 len2 len i
    = (if len1 = len2 then 0 else if len1 > len2 then 1 else -1)"
  by (simp add: strcmp_from.simps [of dst src len1 len2 len i])

lemma strcmp_from_eq:
  "i \<le> length (cstr a) \<Longrightarrow> i \<le> length (cstr b) \<Longrightarrow>
    strcmp_from a b (length (cstr a)) (length (cstr b)) (min (length (cstr a)) (length (cstr b))) i
      = cmp_str (drop i (cstr a)) (drop i (cstr b))"
proof (induction "min (length (cstr a)) (length (cstr b)) - i" arbitrary: i)
  case 0
  then consider "i = length (cstr a)" "i = length (cstr b)"
    | "i = length (cstr a)" "i < length (cstr b)" | "i < length (cstr a)" "i = length (cstr b)"
    by linarith
  then show ?case
    by cases (auto simp: strcmp_from_stop Cons_nth_drop_Suc [symmetric])
next
  case (Suc n)
  let ?m = "min (length (cstr a)) (length (cstr b))"
  have i: "i < length (cstr a)" "i < length (cstr b)" using Suc.hyps(2) by auto
  have "strcmp_from a b (length (cstr a)) (length (cstr b)) ?m (Suc i)
      = cmp_str (drop (Suc i) (cstr a)) (drop (Suc i) (cstr b))"
    using Suc.hyps(1) [of "Suc i"] Suc.hyps(2) i by simp
  moreover have "a ! i = cstr a ! i" "b ! i = cstr b ! i" using i cstr_prefix by auto
  ultimately show ?case using i
    by (simp add: strcmp_from.simps [of _ _ _ _ _ i] Cons_nth_drop_Suc [symmetric])
qed

lemma strcmp_eq: "strcmp a b =
    (if terminated a \<and> terminated b then Inr (cmp_str (cstr a) (cstr b)) else Inl OutOfBounds)"
proof -
  have "(if m < n then m else n) = min m n" for m n :: nat by simp
  then show ?thesis
    using strcmp_from_eq [of 0 a b] by (simp add: strcmp_def strlen_eq Let_def del: min_def)
qed

lemma cmp_str_0_iff [simp]: "cmp_str a b = 0 \<longleftrightarrow> a = b"
  by (induction a b rule: cmp_str.induct) (auto intro: signed_word_eqI simp: not_less)

lemma cmp_str_antisym: "cmp_str b a = - cmp_str a b"
  by (induction a b rule: cmp_str.induct) auto

lemma cmp_str_Cons_less:
  "cmp_str (x # xs) (y # ys) < 0 \<longleftrightarrow> sint x < sint y \<or> sint x = sint y \<and> cmp_str xs ys < 0"
  by auto

lemma cmp_str_trans: "cmp_str a b < 0 \<Longrightarrow> cmp_str b c < 0 \<Longrightarrow> cmp_str a c < 0"
proof (induction a b arbitrary: c rule: cmp_str.induct)
  case (2 y ys)
  then show ?case by (cases c) simp_all
next
  case (4 x xs y ys)
  show ?case
  proof (cases c)
    case Nil
    with 4 show ?thesis by simp
  next
    case (Cons z zs)
    have "sint x < sint y \<or> sint x = sint y \<and> cmp_str xs ys < 0"
      and "sint y < sint z \<or> sint y = sint z \<and> cmp_str ys zs < 0"
      using 4(2,3) by (simp_all only: Cons cmp_str_Cons_less)
    with 4(1) [of zs] have "sint x < sint z \<or> sint x = sint z \<and> cmp_str xs zs < 0"
      by (elim disjE conjE) simp_all
    then show ?thesis by (simp only: Cons cmp_str_Cons_less)
  qed
qed simp_all

text \<open>
  How the code uses \<open>strcmp\<close>: equality of strings, and, against the literal \<open>"\0"\<close> (two zero
  bytes), emptiness.
\<close>

lemma strcmp_equal_iff: "terminated a \<Longrightarrow> terminated b \<Longrightarrow> strcmp a b = Inr 0 \<longleftrightarrow> cstr a = cstr b"
  by (simp add: strcmp_eq)

lemma strcmp_is_Inr: "strcmp a b = Inr c \<Longrightarrow> (c = 0 \<longleftrightarrow> cstr a = cstr b)"
  by (auto simp: strcmp_eq split: if_splits)

lemma strcmp_empty: "terminated a \<Longrightarrow> \<exists>c. strcmp a [0, 0] = Inr c \<and> (c \<noteq> 0 \<longleftrightarrow> cstr a \<noteq> [])"
  by (simp add: strcmp_eq)

end
