(* ===== verification/Fsdata.thy ===== *)
theory Fsdata
  imports Cstring
begin

text \<open>
  The file system's data, kernel/include/x86/fs.h: the superblock, the 32 inode blocks and
  the globals of the path functions. The union of \<open>datablock\<close> and \<open>dirdata\<close> is kept as
  bytes: an inode block holds 32 KB of them, and a directory entry is a view of 32 of these
  (a little-endian inode number, then a name of 28 bytes). Both unions are thus shared the
  way the code shares them. The byte image of the whole structure is in Fsimage.
\<close>

section \<open>Constants of fs.h\<close>

abbreviation NR_INODE :: nat where "NR_INODE \<equiv> 32"
abbreviation MAX_FILE_SZ :: nat where "MAX_FILE_SZ \<equiv> 32768"
abbreviation NR_DIRDATA :: nat where "NR_DIRDATA \<equiv> 1024"
abbreviation MAX_FILENAME_LEN :: nat where "MAX_FILENAME_LEN \<equiv> 28"

text \<open>\<open>enum file_type\<close> and \<open>enum block_type\<close>\<close>

abbreviation UNUSED :: u32 where "UNUSED \<equiv> 0"
abbreviation FL :: u32 where "FL \<equiv> 1"
abbreviation DIR :: u32 where "DIR \<equiv> 2"
abbreviation available :: u8 where "available \<equiv> 0"
abbreviation inuse :: u8 where "inuse \<equiv> 1"

abbreviation slash :: u8 where "slash \<equiv> 47"


section \<open>The structures\<close>

record superblock =
  sb_id :: "u8 list"
  fs_sz_mb :: u32
  nr_node :: u32
  superblock_sz_b :: u32
  inodeblcok_sz_b :: u32
  inuse_inode_num :: u32
  inode_map :: "nat \<Rightarrow> u8"

text \<open>\<open>isz\<close> is the union of \<open>filesz\<close> and \<open>filenum\<close>.\<close>

record inodeblock =
  itype :: u32
  isz :: u32
  iname :: "u8 list"
  idata :: "nat \<Rightarrow> u8"

record filesys =
  superb :: superblock             \<comment> \<open>\<open>*fs_superpointer\<close>\<close>
  inodes :: "nat \<Rightarrow> inodeblock"    \<comment> \<open>\<open>fs_inodepointer[]\<close>\<close>
  path_offset :: nat
  top_dir :: "u8 list"

text \<open>The array accesses \<open>fs_inodepointer[k]\<close>, with \<open>k\<close> a C \<open>int\<close>.\<close>

definition inode_at :: "filesys \<Rightarrow> int \<Rightarrow> inodeblock exec" where
  "inode_at fs k = require (0 \<le> k \<and> k < 32) OutOfBounds (Inr (inodes fs (nat k)))"

lemma inode_at_nat [simp]: "k < 32 \<Longrightarrow> inode_at fs (int k) = Inr (inodes fs k)"
  by (simp add: inode_at_def)

lemma inode_at_uint [simp]: "unat w < 32 \<Longrightarrow> inode_at fs (uint w) = Inr (inodes fs (unat w))"
  using inode_at_nat [of "unat w" fs] by simp

lemma inode_at_eq_Inr: "inode_at fs k = Inr ino \<longleftrightarrow> 0 \<le> k \<and> k < 32 \<and> ino = inodes fs (nat k)"
  by (auto simp: inode_at_def require_def)

definition put_inode :: "filesys \<Rightarrow> nat \<Rightarrow> inodeblock \<Rightarrow> filesys" where
  "put_inode fs k ino = fs\<lparr>inodes := (inodes fs)(k := ino)\<rparr>"

lemma put_inode_simps [simp]:
  "inodes (put_inode fs k ino) j = (if j = k then ino else inodes fs j)"
  "superb (put_inode fs k ino) = superb fs"
  "path_offset (put_inode fs k ino) = path_offset fs"
  "top_dir (put_inode fs k ino) = top_dir fs"
  by (simp_all add: put_inode_def)


section \<open>Directory entries\<close>

definition dent_ino :: "inodeblock \<Rightarrow> nat \<Rightarrow> u32" where
  "dent_ino ino i = get32 (idata ino) (32 * i)"

definition dent_name :: "inodeblock \<Rightarrow> nat \<Rightarrow> u8 list" where
  "dent_name ino i = get_bytes (idata ino) (32 * i + 4) MAX_FILENAME_LEN"

definition set_dent_ino :: "inodeblock \<Rightarrow> nat \<Rightarrow> u32 \<Rightarrow> inodeblock" where
  "set_dent_ino ino i w = ino\<lparr>idata := put32 (idata ino) (32 * i) w\<rparr>"

definition set_dent_name :: "inodeblock \<Rightarrow> nat \<Rightarrow> u8 list \<Rightarrow> inodeblock" where
  "set_dent_name ino i bs = ino\<lparr>idata := put_bytes (idata ino) (32 * i + 4) bs\<rparr>"

text \<open>\<open>strcpy(dirdata[i].filename, src)\<close>\<close>

definition strcpy_dent :: "inodeblock \<Rightarrow> nat \<Rightarrow> u8 list \<Rightarrow> inodeblock exec" where
  "strcpy_dent ino i src =
     bind_r (strcpy (dent_name ino i) src) (\<lambda>bs. Inr (set_dent_name ino i bs))"

lemma length_dent_name [simp]: "length (dent_name ino i) = 28"
  by (simp add: dent_name_def)

lemma dent_fields [simp]:
  "itype (set_dent_ino ino i w) = itype ino" "itype (set_dent_name ino i bs) = itype ino"
  "isz (set_dent_ino ino i w) = isz ino" "isz (set_dent_name ino i bs) = isz ino"
  "iname (set_dent_ino ino i w) = iname ino" "iname (set_dent_name ino i bs) = iname ino"
  by (simp_all add: set_dent_ino_def set_dent_name_def)

lemma dent_more_fields [simp]:
  "dent_ino (ino\<lparr>itype := t\<rparr>) = dent_ino ino" "dent_ino (ino\<lparr>isz := n\<rparr>) = dent_ino ino"
  "dent_ino (ino\<lparr>iname := s\<rparr>) = dent_ino ino"
  "dent_name (ino\<lparr>itype := t\<rparr>) = dent_name ino" "dent_name (ino\<lparr>isz := n\<rparr>) = dent_name ino"
  "dent_name (ino\<lparr>iname := s\<rparr>) = dent_name ino"
  by (simp_all add: fun_eq_iff dent_ino_def dent_name_def)

lemma dent_ino_set [simp]: "dent_ino (set_dent_ino ino i w) j = (if j = i then w else dent_ino ino j)"
proof (cases "j = i")
  case False
  then have "32 * j + 4 \<le> 32 * i \<or> 32 * i + 4 \<le> 32 * j" by arith
  with False show ?thesis by (simp add: dent_ino_def set_dent_ino_def)
qed (simp add: dent_ino_def set_dent_ino_def)

lemma dent_ino_set_name [simp]:
  assumes "length bs = 28"
  shows "dent_ino (set_dent_name ino i bs) j = dent_ino ino j"
proof -
  have "32 * j + 4 \<le> 32 * i + 4 \<or> 32 * i + 32 \<le> 32 * j" by arith
  with assms show ?thesis by (auto simp: dent_ino_def set_dent_name_def)
qed

lemma dent_name_set_ino [simp]: "dent_name (set_dent_ino ino i w) j = dent_name ino j"
proof -
  have "32 * j + 32 \<le> 32 * i \<or> 32 * i + 4 \<le> 32 * j + 4" by arith
  then show ?thesis by (auto simp: dent_name_def set_dent_ino_def)
qed

lemma dent_name_set [simp]:
  assumes "length bs = 28"
  shows "dent_name (set_dent_name ino i bs) j = (if j = i then bs else dent_name ino j)"
proof (cases "j = i")
  case True
  then show ?thesis
    using get_put_bytes_same [of "idata ino" "32 * i + 4" bs] assms
    by (simp add: dent_name_def set_dent_name_def)
next
  case False
  then have "32 * j + 32 \<le> 32 * i + 4 \<or> 32 * i + 32 \<le> 32 * j + 4" by arith
  with False assms show ?thesis by (auto simp: dent_name_def set_dent_name_def)
qed

lemma strcpy_dent_ok:
  assumes "terminated src" and "length (cstr src) < 28"
  shows "\<exists>bs. strcpy_dent ino i src = Inr (set_dent_name ino i bs) \<and> length bs = 28
    \<and> terminated bs \<and> cstr bs = cstr src"
proof -
  let ?bs = "cstr src @ 0 # drop (Suc (length (cstr src))) (dent_name ino i)"
  have "strcpy_dent ino i src = Inr (set_dent_name ino i ?bs)"
    using assms by (simp add: strcpy_dent_def strcpy_eq)
  moreover have "length ?bs = 28 \<and> terminated ?bs \<and> cstr ?bs = cstr src"
    using assms by simp
  ultimately show ?thesis by blast
qed

lemma strcpy_dent_cases:
  assumes "strcpy_dent ino i src = Inr ino'"
  shows "terminated src \<and> (\<exists>bs. ino' = set_dent_name ino i bs \<and> length bs = 28
    \<and> terminated bs \<and> cstr bs = cstr src)"
  using assms by (auto simp: strcpy_dent_def strcpy_eq exec_Inr_iffs split: if_splits)

end
