(* ===== verification/Disk.thy ===== *)
theory Disk
  imports Prelude "HOL-Library.Signed_Division"
begin

unbundle bit_operations_syntax

text \<open>
  The disk driver, kernel/kernel/disk.c. The disk and memory are byte maps; a sector is
  selected by the bytes written to the ports 0x1F3 to 0x1F6 and its 512 bytes come or go as 128
  words through the data port. \<open>ata_lba\<close> states which sector an ATA drive selects in
  LBA mode. The lemmas give the bytes that \<open>readBytes\<close> and \<open>writeBytes\<close> transfer,
  with the bytes around them that a whole sector drags along.
\<close>

abbreviation (input) SECTSIZE :: nat where "SECTSIZE \<equiv> 512"

section \<open>One sector\<close>

text \<open>\<open>outByte(0x1F3, offset)\<close> ... \<open>outByte(0x1F6, (offset >> 24) | 0xE0)\<close>\<close>

definition lba_ports :: "int \<Rightarrow> u8 \<times> u8 \<times> u8 \<times> u8" where
  "lba_ports off = (word_of_int off, word_of_int (off div 256), word_of_int (off div 65536),
     word_of_int (off div 16777216) OR 0xE0)"

text \<open>LBA mode: 24 bits in three registers and 4 bits in the drive register.\<close>

definition ata_lba :: "u8 \<times> u8 \<times> u8 \<times> u8 \<Rightarrow> nat" where
  "ata_lba p = (case p of (b0, b1, b2, b3) \<Rightarrow>
     unat b0 + 256 * unat b1 + 65536 * unat b2 + 16777216 * (unat b3 mod 16))"

primrec read_longs :: "nat \<Rightarrow> nat \<Rightarrow> nat \<Rightarrow> (nat \<Rightarrow> u8) \<Rightarrow> (nat \<Rightarrow> u8) \<Rightarrow> (nat \<Rightarrow> u8)" where
  "read_longs 0 dst a disk m = m"
| "read_longs (Suc i) dst a disk m =
     put32 (read_longs i dst a disk m) (dst + 4 * i) (get32 disk (a + 4 * i))"

definition readSect :: "nat \<Rightarrow> int \<Rightarrow> (nat \<Rightarrow> u8) \<Rightarrow> (nat \<Rightarrow> u8) \<Rightarrow> (nat \<Rightarrow> u8)" where
  "readSect dst off disk m = read_longs (SECTSIZE div 4) dst (SECTSIZE * ata_lba (lba_ports off)) disk m"

definition writeSect :: "nat \<Rightarrow> int \<Rightarrow> (nat \<Rightarrow> u8) \<Rightarrow> (nat \<Rightarrow> u8) \<Rightarrow> (nat \<Rightarrow> u8)" where
  "writeSect src off m disk = read_longs (SECTSIZE div 4) (SECTSIZE * ata_lba (lba_ports off)) src m disk"


section \<open>Runs of bytes\<close>

text \<open>\<open>for(; addr < addr_end; addr+=SECTSIZE,section++)\<close>\<close>

function read_sects :: "nat \<Rightarrow> nat \<Rightarrow> int \<Rightarrow> (nat \<Rightarrow> u8) \<Rightarrow> (nat \<Rightarrow> u8) \<Rightarrow> (nat \<Rightarrow> u8)" where
  "read_sects addr addr_end sect disk m =
     (if addr < addr_end
      then read_sects (addr + SECTSIZE) addr_end (sect + 1) disk (readSect addr sect disk m)
      else m)"
  by pat_completeness auto
termination by (relation "measure (\<lambda>(addr, addr_end, _). addr_end - addr)") auto

function write_sects :: "nat \<Rightarrow> nat \<Rightarrow> int \<Rightarrow> (nat \<Rightarrow> u8) \<Rightarrow> (nat \<Rightarrow> u8) \<Rightarrow> (nat \<Rightarrow> u8)" where
  "write_sects addr addr_end sect m disk =
     (if addr < addr_end
      then write_sects (addr + SECTSIZE) addr_end (sect + 1) m (writeSect addr sect m disk)
      else disk)"
  by pat_completeness auto
termination by (relation "measure (\<lambda>(addr, addr_end, _). addr_end - addr)") auto

declare read_sects.simps [simp del] write_sects.simps [simp del]

text \<open>
  \<open>diskoff\<close> and \<open>cont\<close> are C's \<open>int\<close>: division and remainder round towards zero, a negative offset gives negative
  sector numbers, a negative count puts the end before the start. The pointers of the loop must stay in the 32-bit address space: where the
  code's would wrap around, the result is \<open>OutOfBounds\<close>.
\<close>

definition in_space :: "int \<Rightarrow> bool" where
  "in_space x \<longleftrightarrow> 0 \<le> x \<and> x + 512 \<le> 4294967296"

definition readBytes :: "nat \<Rightarrow> int \<Rightarrow> int \<Rightarrow> (nat \<Rightarrow> u8) \<Rightarrow> (nat \<Rightarrow> u8) \<Rightarrow> (nat \<Rightarrow> u8) exec" where
  "readBytes addr diskoff cont disk m =
     (let addr_end = int addr + cont;
          addr = int addr - diskoff smod int SECTSIZE;
          sect = diskoff sdiv int SECTSIZE
      in require (in_space addr \<and> in_space addr_end) OutOfBounds (Inr (read_sects (nat addr) (nat addr_end) sect disk m)))"

definition writeBytes :: "nat \<Rightarrow> int \<Rightarrow> int \<Rightarrow> (nat \<Rightarrow> u8) \<Rightarrow> (nat \<Rightarrow> u8) \<Rightarrow> (nat \<Rightarrow> u8) exec" where
  "writeBytes addr diskoff cont m disk =
     (let addr_end = int addr + cont
      in require (diskoff smod int SECTSIZE = 0) (AssertFail ''disk.c'' 60)
           (let diskoff = diskoff - diskoff smod int SECTSIZE;
                sect = diskoff sdiv int SECTSIZE
            in require (in_space (int addr) \<and> in_space addr_end) OutOfBounds
                 (Inr (write_sects addr (nat addr_end) sect m disk))))"

lemma int_sdiv: "int n sdiv int d = int (n div d)" and int_smod: "int n smod int d = int (n mod d)"
  by (simp_all add: signed_divide_int_def signed_modulo_int_def sgn_if zdiv_int zmod_int)

lemmas int_sdiv_512 [simp] = int_sdiv [of _ 512, simplified] int_smod [of _ 512, simplified]


section \<open>What is transferred\<close>

text \<open>The copy of \<open>n\<close> bytes from \<open>a\<close> of one map to \<open>d\<close> of the other.\<close>

definition blit :: "nat \<Rightarrow> nat \<Rightarrow> nat \<Rightarrow> (nat \<Rightarrow> u8) \<Rightarrow> (nat \<Rightarrow> u8) \<Rightarrow> (nat \<Rightarrow> u8)" where
  "blit d a n from to = (\<lambda>k. if d \<le> k \<and> k < d + n then from (a + (k - d)) else to k)"

lemma blit_0 [simp]: "blit d a 0 f t = t"
  by (rule ext) (auto simp: blit_def)

lemma blit_blit: "blit (d + m) (a + m) n f (blit d a m f t) = blit d a (m + n) f t"
  by (rule ext) (auto simp: blit_def)

lemma blit_same [simp]: "j < n \<Longrightarrow> blit d a n f t (d + j) = f (a + j)"
  by (simp add: blit_def)

lemma blit_other [simp]: "k < d \<or> d + n \<le> k \<Longrightarrow> blit d a n f t k = t k"
  by (auto simp: blit_def)

lemma byte_digits:
  fixes a b c e :: nat
  assumes "a < 256" "b < 256" "c < 256" "e < 256"
  defines "n \<equiv> a + 256 * b + 65536 * c + 16777216 * e"
  shows "n mod 256 = a" "n div 256 mod 256 = b" "n div 65536 mod 256 = c" "n div 16777216 mod 256 = e"
    "n < 4294967296"
proof -
  have n: "n = a + 256 * (b + 256 * (c + 256 * e))" by (simp add: n_def)
  have d1: "n div 256 = b + 256 * (c + 256 * e)" using assms(1) unfolding n by simp
  have d2: "n div 65536 = c + 256 * e"
  proof -
    have "n div 65536 = n div 256 div 256" by (simp add: div_mult2_eq [symmetric])
    also have "\<dots> = c + 256 * e" using assms(2) unfolding d1 by simp
    finally show ?thesis .
  qed
  have d3: "n div 16777216 = e"
  proof -
    have "n div 16777216 = n div 65536 div 256" by (simp add: div_mult2_eq [symmetric])
    also have "\<dots> = e" using assms(3) unfolding d2 by simp
    finally show ?thesis .
  qed
  show "n mod 256 = a" using assms(1) by (simp only: n mod_mult_self2 mod_less)
  show "n div 256 mod 256 = b" using assms(2) by (simp only: d1 mod_mult_self2 mod_less)
  show "n div 65536 mod 256 = c" using assms(3) by (simp only: d2 mod_mult_self2 mod_less)
  show "n div 16777216 mod 256 = e" using assms(4) unfolding d3 by simp
  show "n < 4294967296" using assms unfolding n_def by linarith
qed

lemma unat_u8_less: "unat (w :: u8) < 256"
  using unsigned_less [of w] by simp

lemma put32_get32: "put32 t d (get32 f a) = blit d a 4 f t"
proof (rule ext)
  fix k
  let ?n = "unat (f a) + 256 * unat (f (a + 1)) + 65536 * unat (f (a + 2)) + 16777216 * unat (f (a + 3))"
  note d = byte_digits [OF unat_u8_less unat_u8_less unat_u8_less unat_u8_less,
      of "f a" "f (a + 1)" "f (a + 2)" "f (a + 3)"]
  have u: "unat (get32 f a) = ?n" unfolding get32_def by (rule unat_u32 [OF d(5)])
  have w: "(word_of_nat x :: u8) = w" if "x mod 256 = unat w" for x and w :: u8
    using that by (simp add: word_unat_eq_iff unat_of_nat)
  note ws = w [OF d(1)] w [OF d(2)] w [OF d(3)] w [OF d(4)]
  have "k = d \<or> k = d + 1 \<or> k = d + 2 \<or> k = d + 3 \<or> k < d \<or> d + 4 \<le> k" by linarith
  then show "put32 t d (get32 f a) k = blit d a 4 f t k"
    unfolding put32_def u ws by (auto simp: blit_def)
qed

lemma read_longs_blit: "read_longs i dst a f t = blit dst a (4 * i) f t"
proof (induction i)
  case 0
  show ?case by simp
next
  case (Suc i)
  show ?case using blit_blit [of dst "4 * i" a 4 f t]
    by (simp add: Suc put32_get32 add.commute)
qed


text \<open>The drive selects the sector asked for, up to 128 GB.\<close>

lemma ata_lba_ports:
  assumes "s < 268435456"
  shows "ata_lba (lba_ports (int s)) = s"
proof -
  have w: "unat (word_of_int (int x) :: u8) = x mod 256" for x by (simp add: unat_of_nat)
  have h: "s div 16777216 < 16" using assms by (simp add: less_mult_imp_div_less)
  have l: "unat (word_of_nat x OR 0xE0 :: u8) mod 16 = x" if "x < 16" for x
  proof -
    have "unat (word_of_nat x OR 0xE0 :: u8) mod 16 = take_bit 4 (unat (word_of_nat x :: u8) OR unat (0xE0 :: u8))"
      by (simp add: unsigned_or_eq take_bit_eq_mod)
    also have "\<dots> = take_bit 4 (unat (word_of_nat x :: u8))" by (simp add: take_bit_or)
    also have "\<dots> = x" using that by (simp add: unat_of_nat take_bit_eq_mod)
    finally show ?thesis .
  qed
  have "int s div 16777216 = int (s div 16777216)" "int s div 65536 = int (s div 65536)"
    "int s div 256 = int (s div 256)" by (simp_all add: zdiv_int)
  then have p: "lba_ports (int s) = (word_of_int (int s), word_of_int (int (s div 256)),
      word_of_int (int (s div 65536)), word_of_nat (s div 16777216) OR 0xE0)"
    by (simp add: lba_ports_def)
  have "s mod 256 + 256 * (s div 256 mod 256) + 65536 * (s div 65536 mod 256)
      + 16777216 * (s div 16777216) = s"
    using nat_bytes_split [of s] assms h by simp
  then show ?thesis unfolding p ata_lba_def prod.case w l [OF h] .
qed

lemma readSect_blit: "s < 268435456 \<Longrightarrow> readSect dst (int s) disk m = blit dst (512 * s) 512 disk m"
  by (simp add: readSect_def read_longs_blit ata_lba_ports)

lemma writeSect_blit: "s < 268435456 \<Longrightarrow> writeSect src (int s) m disk = blit (512 * s) src 512 m disk"
  by (simp add: writeSect_def read_longs_blit ata_lba_ports)

text \<open>\<open>n\<close> bytes take \<open>sectors n\<close> sectors.\<close>

definition sectors :: "nat \<Rightarrow> nat" where
  "sectors n = (n + 511) div 512"

lemma sectors_0 [simp]: "sectors 0 = 0"
  by (simp add: sectors_def)

lemma sectors_step: "0 < n \<Longrightarrow> sectors n = Suc (sectors (n - 512))"
  unfolding sectors_def by (cases "n \<le> 512") (simp_all add: le_div_geq Suc_leI)

lemma sectors_bounds: "n \<le> 512 * sectors n \<and> 512 * sectors n \<le> n + 511"
proof -
  have "512 * ((n + 511) div 512) + (n + 511) mod 512 = n + 511" by simp
  moreover have "(n + 511) mod 512 < 512" by simp
  ultimately show ?thesis unfolding sectors_def by linarith
qed

lemma read_sects_blit:
  "s + sectors n \<le> 268435456 \<Longrightarrow>
    read_sects a (a + n) (int s) disk m = blit a (512 * s) (512 * sectors n) disk m"
proof (induction "sectors n" arbitrary: n a s m)
  case 0
  then have "n = 0" using sectors_bounds [of n] by simp
  then show ?case by (simp add: read_sects.simps [of a])
next
  case (Suc c)
  then have n: "0 < n" by (cases n) auto
  then have c: "sectors (n - 512) = c" using sectors_step [of n] Suc(2) by simp
  have e: "read_sects (a + 512) (a + n) s' d m' = read_sects (a + 512) (a + 512 + (n - 512)) s' d m'"
    for s' d m'
    by (cases "512 \<le> n") (simp_all add: read_sects.simps [of "a + 512"])
  have "read_sects a (a + n) (int s) disk m =
      read_sects (a + 512) (a + 512 + (n - 512)) (int (Suc s)) disk (readSect a (int s) disk m)"
    using n by (simp add: read_sects.simps [of a] e add.commute)
  also have "\<dots> = blit (a + 512) (512 * Suc s) (512 * c) disk (blit a (512 * s) 512 disk m)"
    using Suc(1) [of "n - 512" "Suc s"] Suc(2,3) c by (simp add: readSect_blit)
  also have "\<dots> = blit a (512 * s) (512 * sectors n) disk m"
    using blit_blit [of a 512 "512 * s" "512 * c" disk m] Suc(2) [symmetric] by (simp add: add.commute)
  finally show ?case .
qed

lemma write_sects_blit:
  "s + sectors n \<le> 268435456 \<Longrightarrow>
    write_sects a (a + n) (int s) m disk = blit (512 * s) a (512 * sectors n) m disk"
proof (induction "sectors n" arbitrary: n a s disk)
  case 0
  then have "n = 0" using sectors_bounds [of n] by simp
  then show ?case by (simp add: write_sects.simps [of a])
next
  case (Suc c)
  then have n: "0 < n" by (cases n) auto
  then have c: "sectors (n - 512) = c" using sectors_step [of n] Suc(2) by simp
  have e: "write_sects (a + 512) (a + n) s' d m' = write_sects (a + 512) (a + 512 + (n - 512)) s' d m'"
    for s' d m'
    by (cases "512 \<le> n") (simp_all add: write_sects.simps [of "a + 512"])
  have "write_sects a (a + n) (int s) m disk =
      write_sects (a + 512) (a + 512 + (n - 512)) (int (Suc s)) m (writeSect a (int s) m disk)"
    using n by (simp add: write_sects.simps [of a] e add.commute)
  also have "\<dots> = blit (512 * Suc s) (a + 512) (512 * c) m (blit (512 * s) a 512 m disk)"
    using Suc(1) [of "n - 512" "Suc s"] Suc(2,3) c by (simp add: writeSect_blit)
  also have "\<dots> = blit (512 * s) a (512 * sectors n) m disk"
    using blit_blit [of "512 * s" 512 a "512 * c" m disk] Suc(2) [symmetric] by (simp add: add.commute)
  finally show ?case .
qed

lemma readBytes_eq:
  assumes "off mod 512 \<le> addr" and "off + cont + 511 < 137438953472" and "addr + cont + 512 \<le> 4294967296"
  shows "readBytes addr (int off) (int cont) disk m = Inr (blit (addr - off mod 512) (512 * (off div 512))
    (512 * sectors (cont + off mod 512)) disk m)"
proof -
  let ?n = "cont + off mod 512"
  have "512 * (off div 512) + off mod 512 = off" by simp
  then have s: "off div 512 + sectors ?n \<le> 268435456"
    using sectors_bounds [of ?n] assms(2) by linarith
  have e: "int addr - int (off mod 512) = int (addr - off mod 512)"
    "int addr + int cont = int ((addr - off mod 512) + ?n)"
    using assms(1) by linarith+
  have i: "in_space (int (addr - off mod 512))" "in_space (int ((addr - off mod 512) + ?n))"
    unfolding in_space_def using assms(1,3) by linarith+
  have q: "int off smod int 512 = int (off mod 512)" "int off sdiv int 512 = int (off div 512)"
    by (rule int_smod int_sdiv)+
  show ?thesis unfolding readBytes_def Let_def q e nat_int read_sects_blit [OF s] using i by (simp only: require_def simp_thms if_True)
qed

lemma writeBytes_eq:
  assumes "off mod 512 = 0" and "off + cont + 511 < 137438953472" and "addr + cont + 512 \<le> 4294967296"
  shows "writeBytes addr (int off) (int cont) m disk = Inr (blit off addr (512 * sectors cont) m disk)"
proof -
  have o: "512 * (off div 512) = off" using assms(1) mult_div_mod_eq [of 512 off] by linarith
  then have s: "off div 512 + sectors cont \<le> 268435456"
    using sectors_bounds [of cont] assms(2) by linarith
  have e: "int addr + int cont = int (addr + cont)" by simp
  have i: "in_space (int addr)" "in_space (int (addr + cont))"
    unfolding in_space_def using assms(3) by linarith+
  have q: "int off smod int 512 = 0" "int off sdiv int 512 = int (off div 512)"
    using assms(1) by (simp_all only: int_smod int_sdiv of_nat_0)
  show ?thesis unfolding writeBytes_def Let_def q diff_0_right e nat_int write_sects_blit [OF s] o
    using i by (simp only: require_def simp_thms if_True)
qed

lemma writeBytes_unaligned:
  "off mod 512 \<noteq> 0 \<Longrightarrow> writeBytes addr (int off) cont m disk = Inl (AssertFail ''disk.c'' 60)"
  by (simp add: writeBytes_def Let_def)

end
