(* ===== verification/Fsimage.thy ===== *)
theory Fsimage
  imports Fsdata Disk
begin

text \<open>
  The file system as the bytes that lie in memory at \<open>fs_addr\<close> and on the disk: the layout
  of \<open>superblock_t\<close> and of the array of \<open>inodeblock_t\<close> behind it, writing the structures into a
  byte map and reading them back, \<open>writeBack\<close> of fs.c and \<open>loadFS\<close> of kvm.c.
\<close>

section \<open>Layout\<close>

definition SUPERBLOCK_SIZE_B :: nat where [layout_simps]: "SUPERBLOCK_SIZE_B = 60"
definition sizeof_inodeblock :: nat where [layout_simps]: "sizeof_inodeblock = 32804"
definition fs_addr :: nat where [layout_simps]: "fs_addr = 0x01000000"
definition FS_OFFSET_IN_DISK :: nat where [layout_simps]: "FS_OFFSET_IN_DISK = 512 + 102400 + 10240"
definition FS_SIZE :: nat where [layout_simps]: "FS_SIZE = 2 * 1024 * 1024"

text \<open>\<open>&fs_inodepointer[i]\<close>\<close>

definition inode_addr :: "nat \<Rightarrow> nat \<Rightarrow> nat" where
  [layout_simps]: "inode_addr a i = a + SUPERBLOCK_SIZE_B + sizeof_inodeblock * i"

definition put_super :: "nat \<Rightarrow> superblock \<Rightarrow> (nat \<Rightarrow> u8) \<Rightarrow> (nat \<Rightarrow> u8)" where
  "put_super a sb m = put_bytes (put32 (put32 (put32 (put32 (put32
     (put_bytes m a (sb_id sb)) (a + 8) (fs_sz_mb sb)) (a + 12) (nr_node sb)) (a + 16) (superblock_sz_b sb))
     (a + 20) (inodeblcok_sz_b sb)) (a + 24) (inuse_inode_num sb)) (a + 28) (map (inode_map sb) [0..<32])"

definition get_super :: "nat \<Rightarrow> (nat \<Rightarrow> u8) \<Rightarrow> superblock" where
  "get_super a m = \<lparr>sb_id = get_bytes m a 8, fs_sz_mb = get32 m (a + 8), nr_node = get32 m (a + 12),
     superblock_sz_b = get32 m (a + 16), inodeblcok_sz_b = get32 m (a + 20),
     inuse_inode_num = get32 m (a + 24), inode_map = (\<lambda>i. m (a + 28 + i))\<rparr>"

definition put_inodeblock :: "nat \<Rightarrow> inodeblock \<Rightarrow> (nat \<Rightarrow> u8) \<Rightarrow> (nat \<Rightarrow> u8)" where
  "put_inodeblock a b m = put_bytes (put_bytes (put32 (put32 m a (itype b)) (a + 4) (isz b))
     (a + 8) (iname b)) (a + 36) (map (idata b) [0..<32768])"

definition get_inodeblock :: "nat \<Rightarrow> (nat \<Rightarrow> u8) \<Rightarrow> inodeblock" where
  "get_inodeblock a m = \<lparr>itype = get32 m a, isz = get32 m (a + 4), iname = get_bytes m (a + 8) 28,
     idata = (\<lambda>i. m (a + 36 + i))\<rparr>"

primrec put_inodes :: "nat \<Rightarrow> nat \<Rightarrow> (nat \<Rightarrow> inodeblock) \<Rightarrow> (nat \<Rightarrow> u8) \<Rightarrow> (nat \<Rightarrow> u8)" where
  "put_inodes 0 a bs m = m"
| "put_inodes (Suc n) a bs m = put_inodeblock (inode_addr a n) (bs n) (put_inodes n a bs m)"

text \<open>Memory with the file system in it at \<open>a\<close>, and the file system a pointer to \<open>a\<close> shows.\<close>

definition put_fs :: "nat \<Rightarrow> filesys \<Rightarrow> (nat \<Rightarrow> u8) \<Rightarrow> (nat \<Rightarrow> u8)" where
  "put_fs a f m = put_inodes 32 a (inodes f) (put_super a (superb f) m)"

definition get_fs :: "nat \<Rightarrow> (nat \<Rightarrow> u8) \<Rightarrow> filesys \<Rightarrow> filesys" where
  "get_fs a m f = f\<lparr>superb := get_super a m, inodes := (\<lambda>i. get_inodeblock (inode_addr a i) m)\<rparr>"


section \<open>writeBack and loadFS\<close>

definition write_back :: "filesys \<Rightarrow> (nat \<Rightarrow> u8) \<Rightarrow> (nat \<Rightarrow> u8) \<Rightarrow> (nat \<Rightarrow> u8) exec" where
  "write_back f m disk = writeBytes fs_addr (int FS_OFFSET_IN_DISK) (int FS_SIZE) (put_fs fs_addr f m) disk"

text \<open>\<open>mem_set\<close> of kvm.c, a loop over the bytes from \<open>beg\<close> to \<open>end\<close>.\<close>

function mem_set :: "nat \<Rightarrow> nat \<Rightarrow> u8 \<Rightarrow> (nat \<Rightarrow> u8) \<Rightarrow> (nat \<Rightarrow> u8)" where
  "mem_set t e b m = (if t < e then mem_set (t + 1) e b (m(t := b)) else m)"
  by pat_completeness auto
termination by (relation "measure (\<lambda>(t, e, _). e - t)") auto

declare mem_set.simps [simp del]

definition load_fs :: "(nat \<Rightarrow> u8) \<Rightarrow> (nat \<Rightarrow> u8) \<Rightarrow> (nat \<Rightarrow> u8) exec" where
  "load_fs disk m = readBytes fs_addr (int FS_OFFSET_IN_DISK) (int FS_SIZE) disk (mem_set fs_addr (fs_addr + FS_SIZE) 0 m)"


section \<open>Reading back what was written\<close>

definition super_wf :: "superblock \<Rightarrow> bool" where
  "super_wf sb \<longleftrightarrow> length (sb_id sb) = 8"

definition inode_wf :: "inodeblock \<Rightarrow> bool" where
  "inode_wf b \<longleftrightarrow> length (iname b) = 28"

definition fs_wf :: "filesys \<Rightarrow> bool" where
  "fs_wf f \<longleftrightarrow> super_wf (superb f) \<and> (\<forall>i<32. inode_wf (inodes f i))"

text \<open>Equality of the bytes the structures own.\<close>

definition same_inode :: "inodeblock \<Rightarrow> inodeblock \<Rightarrow> bool" where
  "same_inode b c \<longleftrightarrow> itype b = itype c \<and> isz b = isz c \<and> iname b = iname c \<and> (\<forall>j<32768. idata b j = idata c j)"

definition same_super :: "superblock \<Rightarrow> superblock \<Rightarrow> bool" where
  "same_super s t \<longleftrightarrow> (\<forall>i<32. inode_map s i = inode_map t i) \<and> s\<lparr>inode_map := inode_map t\<rparr> = t"

definition same_fs :: "filesys \<Rightarrow> filesys \<Rightarrow> bool" where
  "same_fs f g \<longleftrightarrow> same_super (superb f) (superb g) \<and> (\<forall>i<32. same_inode (inodes f i) (inodes g i))"

lemma put_bytes_nth [simp]: "j < length bs \<Longrightarrow> put_bytes m a bs (a + j) = bs ! j"
  by (simp add: put_bytes_def)

lemma get_put_bytes [simp]: "n = length bs \<Longrightarrow> get_bytes (put_bytes m a bs) a n = bs"
  by simp

lemma get_super_put: "super_wf sb \<Longrightarrow> same_super (get_super a (put_super a sb m)) sb"
  by (simp add: super_wf_def same_super_def get_super_def put_super_def)

lemma get_inodeblock_put: "inode_wf b \<Longrightarrow> same_inode (get_inodeblock a (put_inodeblock a b m)) b"
  by (simp add: inode_wf_def same_inode_def get_inodeblock_def put_inodeblock_def)

lemma put_inodeblock_other: "inode_wf b \<Longrightarrow> k < a \<or> a + 32804 \<le> k \<Longrightarrow> put_inodeblock a b m k = m k"
  by (auto simp: inode_wf_def put_inodeblock_def)

lemma get32_cong:
  assumes "\<And>j. j < 4 \<Longrightarrow> m (a + j) = m' (a + j)"
  shows "get32 m a = get32 m' a"
  using assms [of 0] assms [of 1] assms [of 2] assms [of 3] by (simp add: get32_def)

lemma get_super_cong:
  assumes "\<And>j. j < 60 \<Longrightarrow> m (a + j) = m' (a + j)"
  shows "same_super (get_super a m) (get_super a m')"
proof -
  have "get32 m (a + i) = get32 m' (a + i)" if "i + 4 \<le> 60" for i
    using assms that by (intro get32_cong) (simp add: add.assoc)
  moreover have "get_bytes m a 8 = get_bytes m' a 8"
    using assms by (intro get_bytes_cong) simp
  ultimately show ?thesis using assms
    by (simp add: same_super_def get_super_def add.assoc)
qed

lemma get_inodeblock_cong:
  assumes "\<And>j. j < 32804 \<Longrightarrow> m (a + j) = m' (a + j)"
  shows "same_inode (get_inodeblock a m) (get_inodeblock a m')"
proof -
  have "get32 m (a + i) = get32 m' (a + i)" if "i + 4 \<le> 32804" for i
    using assms that by (intro get32_cong) (simp add: add.assoc)
  from this [of 0] this [of 4] have "get32 m a = get32 m' a" "get32 m (a + 4) = get32 m' (a + 4)" by simp_all
  moreover have "get_bytes m (a + 8) 28 = get_bytes m' (a + 8) 28"
    using assms by (intro get_bytes_cong) (simp add: add.assoc)
  ultimately show ?thesis using assms
    by (simp add: same_inode_def get_inodeblock_def add.assoc)
qed

lemma same_super_trans: "same_super r s \<Longrightarrow> same_super s t \<Longrightarrow> same_super r t"
  unfolding same_super_def by (cases r; cases s; cases t) auto

lemma same_inode_trans: "same_inode b c \<Longrightarrow> same_inode c d \<Longrightarrow> same_inode b d"
  by (simp add: same_inode_def)

lemma put_inodes_other:
  "\<forall>i<n. inode_wf (bs i) \<Longrightarrow> k < inode_addr a 0 \<or> inode_addr a n \<le> k \<Longrightarrow> put_inodes n a bs m k = m k"
proof (induction n)
  case (Suc n)
  have "k < inode_addr a n \<or> inode_addr a n + 32804 \<le> k" "k < inode_addr a 0 \<or> inode_addr a n \<le> k"
    using Suc.prems(2) by (auto simp: layout_simps)
  then show ?case using Suc by (simp add: put_inodeblock_other)
qed simp

lemma get_put_inodes:
  "\<forall>i<n. inode_wf (bs i) \<Longrightarrow> i < n \<Longrightarrow> same_inode (get_inodeblock (inode_addr a i) (put_inodes n a bs m)) (bs i)"
proof (induction n)
  case (Suc n)
  show ?case
  proof (cases "i = n")
    case True
    then show ?thesis using Suc.prems by (simp add: get_inodeblock_put)
  next
    case False
    then have i: "i < n" using Suc.prems by simp
    then have le: "inode_addr a i + 32804 \<le> inode_addr a n"
      by (simp add: layout_simps add_mult_distrib2 [symmetric] flip: mult_Suc_right)
    have "same_inode (get_inodeblock (inode_addr a i) (put_inodes (Suc n) a bs m))
        (get_inodeblock (inode_addr a i) (put_inodes n a bs m))"
      using le Suc.prems by (intro get_inodeblock_cong) (simp add: put_inodeblock_other)
    moreover have "same_inode (get_inodeblock (inode_addr a i) (put_inodes n a bs m)) (bs i)"
      using Suc i by simp
    ultimately show ?thesis by (rule same_inode_trans)
  qed
qed simp

lemma get_put_fs:
  assumes "fs_wf f"
  shows "same_fs (get_fs a (put_fs a f m) g) f"
proof -
  have w: "super_wf (superb f)" "\<forall>i<32. inode_wf (inodes f i)" using assms by (simp_all add: fs_wf_def)
  have "same_super (get_super a (put_fs a f m)) (get_super a (put_super a (superb f) m))"
    unfolding put_fs_def using w(2) by (intro get_super_cong put_inodes_other) (auto simp: layout_simps)
  then have "same_super (get_super a (put_fs a f m)) (superb f)"
    using get_super_put [OF w(1)] by (rule same_super_trans)
  then show ?thesis using get_put_inodes [OF w(2)]
    by (simp add: same_fs_def get_fs_def put_fs_def)
qed


section \<open>The disk across a restart\<close>

lemma mem_set_eq: "mem_set t e b m = (\<lambda>k. if t \<le> k \<and> k < e then b else m k)"
proof (induction t e b m rule: mem_set.induct)
  case (1 t e b m)
  show ?case
  proof (cases "t < e")
    case True
    have "mem_set t e b m = mem_set (t + 1) e b (m(t := b))"
      using True by (simp only: mem_set.simps [of t e] if_True)
    also have "\<dots> = (\<lambda>k. if t + 1 \<le> k \<and> k < e then b else (m(t := b)) k)"
      by (rule 1 [OF True])
    also have "\<dots> = (\<lambda>k. if t \<le> k \<and> k < e then b else m k)"
      using True by (auto simp: fun_eq_iff)
    finally show ?thesis .
  next
    case False
    then show ?thesis by (auto simp: mem_set.simps [of t e] fun_eq_iff)
  qed
qed

lemma fs_size_sectors: "sectors 2097152 = 4096"
  by (simp add: sectors_def)

lemma write_back_eq:
  "write_back f m disk = Inr (blit FS_OFFSET_IN_DISK fs_addr FS_SIZE (put_fs fs_addr f m) disk)"
  unfolding write_back_def
  by (subst writeBytes_eq) (simp_all add: fs_size_sectors layout_simps)

lemma load_fs_eq:
  "load_fs disk m = Inr (blit fs_addr FS_OFFSET_IN_DISK FS_SIZE disk (mem_set fs_addr (fs_addr + FS_SIZE) 0 m))"
  unfolding load_fs_def
  by (subst readBytes_eq) (simp_all add: fs_size_sectors layout_simps)

lemma write_back_load:
  assumes "fs_wf f"
  shows "\<exists>d m1. write_back f m disk = Inr d \<and> load_fs d m2 = Inr m1 \<and> same_fs (get_fs fs_addr m1 g) f"
proof -
  let ?p = "put_fs fs_addr f m"
  let ?d = "blit FS_OFFSET_IN_DISK fs_addr FS_SIZE ?p disk"
  let ?m1 = "blit fs_addr FS_OFFSET_IN_DISK FS_SIZE ?d (mem_set fs_addr (fs_addr + FS_SIZE) 0 m2)"
  have b: "?m1 (fs_addr + j) = ?p (fs_addr + j)" if "j < FS_SIZE" for j
    using that by simp
  have "same_super (get_super fs_addr ?m1) (get_super fs_addr ?p)"
    using b by (intro get_super_cong) (simp add: layout_simps)
  moreover have "same_inode (get_inodeblock (inode_addr fs_addr i) ?m1) (get_inodeblock (inode_addr fs_addr i) ?p)"
    if "i < 32" for i
  proof (rule get_inodeblock_cong)
    fix j :: nat
    assume "j < 32804"
    then have "60 + 32804 * i + j < FS_SIZE" using that by (simp add: layout_simps)
    from b [OF this] show "?m1 (inode_addr fs_addr i + j) = ?p (inode_addr fs_addr i + j)"
      by (simp add: inode_addr_def SUPERBLOCK_SIZE_B_def sizeof_inodeblock_def add.assoc)
  qed
  moreover have "same_fs (get_fs fs_addr ?p g) f" by (rule get_put_fs [OF assms])
  ultimately have "same_fs (get_fs fs_addr ?m1 g) f"
    unfolding same_fs_def get_fs_def
    by (auto intro: same_super_trans same_inode_trans)
  then show ?thesis by (simp add: write_back_eq load_fs_eq)
qed

lemma write_back_frame:
  "write_back f m disk = Inr d \<Longrightarrow> k < FS_OFFSET_IN_DISK \<or> FS_OFFSET_IN_DISK + FS_SIZE \<le> k \<Longrightarrow> d k = disk k"
  by (auto simp: write_back_eq)

end
