(* ===== verification/Screen.thy ===== *)
theory Screen
  imports Prelude
begin

unbundle bit_operations_syntax

text \<open>
  The text screen, kernel/kernel/screen.c: the cell array \<open>vm_addr\<close>, the cursor and the two
  cursor registers of the CRT controller behind the ports 0x3D4 (index) and 0x3D5 (data).
  The lemmas see the screen as one line of cells in which the cursor stands at
  \<open>80 * cursor_y + cursor_x\<close>.
\<close>

record screen =
  vram :: "nat \<Rightarrow> u16"
  cursor_x :: u16
  cursor_y :: u16
  crtc_index :: u8
  crtc_reg :: "u8 \<Rightarrow> u8"

abbreviation black :: u8 where "black \<equiv> 0"
abbreviation white :: u8 where "white \<equiv> 15"

text \<open>\<open>outByte\<close> on the two ports of the CRT controller.\<close>

definition crtc_out :: "u16 \<Rightarrow> u8 \<Rightarrow> screen \<Rightarrow> screen" where
  "crtc_out port data s =
     (if port = 0x3D4 then s\<lparr>crtc_index := data\<rparr>
      else if port = 0x3D5 then s\<lparr>crtc_reg := (crtc_reg s)(crtc_index s := data)\<rparr>
      else s)"

definition move_cursor :: "screen \<Rightarrow> screen" where
  "move_cursor s =
     (let cursorLocation = cursor_y s * 80 + cursor_x s;
          s = crtc_out 0x3D4 14 s;
          s = crtc_out 0x3D5 (ucast (drop_bit 8 cursorLocation)) s;
          s = crtc_out 0x3D4 15 s
      in crtc_out 0x3D5 (ucast cursorLocation) s)"

definition ColorAttr :: "u8 \<Rightarrow> u8 \<Rightarrow> u8" where
  "ColorAttr foreColour backColour = push_bit 4 backColour OR (foreColour AND 0x0F)"

text \<open>
  The tests on \<open>ch\<close>, a signed \<open>char\<close>, in the code's order; then the wrap at the end of a line.
\<close>

definition screen_char :: "screen \<Rightarrow> u8 \<Rightarrow> u16 \<Rightarrow> screen" where
  "screen_char s ch attribute =
     (if ch = 0x08 \<and> cursor_x s \<noteq> 0 then s\<lparr>cursor_x := cursor_x s - 1\<rparr>
      else if ch = 0x09 then s\<lparr>cursor_x := (cursor_x s + 8) AND NOT 7\<rparr>
      else if ch = 13 then s\<lparr>cursor_x := 0\<rparr>
      else if ch = 10 then s\<lparr>cursor_x := 0, cursor_y := cursor_y s + 1\<rparr>
      else if sint ch \<ge> 32
      then s\<lparr>vram := (vram s)(unat (cursor_y s) * 80 + unat (cursor_x s) := ucast ch OR attribute),
             cursor_x := cursor_x s + 1\<rparr>
      else s)"

definition screen_put :: "screen \<Rightarrow> u8 \<Rightarrow> u8 \<Rightarrow> u8 \<Rightarrow> screen" where
  "screen_put s ch foreColour backColour =
     (let colorByte = ColorAttr foreColour backColour;
          attribute = push_bit 8 (ucast colorByte);
          s = screen_char s ch attribute;
          s = (if cursor_x s \<ge> 80 then s\<lparr>cursor_x := 0, cursor_y := cursor_y s + 1\<rparr> else s)
      in move_cursor s)"

definition screen_clear :: "screen \<Rightarrow> screen" where
  "screen_clear s =
     (let colorByte = ColorAttr white black;
          blank = (0x20 OR push_bit 8 (ucast colorByte)) :: u16;
          s = s\<lparr>vram := fold (\<lambda>i v. v(i := blank)) [0..<80 * 25] (vram s)\<rparr>;
          s = s\<lparr>cursor_x := 0, cursor_y := 0\<rparr>
      in move_cursor s)"


section \<open>Facts\<close>

lemma move_cursor_simps [simp]:
  "vram (move_cursor s) = vram s" "cursor_x (move_cursor s) = cursor_x s"
  "cursor_y (move_cursor s) = cursor_y s"
  by (simp_all add: move_cursor_def crtc_out_def Let_def)

text \<open>The hardware cursor: high byte in register 14, low byte in register 15.\<close>

definition crtc_cursor :: "screen \<Rightarrow> u16" where
  "crtc_cursor s = push_bit 8 (ucast (crtc_reg s 14)) OR ucast (crtc_reg s 15)"

lemma u16_bytes: "push_bit 8 (ucast (ucast (drop_bit 8 w :: u16) :: u8)) OR ucast (ucast w :: u8) = (w :: u16)"
proof (rule bit_word_eqI)
  fix n assume "n < LENGTH(16)"
  then show "bit (push_bit 8 (ucast (ucast (drop_bit 8 w) :: u8)) OR ucast (ucast w :: u8) :: u16) n = bit w n"
    by (cases "n < 8") (auto simp: bit_simps)
qed

lemma crtc_cursor_move: "crtc_cursor (move_cursor s) = cursor_y s * 80 + cursor_x s"
proof -
  have "crtc_reg (move_cursor s) 14 = ucast (drop_bit 8 (cursor_y s * 80 + cursor_x s))"
    and "crtc_reg (move_cursor s) 15 = ucast (cursor_y s * 80 + cursor_x s)"
    by (simp_all add: move_cursor_def crtc_out_def Let_def)
  then show ?thesis by (simp only: crtc_cursor_def u16_bytes)
qed

lemma screen_put_crtc:
  "crtc_cursor (screen_put s ch f b) = cursor_y (screen_put s ch f b) * 80 + cursor_x (screen_put s ch f b)"
  by (simp add: screen_put_def Let_def crtc_cursor_move)

text \<open>The column stays below 80.\<close>

lemma screen_put_column: "cursor_x (screen_put s ch f b) < 80"
  by (simp add: screen_put_def Let_def not_le)

lemma screen_clear_cell: "vram (screen_clear s) i = (if i < 2000 then 0x0F20 else vram s i)"
proof -
  have "fold (\<lambda>i v. v(i := c)) [0..<n] v i = (if i < n then c else v i)" for n :: nat and c :: u16 and v
    by (induction n) auto
  then show ?thesis by (simp add: screen_clear_def Let_def ColorAttr_def)
qed

lemma screen_clear_cursor: "cursor_x (screen_clear s) = 0 \<and> cursor_y (screen_clear s) = 0
    \<and> crtc_cursor (screen_clear s) = 0"
  by (simp add: screen_clear_def Let_def crtc_cursor_move)


section \<open>Printing text\<close>

definition printable :: "u8 \<Rightarrow> bool" where
  "printable c \<longleftrightarrow> 32 \<le> sint c"

definition cursor_pos :: "screen \<Rightarrow> nat" where
  "cursor_pos s = 80 * unat (cursor_y s) + unat (cursor_x s)"

text \<open>The cell of a character in white on black.\<close>

definition cell_of :: "u8 \<Rightarrow> u16" where
  "cell_of c = ucast c OR 0x0F00"

lemma not_printable_control [simp]: "\<not> printable 8" "\<not> printable 9" "\<not> printable 10" "\<not> printable 13"
  by (simp_all add: printable_def)

lemma screen_put_printable:
  assumes p: "printable c" and x: "cursor_x s < 80" and room: "Suc (cursor_pos s) < 80 * 65536"
  shows "vram (screen_put s c white black) = (vram s)(cursor_pos s := cell_of c)
    \<and> cursor_pos (screen_put s c white black) = Suc (cursor_pos s)"
proof -
  have nc: "c \<noteq> 8" "c \<noteq> 9" "c \<noteq> 13" "c \<noteq> 10" using p by auto
  have x': "unat (cursor_x s) < 80" using x by (simp add: word_less_nat_alt)
  have ux: "unat (cursor_x s + 1) = unat (cursor_x s) + 1"
    using x' by (simp add: unat_word_ariths)
  have ch: "screen_char s c 0x0F00 = s\<lparr>vram := (vram s)(cursor_pos s := cell_of c), cursor_x := cursor_x s + 1\<rparr>"
    using nc p by (simp add: screen_char_def printable_def cursor_pos_def cell_of_def mult.commute)
  have at: "push_bit 8 (ucast (ColorAttr white black)) = (0x0F00 :: u16)"
    by (simp add: ColorAttr_def)
  show ?thesis
  proof (cases "unat (cursor_x s) = 79")
    case True
    then have ge: "80 \<le> cursor_x s + 1" using ux by (simp add: word_le_nat_alt)
    have "unat (cursor_y s) + 1 < 65536" using room True by (simp add: cursor_pos_def)
    then have "unat (cursor_y s + 1) = unat (cursor_y s) + 1" by (simp add: unat_word_ariths)
    then show ?thesis using ge True by (simp add: screen_put_def Let_def at ch cursor_pos_def)
  next
    case False
    then have "\<not> 80 \<le> cursor_x s + 1" using ux x' by (simp add: word_le_nat_alt)
    then show ?thesis using ux by (simp add: screen_put_def Let_def at ch cursor_pos_def)
  qed
qed

end
