(* ===== verification/Kdata.thy ===== *)
theory Kdata
  imports Plist Fsimage Screen
begin

text \<open>
  The data of the kernel, kernel/include/x86/memory.h and x86.h: trap frames, process
  control blocks, open files, the global variables, and access to the memory of the user
  programs. A semaphore is not a kernel object: it is a \<open>struct semaphore\<close> in user memory,
  so it is read from and written to the bytes of that memory.
\<close>

section \<open>Structures\<close>

datatype p_state = RUNNABLE | RUNNING | BLOCKED | SEM_BLOCKED | DEAD

text \<open>\<open>struct TrapFrame\<close>: what asmDoIrq pushes, and pops when the process goes on.\<close>

record trapframe =
  tf_gs :: u32  tf_fs :: u32  tf_es :: u32  tf_ds :: u32
  tf_edi :: u32  tf_esi :: u32  tf_ebp :: u32  tf_xxx :: u32
  tf_ebx :: u32  tf_edx :: u32  tf_ecx :: u32  tf_eax :: u32
  tf_irq :: int
  tf_error :: u32
  tf_eip :: u32  tf_cs :: u32  tf_eflags :: u32  tf_esp :: u32  tf_ss :: u32

text \<open>
  \<open>struct ProcessControlBlock\<close>. The kernel stack is not modelled; \<open>next\<close> is the map \<open>nxt\<close> of
  the kernel state. \<open>psem\<close> is an address in user memory, 0 for NULL.
\<close>

record pcb =
  tf :: trapframe
  pstate :: p_state
  timeCount :: int
  sleepTime :: int
  pid :: int
  ppid :: int
  fp_num :: int
  filepointer :: "int list"
  psem :: u32

record sysFile =
  inode_index :: int
  link_num :: int
  offset :: int

abbreviation (input) MAX_PCB_NUM :: nat where "MAX_PCB_NUM \<equiv> 10"
abbreviation (input) MAX_STACK_SIZE :: nat where "MAX_STACK_SIZE \<equiv> 4096"
abbreviation (input) MAX_FP_NUM :: nat where "MAX_FP_NUM \<equiv> 8"
abbreviation (input) MAX_SYS_FILE_NUM :: nat where "MAX_SYS_FILE_NUM \<equiv> 512"
abbreviation (input) max_size :: nat where "max_size \<equiv> 1024"
abbreviation (input) stdin :: int where "stdin \<equiv> 0"
abbreviation (input) stdout :: int where "stdout \<equiv> 1"
abbreviation Child_Data_Offst :: u32 where "Child_Data_Offst \<equiv> 0x200000"

text \<open>\<open>sizeof(uint32_t[MAX_STACK_SIZE])\<close>, the offset of \<open>tf\<close> in a PCB, and \<open>sizeof(struct TrapFrame)\<close>.\<close>

abbreviation tf_offset :: u32 where "tf_offset \<equiv> 16384"
abbreviation sizeof_TrapFrame :: u32 where "sizeof_TrapFrame \<equiv> 76"

text \<open>\<open>runnable_list\<close>, \<open>blocked_list\<close> and \<open>free_list\<close> are assigned once, by \<open>initPcb\<close>.\<close>

abbreviation runnable_list :: pcbref where "runnable_list \<equiv> Dummy1"
abbreviation blocked_list :: pcbref where "blocked_list \<equiv> Dummy2"
abbreviation free_list :: pcbref where "free_list \<equiv> Dummy3"


section \<open>The state of the kernel\<close>

text \<open>
  The globals of memory.h, x86.h and fs.h. \<open>mem\<close> is physical memory outside the kernel's own
  objects (the file system at \<open>fs_addr\<close> is the field \<open>fs\<close>), \<open>disk\<close> the bytes of the disk,
  \<open>serial\<close> what went to the serial port. \<open>kaddr\<close> holds the addresses the linker gives the PCBs; nothing writes it.
\<close>

record kernel =
  nxt :: links
  pcbs :: "pcbref \<Rightarrow> pcb"
  current :: pcbref
  p_num :: int
  sysFileTable :: "sysFile list"
  sys_file_num :: int
  fs :: filesys
  disk :: "nat \<Rightarrow> u8"
  mem :: "nat \<Rightarrow> u8"
  scr :: screen
  serial :: "u8 list"
  BUF :: "u8 list"
  buf_in :: int
  buf_out :: int
  intr_nesting :: bool
  tss_esp0 :: u32
  currentstacktop :: u32
  kaddr :: "pcbref \<Rightarrow> u32"

abbreviation cur :: "kernel \<Rightarrow> pcb" where "cur k \<equiv> pcbs k (current k)"

text \<open>Assignments to the fields of a PCB.\<close>

definition upd_pcb :: "pcbref \<Rightarrow> (pcb \<Rightarrow> pcb) \<Rightarrow> kernel \<Rightarrow> kernel" where
  "upd_pcb p f k = k\<lparr>pcbs := (pcbs k)(p := f (pcbs k p))\<rparr>"

definition set_state :: "pcbref \<Rightarrow> p_state \<Rightarrow> kernel \<Rightarrow> kernel" where
  "set_state p s = upd_pcb p (\<lambda>b. b\<lparr>pstate := s\<rparr>)"

text \<open>\<open>current->tf.eax = v\<close>, the value a system call returns.\<close>

definition set_eax :: "u32 \<Rightarrow> kernel \<Rightarrow> kernel" where
  "set_eax v k = upd_pcb (current k) (\<lambda>b. b\<lparr>tf := (tf b)\<lparr>tf_eax := v\<rparr>\<rparr>) k"

lemma upd_pcb_simps [simp]:
  "nxt (upd_pcb p f k) = nxt k" "current (upd_pcb p f k) = current k" "p_num (upd_pcb p f k) = p_num k"
  "sysFileTable (upd_pcb p f k) = sysFileTable k" "sys_file_num (upd_pcb p f k) = sys_file_num k"
  "fs (upd_pcb p f k) = fs k" "disk (upd_pcb p f k) = disk k" "mem (upd_pcb p f k) = mem k"
  "scr (upd_pcb p f k) = scr k" "serial (upd_pcb p f k) = serial k" "BUF (upd_pcb p f k) = BUF k"
  "buf_in (upd_pcb p f k) = buf_in k" "buf_out (upd_pcb p f k) = buf_out k"
  "intr_nesting (upd_pcb p f k) = intr_nesting k" "tss_esp0 (upd_pcb p f k) = tss_esp0 k"
  "currentstacktop (upd_pcb p f k) = currentstacktop k" "kaddr (upd_pcb p f k) = kaddr k"
  "pcbs (upd_pcb p f k) = (pcbs k)(p := f (pcbs k p))"
  by (simp_all add: upd_pcb_def)

text \<open>The list operations on the kernel state.\<close>

definition add_to :: "pcbref \<Rightarrow> pcbref \<Rightarrow> kernel \<Rightarrow> kernel exec" where
  "add_to h p k = bind_r (list_add (nxt k) h p) (\<lambda>n. Inr (k\<lparr>nxt := n\<rparr>))"

definition delete_from :: "pcbref \<Rightarrow> pcbref \<Rightarrow> kernel \<Rightarrow> kernel exec" where
  "delete_from h p k = bind_r (list_delete (nxt k) h p) (\<lambda>n. Inr (k\<lparr>nxt := n\<rparr>))"


section \<open>User memory\<close>

text \<open>
  The boot sector, the kernel image (linked at 0x100000) and video memory lie below 0x200000,
  the file system lies at 0x1000000; the programs are loaded between them. A pointer a
  program passes is followed only there: beyond it the access would read or overwrite
  objects the model keeps apart.
\<close>

definition user_area :: "nat \<Rightarrow> nat \<Rightarrow> bool" where
  "user_area a n \<longleftrightarrow> 0x200000 \<le> a \<and> a + n \<le> 0x1000000"

text \<open>A C string of a program, up to its terminator or to the end of the area.\<close>

function user_string :: "(nat \<Rightarrow> u8) \<Rightarrow> nat \<Rightarrow> u8 list" where
  "user_string m a = (if a < 0x1000000 then (if m a = 0 then [0] else m a # user_string m (a + 1)) else [])"
  by pat_completeness auto
termination by (relation "measure (\<lambda>(m, a). 0x1000000 - a)") auto

declare user_string.simps [simp del]

text \<open>\<open>path\<close> of the system calls: the string at the address in a register.\<close>

definition path_at :: "kernel \<Rightarrow> u32 \<Rightarrow> u8 list" where
  "path_at k a = (if 0x200000 \<le> unat a then user_string (mem k) (unat a) else [])"

lemma user_string_get:
  "m (a + length s) = 0 \<Longrightarrow> get_bytes m a (length s) = s \<Longrightarrow> 0 \<notin> set s \<Longrightarrow> a + length s < 0x1000000 \<Longrightarrow>
    user_string m a = s @ [0]"
proof (induction s arbitrary: a)
  case Nil
  then show ?case by (simp add: user_string.simps [of m a])
next
  case (Cons c s)
  have g: "get_bytes m a (length (c # s)) = m a # get_bytes m (a + 1) (length s)"
    by (rule nth_equalityI) (auto simp: nth_Cons split: nat.splits)
  then have "m a = c" "get_bytes m (a + 1) (length s) = s" using Cons.prems(2) by simp_all
  moreover from this have "user_string m (a + 1) = s @ [0]"
    using Cons.prems by (intro Cons.IH) simp_all
  ultimately show ?case using Cons.prems by (simp add: user_string.simps [of m a])
qed


section \<open>Semaphores in user memory\<close>

text \<open>\<open>struct semaphore { int value; PCB *list; }\<close>\<close>

definition all_refs :: "pcbref list" where
  "all_refs = [Dummy1, Dummy2, Dummy3, DummySem, IdlePcb] @ map Pcb [0..<10]"

definition ref_at :: "kernel \<Rightarrow> u32 \<Rightarrow> pcbref exec" where
  "ref_at k a = (case find (\<lambda>p. kaddr k p = a) all_refs of None \<Rightarrow> Inl OutOfBounds | Some p \<Rightarrow> Inr p)"

definition sem_value :: "kernel \<Rightarrow> u32 \<Rightarrow> int" where
  "sem_value k s = sint (get32 (mem k) (unat s))"

definition sem_list :: "kernel \<Rightarrow> u32 \<Rightarrow> pcbref exec" where
  "sem_list k s = ref_at k (get32 (mem k) (unat s + 4))"

definition set_sem_value :: "u32 \<Rightarrow> int \<Rightarrow> kernel \<Rightarrow> kernel" where
  "set_sem_value s v k = k\<lparr>mem := put32 (mem k) (unat s) (word_of_int v)\<rparr>"

definition set_sem_list :: "u32 \<Rightarrow> pcbref \<Rightarrow> kernel \<Rightarrow> kernel" where
  "set_sem_list s p k = k\<lparr>mem := put32 (mem k) (unat s + 4) (kaddr k p)\<rparr>"

text \<open>\<open>sizeof(sem_t)\<close> bytes at \<open>s\<close> are user memory.\<close>

definition sem_at :: "u32 \<Rightarrow> bool" where
  "sem_at s \<longleftrightarrow> user_area (unat s) 8"

text \<open>Distinct objects have distinct addresses.\<close>

definition linked :: "kernel \<Rightarrow> bool" where
  "linked k \<longleftrightarrow> distinct (map (kaddr k) all_refs)"

lemma find_kaddr: "distinct (map f xs) \<Longrightarrow> p \<in> set xs \<Longrightarrow> find (\<lambda>q. f q = f p) xs = Some p"
  by (induction xs) (auto simp: image_iff)

lemma ref_at_kaddr: "linked k \<Longrightarrow> p \<in> set all_refs \<Longrightarrow> ref_at k (kaddr k p) = Inr p"
  by (simp add: ref_at_def linked_def find_kaddr)

lemma sem_value_set [simp]: "sem_value (set_sem_value s v k) s = wrap32 v"
  by (simp add: sem_value_def set_sem_value_def sint_word_of_int32)

lemma sem_list_set_value [simp]: "sem_list (set_sem_value s v k) s = sem_list k s"
  by (simp add: sem_list_def set_sem_value_def ref_at_def)

lemma sem_value_set_list [simp]: "sem_value (set_sem_list s p k) s = sem_value k s"
  by (simp add: sem_value_def set_sem_list_def)

lemma sem_list_set_list: "linked k \<Longrightarrow> p \<in> set all_refs \<Longrightarrow> sem_list (set_sem_list s p k) s = Inr p"
  using ref_at_kaddr [of k p] by (simp add: sem_list_def set_sem_list_def ref_at_def)

lemma sem_value_range: "-2147483648 \<le> sem_value k s \<and> sem_value k s < 2147483648"
  using sint_ge [of "get32 (mem k) (unat s)"] sint_lt [of "get32 (mem k) (unat s)"]
  by (simp add: sem_value_def)

end
