(* ===== verification/Format.thy ===== *)
theory Format
  imports Cstring Screen
begin

text \<open>
  Formatted output, kernel/kernel/lib.c. The file has the same printing functions twice:
  \<open>printk\<close> and its helpers send to the serial port, \<open>printQ\<close> and its helpers to the screen;
  both copies are modelled as written. The words that follow the format on the stack are a
  list of \<open>va_arg\<close>. What the copies have in common is proved once, in theory Printing.
\<close>

section \<open>The serial copy\<close>

text \<open>
  \<open>putChar\<close> (serial.c) waits until the port is idle and writes the byte; the state is the
  sequence of bytes sent.
\<close>

definition putChar :: "u8 \<Rightarrow> u8 list \<Rightarrow> u8 list exec" where
  "putChar ch out = Inr (out @ [ch])"

definition print_ch :: "u8 \<Rightarrow> u8 list \<Rightarrow> u8 list exec" where
  "print_ch arg out = putChar arg out"

fun print_string :: "u8 list \<Rightarrow> u8 list \<Rightarrow> u8 list exec" where
  "print_string [] out = Inl OutOfBounds"
| "print_string (c # arg) out =
     (if c \<noteq> 0 then bind_r (print_ch c out) (print_string arg) else Inr out)"

text \<open>The literal of the smallest \<open>int\<close>, whose negation does not fit.\<close>

definition min_int_text :: "u8 list" where
  "min_int_text = c_lit ''-2147483648''"

lemma print_dec_less:
  assumes "sint (arg :: u32) \<noteq> -2147483648" and "\<bar>sint arg\<bar> div 10 \<noteq> 0"
  shows "sint arg \<noteq> 0 \<and> \<bar>sint (word_of_int (\<bar>sint arg\<bar> div 10) :: u32)\<bar> < \<bar>sint arg\<bar>"
proof -
  have "-2147483648 \<le> sint arg" "sint arg < 2147483648"
    using sint_ge [of arg] sint_lt [of arg] by simp_all
  with assms have "0 < \<bar>sint arg\<bar> div 10" "\<bar>sint arg\<bar> div 10 < \<bar>sint arg\<bar>" "\<bar>sint arg\<bar> < 2147483648"
    by arith+
  then show ?thesis by (auto simp: sint_word_of_int32)
qed

lemma print_hex_less:
  assumes "0 < unat (arg :: u32) div 16"
  shows "unat (word_of_nat (unat arg div 16) :: u32) < unat arg"
proof -
  have "unat arg div 16 < unat arg" using assms by (intro div_less_dividend) auto
  moreover have "unat arg < 4294967296" using unsigned_less [of arg] by simp
  ultimately show ?thesis using unat_u32 [of "unat arg div 16"] by simp
qed

function print_dec :: "u32 \<Rightarrow> u8 list \<Rightarrow> u8 list exec" where
  "print_dec arg out =
     (let integer = sint arg
      in if integer = -2147483648 then print_string min_int_text out
         else bind_r (if integer < 0 then print_ch 45 out else Inr out) (\<lambda>out.
                let integer = \<bar>integer\<bar>
                in bind_r (if integer div 10 \<noteq> 0 then print_dec (word_of_int (integer div 10)) out
                           else Inr out) (\<lambda>out.
                     print_ch (word_of_int (48 + integer mod 10)) out)))"
  by pat_completeness auto
termination
  by (relation "measure (\<lambda>(arg, out). nat \<bar>sint arg\<bar>)") (simp_all add: print_dec_less)

function print_hex :: "u32 \<Rightarrow> u8 list \<Rightarrow> u8 list exec" where
  "print_hex arg out =
     (let integer = unat arg
      in bind_r (if integer div 16 \<noteq> 0 then print_hex (word_of_nat (integer div 16)) out else Inr out)
           (\<lambda>out. if integer mod 16 < 10 then print_ch (word_of_nat (48 + integer mod 16)) out
                  else print_ch (word_of_nat (97 + integer mod 16 - 10)) out))"
  by pat_completeness auto
termination
  by (relation "measure (\<lambda>(arg, out). unat arg)") (auto dest: print_hex_less simp del: of_nat_unat)


text \<open>The words on the stack after the format: a number, or a pointer to a string.\<close>

datatype va_arg = Word u32 | Str "u8 list"

text \<open>\<open>while(*format == ' ')format++;\<close>\<close>

fun skip_spaces :: "u8 list \<Rightarrow> u8 list" where
  "skip_spaces [] = []"
| "skip_spaces (c # f) = (if c = 32 then skip_spaces f else c # f)"

lemma length_skip_spaces: "length (skip_spaces f) \<le> length f"
  by (induction f) auto

lemma skip_spaces_shorter: "skip_spaces f = d # g \<Longrightarrow> length g < length f"
  using length_skip_spaces [of f] by simp

text \<open>The \<open>switch(*format)\<close>: \<open>c d X x s %\<close>, each with its pop of \<open>stack_point\<close>.\<close>

fun print_arg :: "u8 \<Rightarrow> va_arg list \<Rightarrow> u8 list \<Rightarrow> (va_arg list \<times> u8 list) exec" where
  "print_arg d args out =
     (if d = 99 \<or> d = 100 \<or> d = 88 \<or> d = 120
      then (case args of
              Word w # rest \<Rightarrow>
                bind_r (if d = 99 then print_ch (ucast w) out
                        else if d = 100 then print_dec w out else print_hex w out)
                  (\<lambda>out. Inr (rest, out))
            | _ \<Rightarrow> Inl OutOfBounds)
      else if d = 115
      then (case args of
              Str s # rest \<Rightarrow> bind_r (print_string s out) (\<lambda>out. Inr (rest, out))
            | _ \<Rightarrow> Inl OutOfBounds)
      else if d = 37 then bind_r (print_ch 37 out) (\<lambda>out. Inr (args, out))
      else Inr (args, out))"

function printk :: "u8 list \<Rightarrow> va_arg list \<Rightarrow> u8 list \<Rightarrow> u8 list exec" where
  "printk [] args out = Inl OutOfBounds"
| "printk (c # format) args out =
     (if c = 0 then Inr out
      else if c = 37
      then (case skip_spaces format of
              [] \<Rightarrow> Inl OutOfBounds
            | d # format' \<Rightarrow>
                bind_r (print_arg d args out) (\<lambda>(args, out). printk format' args out))
      else bind_r (print_ch c out) (printk format args))"
  by pat_completeness auto
termination
  by (relation "measure (\<lambda>(format, args, out). length format)")
    (auto dest: skip_spaces_shorter)


section \<open>The screen copy\<close>

definition print_ch_Q :: "u8 \<Rightarrow> screen \<Rightarrow> screen exec" where
  "print_ch_Q arg scr = Inr (screen_put scr arg white black)"

fun print_string_Q :: "u8 list \<Rightarrow> screen \<Rightarrow> screen exec" where
  "print_string_Q [] scr = Inl OutOfBounds"
| "print_string_Q (c # arg) scr =
     (if c \<noteq> 0 then bind_r (print_ch_Q c scr) (print_string_Q arg) else Inr scr)"

function print_dec_Q :: "u32 \<Rightarrow> screen \<Rightarrow> screen exec" where
  "print_dec_Q arg scr =
     (let integer = sint arg
      in if integer = -2147483648 then print_string_Q min_int_text scr
         else bind_r (if integer < 0 then print_ch_Q 45 scr else Inr scr) (\<lambda>scr.
                let integer = \<bar>integer\<bar>
                in bind_r (if integer div 10 \<noteq> 0 then print_dec_Q (word_of_int (integer div 10)) scr
                           else Inr scr) (\<lambda>scr.
                     print_ch_Q (word_of_int (48 + integer mod 10)) scr)))"
  by pat_completeness auto
termination
  by (relation "measure (\<lambda>(arg, scr). nat \<bar>sint arg\<bar>)") (auto simp: print_dec_less)

function print_hex_Q :: "u32 \<Rightarrow> screen \<Rightarrow> screen exec" where
  "print_hex_Q arg scr =
     (let integer = unat arg
      in bind_r (if integer div 16 \<noteq> 0 then print_hex_Q (word_of_nat (integer div 16)) scr else Inr scr)
           (\<lambda>scr. if integer mod 16 < 10 then print_ch_Q (word_of_nat (48 + integer mod 16)) scr
                  else print_ch_Q (word_of_nat (97 + integer mod 16 - 10)) scr))"
  by pat_completeness auto
termination
  by (relation "measure (\<lambda>(arg, scr). unat arg)") (auto dest: print_hex_less simp del: of_nat_unat)

fun print_arg_Q :: "u8 \<Rightarrow> va_arg list \<Rightarrow> screen \<Rightarrow> (va_arg list \<times> screen) exec" where
  "print_arg_Q d args scr =
     (if d = 99 \<or> d = 100 \<or> d = 88 \<or> d = 120
      then (case args of
              Word w # rest \<Rightarrow>
                bind_r (if d = 99 then print_ch_Q (ucast w) scr
                        else if d = 100 then print_dec_Q w scr else print_hex_Q w scr)
                  (\<lambda>scr. Inr (rest, scr))
            | _ \<Rightarrow> Inl OutOfBounds)
      else if d = 115
      then (case args of
              Str s # rest \<Rightarrow> bind_r (print_string_Q s scr) (\<lambda>scr. Inr (rest, scr))
            | _ \<Rightarrow> Inl OutOfBounds)
      else if d = 37 then bind_r (print_ch_Q 37 scr) (\<lambda>scr. Inr (args, scr))
      else Inr (args, scr))"

function printQ :: "u8 list \<Rightarrow> va_arg list \<Rightarrow> screen \<Rightarrow> screen exec" where
  "printQ [] args scr = Inl OutOfBounds"
| "printQ (c # format) args scr =
     (if c = 0 then Inr scr
      else if c = 37
      then (case skip_spaces format of
              [] \<Rightarrow> Inl OutOfBounds
            | d # format' \<Rightarrow>
                bind_r (print_arg_Q d args scr) (\<lambda>(args, scr). printQ format' args scr))
      else bind_r (print_ch_Q c scr) (printQ format args))"
  by pat_completeness auto
termination
  by (relation "measure (\<lambda>(format, args, scr). length format)")
    (auto dest: skip_spaces_shorter)

declare print_dec.simps [simp del] print_hex.simps [simp del]
  print_dec_Q.simps [simp del] print_hex_Q.simps [simp del]
  print_arg.simps [simp del] print_arg_Q.simps [simp del]

end
