(* ===== verification/Printing.thy ===== *)
theory Printing
  imports Format
begin

text \<open>
  What the printing functions of lib.c emit. The locale \<open>printer\<close> states, for an output
  device that takes a byte, the equations that a string, a decimal and a hexadecimal
  printing function satisfy; \<open>formatter\<close> adds those of the format interpreter. Both are
  interpreted twice, on the serial functions and on their copies for the screen, so the
  text of a format is the same on both devices.
\<close>

section \<open>The text of a number\<close>

fun dec_digits :: "nat \<Rightarrow> u8 list" where
  "dec_digits n = (if n < 10 then [word_of_nat (48 + n)]
     else dec_digits (n div 10) @ [word_of_nat (48 + n mod 10)])"

definition dec_text :: "int \<Rightarrow> u8 list" where
  "dec_text x = (if x < 0 then 45 # dec_digits (nat (- x)) else dec_digits (nat x))"

definition hex_digit :: "nat \<Rightarrow> u8" where
  "hex_digit n = (if n < 10 then word_of_nat (48 + n) else word_of_nat (87 + n))"

fun hex_digits :: "nat \<Rightarrow> u8 list" where
  "hex_digits n = (if n < 16 then [hex_digit n] else hex_digits (n div 16) @ [hex_digit (n mod 16)])"

declare dec_digits.simps [simp del] hex_digits.simps [simp del]

text \<open>Reading the digits back.\<close>

definition digits_value :: "u8 list \<Rightarrow> nat" where
  "digits_value = foldl (\<lambda>v c. 10 * v + (unat c - 48)) 0"

definition text_value :: "u8 list \<Rightarrow> int" where
  "text_value s = (case s of [] \<Rightarrow> 0
     | c # r \<Rightarrow> if c = 45 then - int (digits_value r) else int (digits_value s))"

definition is_digit :: "u8 \<Rightarrow> bool" where
  "is_digit c \<longleftrightarrow> 48 \<le> c \<and> c < 58"

lemma unat_dec_digit: "n < 10 \<Longrightarrow> unat (word_of_nat (48 + n) :: u8) = 48 + n"
  by (simp add: unat_of_nat del: of_nat_add)

lemma is_digit_dec: "n < 10 \<Longrightarrow> is_digit (word_of_nat (48 + n))"
  using unat_dec_digit [of n] by (simp add: is_digit_def word_le_nat_alt word_less_nat_alt del: of_nat_add)

lemma dec_digits_value: "digits_value (dec_digits n) = n"
proof (induction n rule: dec_digits.induct)
  case (1 n)
  show ?case
  proof (cases "n < 10")
    case True
    then show ?thesis
      by (simp add: dec_digits.simps [of n] digits_value_def unat_dec_digit del: of_nat_add)
  next
    case False
    with 1 have "digits_value (dec_digits (n div 10)) = n div 10" by simp
    then show ?thesis using False
      by (simp add: dec_digits.simps [of n] digits_value_def unat_dec_digit del: of_nat_add)
  qed
qed

lemma dec_digits_are_digits: "\<forall>c\<in>set (dec_digits n). is_digit c"
proof (induction n rule: dec_digits.induct)
  case (1 n)
  then show ?case
    by (cases "n < 10") (auto simp: dec_digits.simps [of n] is_digit_dec simp del: of_nat_add)
qed

lemma dec_digits_nonempty: "dec_digits n \<noteq> []"
  by (simp add: dec_digits.simps [of n])

lemma hd_dec_digits: "hd (dec_digits n) \<noteq> 45"
proof -
  have "is_digit (hd (dec_digits n))"
    using dec_digits_are_digits dec_digits_nonempty hd_in_set by blast
  then show ?thesis by (auto simp: is_digit_def)
qed

lemma dec_text_value: "text_value (dec_text x) = x"
proof (cases "x < 0")
  case True
  then show ?thesis by (simp add: text_value_def dec_text_def dec_digits_value)
next
  case False
  then show ?thesis
    using hd_dec_digits [of "nat x"] dec_digits_nonempty [of "nat x"] dec_digits_value [of "nat x"]
    by (cases "dec_digits (nat x)") (simp_all add: text_value_def dec_text_def)
qed

lemma dec_text_inj: "dec_text x = dec_text y \<longleftrightarrow> x = y"
  by (metis dec_text_value)


section \<open>The printing functions\<close>

text \<open>Sending a run of bytes to the device.\<close>

primrec emit :: "(u8 \<Rightarrow> 's \<Rightarrow> 's exec) \<Rightarrow> u8 list \<Rightarrow> 's \<Rightarrow> 's exec" where
  "emit put [] s = Inr s"
| "emit put (c # cs) s = bind_r (put c s) (emit put cs)"

lemma emit_append [exec_simps]: "emit put (a @ b) s = bind_r (emit put a s) (emit put b)"
  by (induction a arbitrary: s) (simp_all add: bind_r_assoc cong: bind_r_cong)

lemma emit_Nil_fun [simp]: "emit put [] = Inr"
  by (rule ext) simp

lemma bind_r_Inr_id [simp]: "bind_r m Inr = m"
  by (cases m) auto

lemma emit_single_fun [simp]: "emit put [c] = put c"
  by (rule ext) simp

text \<open>The part of \<open>print_dec\<close> after the sign: the higher digits, then the last one.\<close>

definition dec_body :: "(u8 \<Rightarrow> 's \<Rightarrow> 's exec) \<Rightarrow> (u32 \<Rightarrow> 's \<Rightarrow> 's exec) \<Rightarrow> int \<Rightarrow> 's \<Rightarrow> 's exec" where
  "dec_body put pdec x s =
     bind_r (if x div 10 \<noteq> 0 then pdec (word_of_int (x div 10)) s else Inr s)
       (put (word_of_int (48 + x mod 10)))"

locale printer =
  fixes put :: "u8 \<Rightarrow> 's \<Rightarrow> 's exec"
    and pstr :: "u8 list \<Rightarrow> 's \<Rightarrow> 's exec"
    and pdec :: "u32 \<Rightarrow> 's \<Rightarrow> 's exec"
    and phex :: "u32 \<Rightarrow> 's \<Rightarrow> 's exec"
  assumes pstr_Nil: "pstr [] s = Inl OutOfBounds"
    and pstr_Cons: "pstr (c # t) s = (if c \<noteq> 0 then bind_r (put c s) (pstr t) else Inr s)"
    and pdec_eq: "pdec w s = (if sint w = -2147483648 then pstr min_int_text s
      else bind_r (if sint w < 0 then put 45 s else Inr s) (dec_body put pdec \<bar>sint w\<bar>))"
    and phex_eq: "phex w s =
      bind_r (if unat w div 16 \<noteq> 0 then phex (word_of_nat (unat w div 16)) s else Inr s)
        (put (hex_digit (unat w mod 16)))"
begin

lemma pstr_emit: "terminated t \<Longrightarrow> pstr t s = emit put (cstr t) s"
proof (induction t arbitrary: s)
  case Nil
  then show ?case by simp
next
  case (Cons c t)
  then show ?case by (cases "c = 0") (auto simp: pstr_Cons intro: bind_r_cong)
qed

lemma pdec_nat: "n < 2147483648 \<Longrightarrow> pdec (word_of_nat n) s = emit put (dec_digits n) s"
proof (induction n arbitrary: s rule: dec_digits.induct)
  case (1 n)
  have s: "sint (word_of_nat n :: u32) = int n"
    using 1(2) sint_word_of_int32 [of "int n"] by simp
  have d: "(word_of_int (48 + int n mod 10) :: u8) = word_of_nat (48 + n mod 10)"
    by (metis of_int_of_nat_eq of_nat_add of_nat_numeral zmod_int)
  have w: "(word_of_int (int n div 10) :: u32) = word_of_nat (n div 10)"
    by (metis of_int_of_nat_eq of_nat_numeral zdiv_int)
  have z: "int n div 10 \<noteq> 0 \<longleftrightarrow> \<not> n < 10" by linarith
  have IH: "\<not> n < 10 \<Longrightarrow> pdec (word_of_nat (n div 10)) s = emit put (dec_digits (n div 10)) s"
    using 1 by simp
  show ?case
  proof (cases "n < 10")
    case True
    then have "(word_of_int (48 + int n) :: u8) = word_of_nat (48 + n)" using d by simp
    with True show ?thesis
      by (simp add: pdec_eq [of "word_of_nat n"] dec_body_def s dec_digits.simps [of n]
          del: of_nat_add of_int_add)
  next
    case False
    then show ?thesis
      by (simp add: pdec_eq [of "word_of_nat n"] dec_body_def s d w z IH dec_digits.simps [of n] emit_append
          del: of_nat_add of_int_add)
  qed
qed

lemma pdec_min: "sint w = -2147483648 \<Longrightarrow> pdec w s = emit put (dec_text (- 2147483648)) s"
proof -
  assume "sint w = -2147483648"
  then have "pdec w s = pstr min_int_text s" by (simp add: pdec_eq [of w])
  also have "\<dots> = emit put (cstr min_int_text) s"
    by (rule pstr_emit) (simp add: min_int_text_def c_lit_def)
  also have "cstr min_int_text = dec_text (- 2147483648)"
    by (simp add: min_int_text_def c_lit_def dec_text_def dec_digits.simps)
  finally show ?thesis .
qed

lemma pdec_digits:
  assumes "n < 2147483648"
  shows "dec_body put pdec (int n) = emit put (dec_digits n)"
proof (rule ext)
  fix s
  have "sint (word_of_nat n :: u32) = int n"
    using assms sint_word_of_int32 [of "int n"] by simp
  then show "dec_body put pdec (int n) s = emit put (dec_digits n) s"
    using pdec_nat [OF assms, of s] pdec_eq [of "word_of_nat n" s] by simp
qed

lemma pdec_emit: "pdec w s = emit put (dec_text (sint w)) s"
proof (cases "sint w = -2147483648")
  case True
  then show ?thesis by (simp add: pdec_min)
next
  case False
  define n where "n = nat \<bar>sint w\<bar>"
  have "-2147483648 \<le> sint w" "sint w < 2147483648"
    using sint_ge [of w] sint_lt [of w] by simp_all
  with False have n: "n < 2147483648" "\<bar>sint w\<bar> = int n" by (auto simp: n_def)
  have "dec_text (sint w) = (if sint w < 0 then [45] else []) @ dec_digits n"
    by (auto simp: dec_text_def n_def)
  then show ?thesis using False
    by (simp add: pdec_eq [of w] n(2) pdec_digits [OF n(1)])
qed

lemma phex_nat: "n < 4294967296 \<Longrightarrow> phex (word_of_nat n) s = emit put (hex_digits n) s"
proof (induction n arbitrary: s rule: hex_digits.induct)
  case (1 n)
  have "\<not> n < 16 \<Longrightarrow> phex (word_of_nat (n div 16)) s = emit put (hex_digits (n div 16)) s"
    using 1 by simp
  moreover have "n div 16 \<noteq> 0 \<longleftrightarrow> \<not> n < 16" by linarith
  ultimately show ?case
    using phex_eq [of "word_of_nat n" s] unat_u32 [OF 1(2)]
    by (cases "n < 16") (simp_all add: hex_digits.simps [of n] emit_append)
qed

lemma phex_emit: "phex w s = emit put (hex_digits (unat w)) s"
  using phex_nat [of "unat w" s] unsigned_less [of w] by simp

end


section \<open>The format interpreter\<close>

text \<open>The text one conversion prints, with the arguments left after it.\<close>

definition arg_text :: "u8 \<Rightarrow> va_arg list \<Rightarrow> (u8 list \<times> va_arg list) option" where
  "arg_text d args =
     (if d = 99 \<or> d = 100 \<or> d = 88 \<or> d = 120
      then (case args of
              Word w # rest \<Rightarrow>
                Some (if d = 99 then [ucast w] else if d = 100 then dec_text (sint w)
                      else hex_digits (unat w), rest)
            | _ \<Rightarrow> None)
      else if d = 115
      then (case args of
              Str t # rest \<Rightarrow> if terminated t then Some (cstr t, rest) else None
            | _ \<Rightarrow> None)
      else if d = 37 then Some ([37], args)
      else Some ([], args))"

text \<open>The text of a format: what \<open>printf\<close> is documented to print.\<close>

function format_text :: "u8 list \<Rightarrow> va_arg list \<Rightarrow> u8 list option" where
  "format_text [] args = None"
| "format_text (c # format) args =
     (if c = 0 then Some []
      else if c = 37
      then (case skip_spaces format of
              [] \<Rightarrow> None
            | d # format' \<Rightarrow>
                (case arg_text d args of
                   None \<Rightarrow> None
                 | Some (t, rest) \<Rightarrow> map_option (\<lambda>u. t @ u) (format_text format' rest)))
      else map_option (\<lambda>u. c # u) (format_text format args))"
  by pat_completeness auto
termination
  by (relation "measure (\<lambda>(format, args). length format)") (auto dest: skip_spaces_shorter)

locale formatter = printer put pstr pdec phex
  for put :: "u8 \<Rightarrow> 's \<Rightarrow> 's exec" and pstr pdec phex +
  fixes parg :: "u8 \<Rightarrow> va_arg list \<Rightarrow> 's \<Rightarrow> (va_arg list \<times> 's) exec"
    and pfmt :: "u8 list \<Rightarrow> va_arg list \<Rightarrow> 's \<Rightarrow> 's exec"
  assumes parg_word: "d = 99 \<or> d = 100 \<or> d = 88 \<or> d = 120 \<Longrightarrow> parg d (Word w # rest) s =
      bind_r (if d = 99 then put (ucast w) s else if d = 100 then pdec w s else phex w s)
        (\<lambda>s. Inr (rest, s))"
    and parg_str: "parg 115 (Str t # rest) s = bind_r (pstr t s) (\<lambda>s. Inr (rest, s))"
    and parg_other: "d \<notin> {99, 100, 88, 120, 115} \<Longrightarrow>
      parg d args s = (if d = 37 then bind_r (put 37 s) (\<lambda>s. Inr (args, s)) else Inr (args, s))"
    and pfmt_Cons: "pfmt (c # format) args s =
      (if c = 0 then Inr s
       else if c = 37
       then (case skip_spaces format of
               [] \<Rightarrow> Inl OutOfBounds
             | d # format' \<Rightarrow> bind_r (parg d args s) (\<lambda>(args, s). pfmt format' args s))
       else bind_r (put c s) (pfmt format args))"
begin

lemma parg_emit:
  "arg_text d args = Some (t, rest) \<Longrightarrow> parg d args s = bind_r (emit put t s) (\<lambda>s. Inr (rest, s))"
  by (auto simp: arg_text_def parg_word parg_str parg_other pstr_emit pdec_emit phex_emit
      split: if_splits list.splits va_arg.splits)

lemma pfmt_emit: "format_text format args = Some t \<Longrightarrow> pfmt format args s = emit put t s"
proof (induction format args arbitrary: t s rule: format_text.induct)
  case (1 args)
  then show ?case by simp
next
  case (2 c format args)
  consider (stop) "c = 0" | (conv) "c = 37" | (plain) "c \<noteq> 0" "c \<noteq> 37" by blast
  then show ?case
  proof cases
    case stop
    with 2 show ?thesis by (simp add: pfmt_Cons)
  next
    case conv
    then obtain d f u rest v where *: "skip_spaces format = d # f" "arg_text d args = Some (u, rest)"
      "format_text f rest = Some v" "t = u @ v"
      using 2(3) by (auto split: list.splits option.splits)
    then have "pfmt f rest s' = emit put v s'" for s'
      using 2(1) conv by simp
    with conv * show ?thesis
      by (simp add: pfmt_Cons parg_emit bind_r_assoc emit_append cong: bind_r_cong)
  next
    case plain
    then obtain v where v: "format_text format args = Some v" "t = c # v"
      using 2(3) by auto
    then have "pfmt format args s' = emit put v s'" for s' using 2(2) plain by simp
    with plain v show ?thesis by (simp add: pfmt_Cons cong: bind_r_cong)
  qed
qed

end

text \<open>The two copies in lib.c.\<close>

lemma hex_digit_code: "n < 16 \<Longrightarrow> (if n < 10 then f (word_of_nat (48 + n)) s
    else f (word_of_nat (97 + n - 10)) s) = f (hex_digit n) s"
  by (simp add: hex_digit_def)

interpretation serial: formatter print_ch print_string print_dec print_hex print_arg printk
proof (unfold_locales, goal_cases)
  case (3 w s)
  show ?case by (simp add: print_dec.simps [of w s] dec_body_def Let_def cong: bind_r_cong)
next
  case (4 w s)
  show ?case
    by (simp only: print_hex.simps [of w s] Let_def hex_digit_code [OF mod_less_divisor] zero_less_numeral)
qed (auto simp: print_arg.simps)

interpretation display: formatter print_ch_Q print_string_Q print_dec_Q print_hex_Q print_arg_Q printQ
proof (unfold_locales, goal_cases)
  case (3 w s)
  show ?case by (simp add: print_dec_Q.simps [of w s] dec_body_def Let_def cong: bind_r_cong)
next
  case (4 w s)
  show ?case
    by (simp only: print_hex_Q.simps [of w s] Let_def hex_digit_code [OF mod_less_divisor] zero_less_numeral)
qed (auto simp: print_arg_Q.simps)

lemma emit_serial: "emit print_ch t out = Inr (out @ t)"
  by (induction t arbitrary: out) (simp_all add: print_ch_def putChar_def)

definition put_text :: "u8 list \<Rightarrow> screen \<Rightarrow> screen" where
  "put_text t scr = fold (\<lambda>c s. screen_put s c white black) t scr"

lemma emit_display: "emit print_ch_Q t scr = Inr (put_text t scr)"
  by (induction t arbitrary: scr) (simp_all add: print_ch_Q_def put_text_def)

lemma printk_text: "format_text format args = Some t \<Longrightarrow> printk format args out = Inr (out @ t)"
  by (simp add: serial.pfmt_emit emit_serial)

lemma printQ_text: "format_text format args = Some t \<Longrightarrow> printQ format args scr = Inr (put_text t scr)"
  by (simp add: display.pfmt_emit emit_display)

end
