(* ===== verification/Sched.thy ===== *)
theory Sched
  imports Kdata Printing
begin

text \<open>
  The scheduler of kernel/kernel/irqHandle.c: \<open>try_to_wakeup\<close>, \<open>schedule\<close> and \<open>timerHandle\<close>
  as written, on the linked lists. What they promise is stated on an abstract
  scheduler, \<open>sched\<close>, whose queues are lists; \<open>sched_rel\<close> relates the two.
\<close>

section \<open>The code\<close>

text \<open>The \<open>if\<close> chain at the head of \<open>schedule\<close>: the current process goes to the list of its state.\<close>

definition queue_current :: "kernel \<Rightarrow> kernel exec" where
  "queue_current k = (case pstate (cur k) of
       RUNNING \<Rightarrow> let k1 = set_state (current k) RUNNABLE k
                  in if current k \<noteq> IdlePcb then add_to runnable_list (current k) k1 else Inr k1
     | DEAD \<Rightarrow> add_to free_list (current k) k
     | BLOCKED \<Rightarrow> add_to blocked_list (current k) k
     | SEM_BLOCKED \<Rightarrow>
         require (sem_at (psem (cur k))) OutOfBounds
           (bind_r (sem_list k (psem (cur k))) (\<lambda>h. add_to h (current k) k))
     | RUNNABLE \<Rightarrow> Inr k)"

text \<open>Giving the processor to \<open>p\<close>, and to the idle process.\<close>

definition dispatch :: "pcbref \<Rightarrow> kernel \<Rightarrow> kernel" where
  "dispatch p k = (upd_pcb p (\<lambda>b. b\<lparr>pstate := RUNNING, timeCount := 10, sleepTime := 0\<rparr>) k)
     \<lparr>tss_esp0 := kaddr k p + tf_offset + sizeof_TrapFrame, current := p\<rparr>"

definition run_idle :: "kernel \<Rightarrow> kernel" where
  "run_idle k = upd_pcb IdlePcb (\<lambda>b. b\<lparr>pstate := RUNNING, timeCount := 10\<rparr>) (k\<lparr>current := IdlePcb\<rparr>)"

text \<open>The two branches on \<open>runnable_list->next\<close>, then \<open>printk("%d", current->pid)\<close>.\<close>

definition switch_process :: "kernel \<Rightarrow> kernel exec" where
  "switch_process k =
     (if nxt k runnable_list \<noteq> None
      then bind_r (queue_current k) (\<lambda>k.
             bind_r (list_head (nxt k) runnable_list) (\<lambda>p.
               bind_r (delete_from runnable_list p k) (\<lambda>k. Inr (dispatch p k))))
      else (case pstate (cur k) of
              RUNNING \<Rightarrow> Inr (upd_pcb (current k) (\<lambda>b. b\<lparr>timeCount := 10\<rparr>) k)
            | RUNNABLE \<Rightarrow> Inr k
            | _ \<Rightarrow> bind_r (queue_current k) (\<lambda>k. Inr (run_idle k))))"

definition schedule :: "kernel \<Rightarrow> kernel exec" where
  "schedule k = bind_r (switch_process k) (\<lambda>k.
     bind_r (printk (c_lit ''%d'') [Word (word_of_int (pid (cur k)))] (serial k)) (\<lambda>out.
       Inr (k\<lparr>serial := out\<rparr>)))"

text \<open>The body of the loop of \<open>try_to_wakeup\<close> for a process whose time has come.\<close>

definition wake_one :: "pcbref \<Rightarrow> kernel \<Rightarrow> kernel exec" where
  "wake_one q k = bind_r (delete_from blocked_list q k) (\<lambda>k.
     add_to runnable_list q (set_state q RUNNABLE k))"

definition tick_sleep :: "pcbref \<Rightarrow> kernel \<Rightarrow> kernel" where
  "tick_sleep q = upd_pcb q (\<lambda>b. b\<lparr>sleepTime := wrap32 (sleepTime b - 1)\<rparr>)"

text \<open>\<open>while(p != NULL)\<close>; \<open>None\<close> if the walk never reaches the end.\<close>

partial_function (option) wake_loop :: "pcbref option \<Rightarrow> kernel \<Rightarrow> kernel exec option" where
  "wake_loop p k = (case p of
       None \<Rightarrow> Some (Inr k)
     | Some q \<Rightarrow>
         (let k1 = tick_sleep q k; p' = nxt k1 q
          in if sleepTime (pcbs k1 q) = 0
             then (case wake_one q k1 of Inl e \<Rightarrow> Some (Inl e) | Inr k2 \<Rightarrow> wake_loop p' k2)
             else wake_loop p' k1))"

definition try_to_wakeup :: "kernel \<Rightarrow> kernel exec" where
  "try_to_wakeup k = (case wake_loop (nxt k blocked_list) k of None \<Rightarrow> Inl Diverges | Some r \<Rightarrow> r)"

text \<open>\<open>&(p->tf)\<close>\<close>

definition tf_addr :: "kernel \<Rightarrow> pcbref \<Rightarrow> u32" where
  "tf_addr k p = kaddr k p + tf_offset"

definition timerHandle :: "u32 \<Rightarrow> kernel \<Rightarrow> kernel exec" where
  "timerHandle tfp k =
     (if \<not> intr_nesting k
      then require (tf_addr k (current k) = tfp) (AssertFail ''irqHandle.c'' 305)
        (let k1 = upd_pcb (current k) (\<lambda>b. b\<lparr>timeCount := wrap32 (timeCount b - 1)\<rparr>) k
         in bind_r (try_to_wakeup k1) (\<lambda>k2.
              if timeCount (cur k2) = 0 then schedule k2 else Inr k2))
      else Inr k)"


section \<open>The abstract scheduler\<close>

record sched =
  ready :: "pcbref list"
  sleepers :: "pcbref list"
  freed :: "pcbref list"
  waiters :: "pcbref list"
  running :: pcbref

definition heads :: "pcbref set" where
  "heads = {Dummy1, Dummy2, Dummy3, DummySem}"

fun queue_of :: "sched \<Rightarrow> pcbref \<Rightarrow> pcbref list" where
  "queue_of a Dummy1 = ready a"
| "queue_of a Dummy2 = sleepers a"
| "queue_of a Dummy3 = freed a"
| "queue_of a DummySem = waiters a"
| "queue_of a p = []"

definition queued :: "sched \<Rightarrow> pcbref list" where
  "queued a = ready a @ sleepers a @ freed a @ waiters a"

text \<open>The processes of the table that take part in scheduling; \<open>pcb[0]\<close> never does.\<close>

definition procs :: "pcbref set" where
  "procs = Pcb ` {1..<10}"

text \<open>The running process leaves the processor in state \<open>s\<close>.\<close>

fun park :: "p_state \<Rightarrow> sched \<Rightarrow> sched" where
  "park RUNNING a = (if running a = IdlePcb then a else a\<lparr>ready := ready a @ [running a]\<rparr>)"
| "park DEAD a = a\<lparr>freed := freed a @ [running a]\<rparr>"
| "park BLOCKED a = a\<lparr>sleepers := sleepers a @ [running a]\<rparr>"
| "park SEM_BLOCKED a = a\<lparr>waiters := waiters a @ [running a]\<rparr>"
| "park RUNNABLE a = a"

text \<open>First come, first served; the idle process only when nobody is ready.\<close>

definition spec_schedule :: "p_state \<Rightarrow> sched \<Rightarrow> sched" where
  "spec_schedule s a =
     (if ready a = [] \<and> s = RUNNING then a
      else (case ready (park s a) of
              [] \<Rightarrow> (park s a)\<lparr>running := IdlePcb\<rparr>
            | p # r \<Rightarrow> (park s a)\<lparr>ready := r, running := p\<rparr>))"

text \<open>The sleepers whose time is over join the ready processes, in order.\<close>

definition spec_wakeup :: "(pcbref \<Rightarrow> bool) \<Rightarrow> sched \<Rightarrow> sched" where
  "spec_wakeup due a = a\<lparr>sleepers := filter (\<lambda>p. \<not> due p) (sleepers a),
     ready := ready a @ filter due (sleepers a)\<rparr>"

definition states_ok :: "(pcbref \<Rightarrow> pcb) \<Rightarrow> sched \<Rightarrow> bool" where
  "states_ok P a \<longleftrightarrow> (\<forall>p\<in>set (ready a). pstate (P p) = RUNNABLE) \<and> (\<forall>p\<in>set (sleepers a). pstate (P p) = BLOCKED)
     \<and> (\<forall>p\<in>set (freed a). pstate (P p) = DEAD) \<and> (\<forall>p\<in>set (waiters a). pstate (P p) = SEM_BLOCKED)"

definition placed :: "sched \<Rightarrow> bool" where
  "placed a \<longleftrightarrow> distinct (queued a) \<and> set (queued a) \<subseteq> procs
     \<and> running a \<in> insert IdlePcb procs \<and> running a \<notin> set (queued a)"

definition sched_rel :: "kernel \<Rightarrow> sched \<Rightarrow> bool" where
  "sched_rel k a \<longleftrightarrow> queues chain (nxt k) heads (queue_of a) \<and> states_ok (pcbs k) a \<and> placed a
     \<and> current k = running a"

text \<open>No process is lost: each is queued once or runs.\<close>

definition complete :: "sched \<Rightarrow> bool" where
  "complete a \<longleftrightarrow> procs \<subseteq> insert (running a) (set (queued a))"

end
