(* ===== verification/Process.thy ===== *)
theory Process
  imports Sched
begin

text \<open>
  Processes and semaphores: the system calls of kernel/kernel/process.c and
  kernel/kernel/sem.c, and the set-up of the process table in kernel/kernel/kvm.c.
\<close>

section \<open>Semaphores (sem.c)\<close>

text \<open>
  \<open>P\<close> and \<open>V\<close>. The pointer of the program is followed as it stands; only
  \<open>sem_init_aux\<close> adds the offset of the child's memory.
\<close>

definition sem_P :: "u32 \<Rightarrow> kernel \<Rightarrow> kernel exec" where
  "sem_P sem k = require (sem_at sem) OutOfBounds
     (let k1 = set_sem_value sem (sem_value k sem - 1) k
      in if sem_value k1 sem < 0 then schedule (set_state (current k1) SEM_BLOCKED k1) else Inr k1)"

definition sem_V :: "u32 \<Rightarrow> kernel \<Rightarrow> kernel exec" where
  "sem_V sem k = require (sem_at sem) OutOfBounds
     (bind_r (if sem_value k sem < 0
              then bind_r (sem_list k sem) (\<lambda>h.
                     bind_r (list_head (nxt k) h) (\<lambda>p.
                       bind_r (delete_from h p k) (\<lambda>k.
                         add_to runnable_list p (set_state p RUNNABLE k))))
              else Inr k)
       (\<lambda>k. Inr (set_sem_value sem (sem_value k sem + 1) k)))"

definition set_psem :: "u32 \<Rightarrow> kernel \<Rightarrow> kernel" where
  "set_psem sem k = upd_pcb (current k) (\<lambda>b. b\<lparr>psem := sem\<rparr>) k"

definition sem_init_aux :: "u32 \<Rightarrow> int \<Rightarrow> kernel \<Rightarrow> kernel exec" where
  "sem_init_aux sem value k =
     (let sem = (if pid (cur k) = 2 then sem + Child_Data_Offst else sem)
      in require (sem_at sem) OutOfBounds
           (let k1 = set_sem_value sem value (set_psem sem k);
                k2 = k1\<lparr>nxt := (nxt k1)(DummySem := None)\<rparr>
            in Inr (set_eax 0 (set_sem_list sem DummySem k2))))"

definition sem_destroy_aux :: "u32 \<Rightarrow> kernel \<Rightarrow> kernel" where
  "sem_destroy_aux sem k = set_psem 0 (set_eax 0 k)"

definition sem_wait_aux :: "u32 \<Rightarrow> kernel \<Rightarrow> kernel exec" where
  "sem_wait_aux sem k = sem_P sem (set_eax 0 k)"

definition sem_post_aux :: "u32 \<Rightarrow> kernel \<Rightarrow> kernel exec" where
  "sem_post_aux sem k = sem_V sem (set_eax 0 k)"


section \<open>exit, sleep and fork (process.c)\<close>

text \<open>\<open>writeBack\<close> of fs.c: the two megabytes at \<open>fs_addr\<close> go to the disk.\<close>

definition writeBack :: "kernel \<Rightarrow> kernel exec" where
  "writeBack k = bind_r (write_back (fs k) (mem k) (disk k)) (\<lambda>d. Inr (k\<lparr>disk := d\<rparr>))"

definition exit_aux :: "kernel \<Rightarrow> kernel exec" where
  "exit_aux k =
     (let k1 = set_state (current k) DEAD k;
          k2 = k1\<lparr>p_num := wrap32 (p_num k1 - 1)\<rparr>
      in bind_r (writeBack k2) schedule)"

definition sleep_aux :: "int \<Rightarrow> kernel \<Rightarrow> kernel exec" where
  "sleep_aux t k = schedule (upd_pcb (current k) (\<lambda>b. b\<lparr>pstate := BLOCKED, sleepTime := t\<rparr>) k)"

text \<open>\<open>&pcb[n]\<close>: an index of the table or, with 10, the address behind it.\<close>

definition pcb_ref :: "int \<Rightarrow> pcbref exec" where
  "pcb_ref n = require (0 \<le> n \<and> n \<le> 10) OutOfBounds (Inr (Pcb (nat n)))"

text \<open>The loop over \<open>filepointer\<close>: each open file of the parent gets one more link.\<close>

fun link_files :: "int list \<Rightarrow> sysFile list \<Rightarrow> sysFile list exec" where
  "link_files [] t = Inr t"
| "link_files (i # fps) t =
     (if i \<noteq> -1
      then require (0 \<le> i \<and> nat i < length t) OutOfBounds
             (let e = t ! nat i in link_files fps (t[nat i := e\<lparr>link_num := wrap32 (link_num e + 1)\<rparr>]))
      else link_files fps t)"

text \<open>The entries of the descriptor table, and the selectors for them.\<close>

abbreviation (input) SEG_KCODE :: "'a::numeral" where "SEG_KCODE \<equiv> 1"
abbreviation (input) SEG_KDATA :: "'a::numeral" where "SEG_KDATA \<equiv> 2"
abbreviation (input) SEG_UCODE1 :: "'a::numeral" where "SEG_UCODE1 \<equiv> 3"
abbreviation (input) SEG_UDATA1 :: "'a::numeral" where "SEG_UDATA1 \<equiv> 4"
abbreviation (input) SEG_UCODE2 :: "'a::numeral" where "SEG_UCODE2 \<equiv> 5"
abbreviation (input) SEG_UDATA2 :: "'a::numeral" where "SEG_UDATA2 \<equiv> 6"
abbreviation (input) SEG_TSS :: "'a::numeral" where "SEG_TSS \<equiv> 7"
abbreviation (input) SEG_KDISPLAY :: "'a::numeral" where "SEG_KDISPLAY \<equiv> 8"

definition USEL :: "u32 \<Rightarrow> u32" where "USEL d = (d * 8) OR 3"
definition KSEL :: "u32 \<Rightarrow> u32" where "KSEL d = (d * 8) OR 0"

text \<open>The child's trap frame: the parent's registers, 0 in \<open>eax\<close>, the second user segments.\<close>

definition child_tf :: "trapframe \<Rightarrow> trapframe" where
  "child_tf t = \<lparr>tf_gs = KSEL SEG_KDISPLAY, tf_fs = USEL SEG_UDATA2, tf_es = USEL SEG_UDATA2, tf_ds = USEL SEG_UDATA2,
     tf_edi = tf_edi t, tf_esi = tf_esi t, tf_ebp = tf_ebp t, tf_xxx = tf_xxx t,
     tf_ebx = tf_ebx t, tf_edx = tf_edx t, tf_ecx = tf_ecx t, tf_eax = 0,
     tf_irq = tf_irq t, tf_error = tf_error t, tf_eip = tf_eip t, tf_cs = USEL SEG_UCODE2,
     tf_eflags = tf_eflags t, tf_esp = tf_esp t, tf_ss = USEL SEG_UDATA2\<rparr>"

definition child_pcb :: "int \<Rightarrow> pcb \<Rightarrow> pcb \<Rightarrow> pcb" where
  "child_pcb n parent old = old\<lparr>fp_num := fp_num parent, filepointer := filepointer parent, pid := n,
     pstate := RUNNABLE, timeCount := 10, sleepTime := 0, psem := psem parent, ppid := pid parent,
     tf := child_tf (tf parent)\<rparr>"

text \<open>\<open>for(i=0;i<0x200000;i++) dest[i] = src[i];\<close>\<close>

primrec copy_image :: "nat \<Rightarrow> (nat \<Rightarrow> u8) \<Rightarrow> (nat \<Rightarrow> u8)" where
  "copy_image 0 m = m"
| "copy_image (Suc i) m = (let m' = copy_image i m in m'(0x400000 + i := m' (0x200000 + i)))"

definition fork_aux :: "kernel \<Rightarrow> kernel exec" where
  "fork_aux k =
     bind_r (pcb_ref (p_num k)) (\<lambda>c.
       bind_r (delete_from free_list c k) (\<lambda>k.
         bind_r (link_files (filepointer (cur k)) (sysFileTable k)) (\<lambda>t.
           let k1 = upd_pcb c (child_pcb (p_num k) (cur k)) (k\<lparr>sysFileTable := t\<rparr>);
               k2 = set_eax (word_of_int (p_num k)) (k1\<lparr>mem := copy_image 0x200000 (mem k1)\<rparr>)
           in bind_r (add_to runnable_list c k2) (\<lambda>k.
                Inr (k\<lparr>p_num := wrap32 (p_num k + 1)\<rparr>)))))"


section \<open>The process table (kvm.c)\<close>

text \<open>The loop of \<open>initPcb\<close> over \<open>pcb[i]\<close>, for \<open>i\<close> from 1 to 9.\<close>

definition free_pcb :: "pcb \<Rightarrow> pcb" where
  "free_pcb b = b\<lparr>pid := -1, ppid := -1, pstate := DEAD, sleepTime := 0, timeCount := 0, psem := 0,
     fp_num := 3, filepointer := replicate 8 (-1)\<rparr>"

fun init_pcbs :: "nat list \<Rightarrow> kernel \<Rightarrow> kernel exec" where
  "init_pcbs [] k = Inr k"
| "init_pcbs (i # is) k = bind_r (add_to free_list (Pcb i) (upd_pcb (Pcb i) free_pcb k)) (init_pcbs is)"

definition initPcb :: "kernel \<Rightarrow> kernel exec" where
  "initPcb k =
     bind_r (init_pcbs [1..<10]
       (k\<lparr>sys_file_num := 0, sysFileTable := map (\<lambda>e. e\<lparr>inode_index := -1\<rparr>) (sysFileTable k),
          intr_nesting := False, nxt := (nxt k)(Dummy1 := None, Dummy2 := None, Dummy3 := None),
          p_num := 1\<rparr>))
       (\<lambda>k. Inr ((upd_pcb IdlePcb (\<lambda>b. b\<lparr>pid := 0, pstate := RUNNING, timeCount := 10, sleepTime := 0,
          psem := 0\<rparr>) k)\<lparr>current := IdlePcb\<rparr>))"

text \<open>\<open>preparePCB\<close>: the first process, at the entry point of its program.\<close>

definition first_pcb :: "int \<Rightarrow> u32 \<Rightarrow> pcb \<Rightarrow> pcb" where
  "first_pcb n entry b = b\<lparr>pid := n, ppid := -1, pstate := RUNNABLE, timeCount := 10, sleepTime := 0,
     tf := (tf b)\<lparr>tf_eip := entry, tf_eflags := 0x202, tf_esp := 0x300000, tf_cs := USEL SEG_UCODE1, tf_ds := USEL SEG_UDATA1,
       tf_es := USEL SEG_UDATA1, tf_ss := USEL SEG_UDATA1, tf_fs := USEL SEG_UDATA1, tf_gs := KSEL SEG_KDISPLAY\<rparr>\<rparr>"

definition preparePCB :: "u32 \<Rightarrow> kernel \<Rightarrow> kernel exec" where
  "preparePCB entry k =
     bind_r (pcb_ref (p_num k)) (\<lambda>c.
       bind_r (delete_from free_list c k) (\<lambda>k.
         bind_r (add_to runnable_list c (upd_pcb c (first_pcb (p_num k) entry) k)) (\<lambda>k.
           bind_r (list_head (nxt k) runnable_list) (\<lambda>p.
             require (pid (pcbs k p) = 1) (AssertFail ''kvm.c'' 148)
               (Inr (k\<lparr>p_num := wrap32 (p_num k + 1)\<rparr>))))))"

end
