(* ===== verification/Path.thy ===== *)
theory Path
  imports Fsdata
begin

text \<open>
  The path functions of kernel/kernel/fs.c: splitting a path into components
  (\<open>getTopDir\<close>, \<open>lastLevel\<close>, \<open>getLastLevelName\<close>), scanning a directory, and the three
  walks \<open>findUpperDirPos\<close>, \<open>findCurrentDirPos\<close> and \<open>findCurrentFLPos\<close>. The results of
  \<open>getTopDir\<close> are the globals \<open>top_dir\<close> and \<open>path_offset\<close>, as in the code. A directory's
  name carries its trailing slash.
\<close>

section \<open>Splitting paths\<close>

text \<open>The loop of \<open>getTopDir\<close>; the option is the new \<open>path_offset\<close> when a slash was met.\<close>

function top_from :: "u8 list \<Rightarrow> nat \<Rightarrow> nat \<Rightarrow> u8 list \<Rightarrow> (u8 list \<times> nat option) exec" where
  "top_from path len i td =
     (if i < len
      then require (i < length td) OutOfBounds
        (let td = td[i := path ! i] in
         if path ! i = slash
         then require (i + 1 < length td) OutOfBounds (Inr (td[i + 1 := 0], Some (i + 1)))
         else top_from path len (i + 1) td)
      else Inr (td, None))"
  by pat_completeness auto
termination
  by (relation "measure (\<lambda>(path, len, i, td). len - i)") auto

definition getTopDir :: "filesys \<Rightarrow> u8 list \<Rightarrow> filesys exec" where
  "getTopDir fs path =
     bind_r (strlen path) (\<lambda>len.
     bind_r (top_from path len 0 (top_dir fs)) (\<lambda>(td, off).
       Inr (fs\<lparr>top_dir := td,
              path_offset := (case off of None \<Rightarrow> path_offset fs | Some n \<Rightarrow> n)\<rparr>)))"

function slashes_from :: "u8 list \<Rightarrow> nat \<Rightarrow> nat \<Rightarrow> nat \<Rightarrow> nat" where
  "slashes_from path len i cont =
     (if i < len
      then slashes_from path len (i + 1)
             (if path ! i = slash \<and> i \<noteq> len - 1 then cont + 1 else cont)
      else cont)"
  by pat_completeness auto
termination
  by (relation "measure (\<lambda>(path, len, i, cont). len - i)") auto

definition lastLevel :: "u8 list \<Rightarrow> bool exec" where
  "lastLevel path =
     bind_r (strlen path) (\<lambda>len. Inr (slashes_from path len 0 0 = 0))"

text \<open>The loop runs down from \<open>len - 1\<close>; the argument is one more than its \<open>i\<close>.\<close>

fun last_offset :: "u8 list \<Rightarrow> nat \<Rightarrow> nat \<Rightarrow> nat" where
  "last_offset path len 0 = 0"
| "last_offset path len (Suc i) =
     (if i \<noteq> len - 1 \<and> path ! i = slash then i + 1 else last_offset path len i)"

definition getLastLevelName :: "u8 list \<Rightarrow> u8 list exec" where
  "getLastLevelName abspath =
     bind_r (strlen abspath) (\<lambda>len. Inr (drop (last_offset abspath len len) abspath))"

text \<open>\<open>abspath += n\<close>; the pointer may not leave the string's object.\<close>

definition advance :: "u8 list \<Rightarrow> nat \<Rightarrow> u8 list exec" where
  "advance path n = require (n \<le> length path) OutOfBounds (Inr (drop n path))"

text \<open>The local \<open>char dir[MAX_FILENAME_LEN]\<close> before its first write.\<close>

definition name_buf :: "u8 list" where
  "name_buf = replicate MAX_FILENAME_LEN 0"

declare top_from.simps [simp del] slashes_from.simps [simp del]

text \<open>
  The first two statements of every walk: \<open>strcpy(dir, getTopDir(abspath)); abspath +=
  path_offset;\<close>
\<close>

definition next_level :: "filesys \<Rightarrow> u8 list \<Rightarrow> (filesys \<times> u8 list \<times> u8 list) exec" where
  "next_level fs abspath =
     bind_r (getTopDir fs abspath) (\<lambda>fs.
     bind_r (strcpy name_buf (top_dir fs)) (\<lambda>dir.
     bind_r (advance abspath (path_offset fs)) (\<lambda>abspath.
       Inr (fs, dir, abspath))))"


section \<open>Scanning a directory\<close>

text \<open>
  The loop \<open>for(i=0;cont<filenum;i++)\<close> that looks for an entry called \<open>name\<close> whose inode
  has type \<open>t\<close>: the inode number found, or -1. The loop's bound counts the entries in
  use, so nothing but that count keeps \<open>i\<close> inside the 1024 entries.
\<close>

function scan_dir :: "filesys \<Rightarrow> nat \<Rightarrow> u8 list \<Rightarrow> u32 \<Rightarrow> nat \<Rightarrow> nat \<Rightarrow> int exec" where
  "scan_dir fs k name t i cont =
     (if cont < unat (isz (inodes fs k))
      then require (i < NR_DIRDATA) OutOfBounds
        (bind_r (strcmp (dent_name (inodes fs k) i) [0, 0]) (\<lambda>c.
           if c \<noteq> 0
           then bind_r (strcmp (dent_name (inodes fs k) i) name) (\<lambda>d.
             if d = 0
             then bind_r (inode_at fs (int (unat (dent_ino (inodes fs k) i)))) (\<lambda>ino.
               if itype ino = t
               then Inr (int (unat (dent_ino (inodes fs k) i)))
               else scan_dir fs k name t (i + 1) (cont + 1))
             else scan_dir fs k name t (i + 1) (cont + 1))
           else scan_dir fs k name t (i + 1) cont))
      else Inr (-1))"
  by pat_completeness auto
termination
  by (relation "measure (\<lambda>(fs, k, name, t, i, cont). NR_DIRDATA - i)") auto

declare scan_dir.simps [simp del]

text \<open>The scan as the walks call it, from an \<open>int\<close> index that may be -1.\<close>

definition scan_at :: "filesys \<Rightarrow> int \<Rightarrow> u8 list \<Rightarrow> u32 \<Rightarrow> int exec" where
  "scan_at fs upper name t =
     bind_r (inode_at fs upper) (\<lambda>_. scan_dir fs (nat upper) name t 0 0)"


section \<open>The walks\<close>

lemma slashes_from_eq:
  "slashes_from path len i cont
    = cont + length (filter (\<lambda>j. path ! j = slash \<and> j \<noteq> len - 1) [i..<len])"
proof (induction path len i cont rule: slashes_from.induct)
  case (1 path len i cont)
  show ?case
  proof (cases "i < len")
    case True
    then show ?thesis using 1
      by (simp add: slashes_from.simps [of path len i] upt_conv_Cons)
  next
    case False
    then show ?thesis by (simp add: slashes_from.simps [of path len i])
  qed
qed

lemma top_from_offset:
  "top_from path len i td = Inr (td', off) \<Longrightarrow>
    (case off of None \<Rightarrow> (\<forall>j. i \<le> j \<and> j < len \<longrightarrow> path ! j \<noteq> slash)
     | Some n \<Rightarrow> i < n \<and> n \<le> len \<and> path ! (n - 1) = slash
         \<and> (\<forall>j. i \<le> j \<and> j < n - 1 \<longrightarrow> path ! j \<noteq> slash))"
proof (induction path len i td rule: top_from.induct)
  case (1 path len i td)
  show ?case
  proof (cases "i < len \<and> path ! i \<noteq> slash")
    case True
    then have r: "top_from path len (i + 1) (td[i := path ! i]) = Inr (td', off)"
      using 1(2) by (simp add: top_from.simps [of path len i] exec_Inr_iffs Let_def)
    have "i < length td" using 1(2) True
      by (simp add: top_from.simps [of path len i] exec_Inr_iffs)
    note IH = 1(1) [OF conjunct1 [OF True] this refl conjunct2 [OF True] r]
    show ?thesis
    proof (cases off)
      case None
      then show ?thesis using IH True by (auto simp: Suc_le_eq) (metis le_neq_implies_less)
    next
      case (Some n)
      then show ?thesis using IH True by (auto simp: Suc_le_eq) (metis le_neq_implies_less)
    qed
  next
    case False
    then show ?thesis using 1(2)
      by (auto simp: top_from.simps [of path len i] exec_Inr_iffs Let_def split: if_splits)
  qed
qed

lemma getTopDir_unpack:
  "getTopDir fs path = Inr fs' \<Longrightarrow> terminated path
    \<and> (\<exists>td off. top_from path (length (cstr path)) 0 (top_dir fs) = Inr (td, off)
       \<and> fs' = fs\<lparr>top_dir := td, path_offset := (case off of None \<Rightarrow> path_offset fs | Some n \<Rightarrow> n)\<rparr>)"
  by (auto simp: getTopDir_def strlen_eq exec_Inr_iffs split: if_splits)

text \<open>The walk makes progress: while a slash is left before the end, \<open>path_offset\<close> is at least 1.\<close>

lemma next_level_shorter:
  assumes l: "lastLevel path = Inr False" and n: "next_level fs path = Inr (fs', dir, path')"
  shows "length path' < length path"
proof -
  from l have t: "terminated path"
    and sl: "slashes_from path (length (cstr path)) 0 0 \<noteq> 0"
    by (auto simp: lastLevel_def strlen_eq split: if_splits)
  then have "\<exists>j < length (cstr path). path ! j = slash"
    by (auto simp: slashes_from_eq filter_empty_conv)
  moreover obtain td off where "top_from path (length (cstr path)) 0 (top_dir fs) = Inr (td, off)"
    and fs': "fs' = fs\<lparr>top_dir := td, path_offset := (case off of None \<Rightarrow> path_offset fs | Some n \<Rightarrow> n)\<rparr>"
    and p': "path' = drop (path_offset fs') path"
    using n by (auto simp: next_level_def advance_def exec_Inr_iffs dest!: getTopDir_unpack)
  ultimately have "0 < path_offset fs'"
    using top_from_offset [of path _ 0 "top_dir fs" td off] by (auto split: option.splits)
  moreover have "path \<noteq> []" using t by auto
  ultimately show ?thesis using p' by simp
qed

text \<open>
  The loop \<open>while(!lastLevel(abspath))\<close>. \<open>strict\<close> is the line of the \<open>if(index == -1)assert(0)\<close>
  that follows the scan; in \<open>findUpperDirPos\<close> it is commented out.
\<close>

function walk :: "nat option \<Rightarrow> filesys \<Rightarrow> u8 list \<Rightarrow> int \<Rightarrow> (filesys \<times> u8 list \<times> int) exec" where
  "walk strict fs abspath upper =
     bind_r (lastLevel abspath) (\<lambda>last.
       if last then Inr (fs, abspath, upper)
       else
         bind_r (next_level fs abspath) (\<lambda>(fs', dir, abspath').
         bind_r (scan_at fs' upper dir DIR) (\<lambda>index.
           (case strict of
              Some line \<Rightarrow> require (index \<noteq> -1) (AssertFail ''fs.c'' line)
                (walk strict fs' abspath' index)
            | None \<Rightarrow> walk strict fs' abspath' index))))"
  by pat_completeness auto
termination
  by (relation "measure (\<lambda>(strict, fs, abspath, upper). length abspath)")
    (auto dest: next_level_shorter)

declare walk.simps [simp del]

definition root_path :: "u8 list" where
  "root_path = [slash, 0]"

definition findUpperDirPos :: "filesys \<Rightarrow> u8 list \<Rightarrow> (int \<times> filesys) exec" where
  "findUpperDirPos fs abspath =
     bind_r (strcmp abspath root_path) (\<lambda>c.
       if c = 0 then Inr (0, fs)
       else
         bind_r (next_level fs abspath) (\<lambda>(fs, dir, abspath).
         bind_r (walk None fs abspath 0) (\<lambda>(fs, abspath, upper).
           Inr (upper, fs))))"

definition findCurrentDirPos :: "filesys \<Rightarrow> u8 list \<Rightarrow> (int \<times> filesys) exec" where
  "findCurrentDirPos fs abspath =
     bind_r (strcmp abspath root_path) (\<lambda>c.
       if c = 0 then Inr (0, fs)
       else
         bind_r (next_level fs abspath) (\<lambda>(fs, dir, abspath).
         bind_r (walk (Some 137) fs abspath 0) (\<lambda>(fs, abspath, upper).
         bind_r (scan_at fs upper abspath DIR) (\<lambda>index. Inr (index, fs)))))"

definition findCurrentFLPos :: "filesys \<Rightarrow> u8 list \<Rightarrow> (int \<times> filesys) exec" where
  "findCurrentFLPos fs abspath =
     bind_r (next_level fs abspath) (\<lambda>(fs, dir, abspath).
     bind_r (walk (Some 195) fs abspath 0) (\<lambda>(fs, abspath, upper).
     bind_r (scan_at fs upper abspath FL) (\<lambda>index. Inr (index, fs))))"

definition isDIRExist :: "filesys \<Rightarrow> u8 list \<Rightarrow> (bool \<times> filesys) exec" where
  "isDIRExist fs abspath =
     bind_r (findCurrentDirPos fs abspath) (\<lambda>(k, fs). Inr (k \<noteq> -1, fs))"

definition isFLExist :: "filesys \<Rightarrow> u8 list \<Rightarrow> (bool \<times> filesys) exec" where
  "isFLExist fs abspath =
     bind_r (findCurrentFLPos fs abspath) (\<lambda>(k, fs). Inr (k \<noteq> -1, fs))"

end
