(* ===== verification/Lookup.thy ===== *)
theory Lookup
  imports Path
begin

text \<open>
  What the path functions of fs.c compute. An absolute path is a list of directory names
  and a last name (\<open>render\<close>); a directory in good order (\<open>dir_ok\<close>) has as many entries in
  use as its \<open>filenum\<close> says, with terminated names and inode numbers below 32. On these,
  \<open>scan_dir\<close> is \<open>dir_lookup\<close>, the first entry of that name and type, and the three walks
  resolve the path component by component from inode 0 (\<open>resolve\<close>).
\<close>

section \<open>Directories\<close>

definition used :: "inodeblock \<Rightarrow> nat \<Rightarrow> bool" where
  "used ino i \<longleftrightarrow> cstr (dent_name ino i) \<noteq> []"

definition used_count :: "inodeblock \<Rightarrow> nat \<Rightarrow> nat" where
  "used_count ino n = length (filter (used ino) [0..<n])"

definition dents_ok :: "inodeblock \<Rightarrow> bool" where
  "dents_ok ino \<longleftrightarrow> (\<forall>i < 1024. terminated (dent_name ino i)
     \<and> (used ino i \<longrightarrow> unat (dent_ino ino i) < 32))"

definition dir_ok :: "inodeblock \<Rightarrow> bool" where
  "dir_ok ino \<longleftrightarrow> dents_ok ino \<and> unat (isz ino) = used_count ino 1024"

definition matches :: "filesys \<Rightarrow> nat \<Rightarrow> u8 list \<Rightarrow> u32 \<Rightarrow> nat \<Rightarrow> bool" where
  "matches fs k nm t i \<longleftrightarrow> used (inodes fs k) i \<and> cstr (dent_name (inodes fs k) i) = nm
     \<and> itype (inodes fs (unat (dent_ino (inodes fs k) i))) = t"

definition dir_lookup :: "filesys \<Rightarrow> nat \<Rightarrow> u8 list \<Rightarrow> u32 \<Rightarrow> nat option" where
  "dir_lookup fs k nm t =
     map_option (\<lambda>i. unat (dent_ino (inodes fs k) i)) (find (matches fs k nm t) [0..<1024])"

text \<open>The \<open>int\<close> by which the code reports a lookup.\<close>

definition index_of :: "nat option \<Rightarrow> int" where
  "index_of r = (case r of None \<Rightarrow> -1 | Some k \<Rightarrow> int k)"

lemma index_of_simps [simp]: "index_of None = -1" "index_of (Some k) = int k"
  by (simp_all add: index_of_def)

lemma index_of_eq_minus1 [simp]: "index_of r = -1 \<longleftrightarrow> r = None"
  by (cases r) auto

lemma used_count_0 [simp]: "used_count ino 0 = 0"
  by (simp add: used_count_def)

lemma used_count_Suc [simp]:
  "used_count ino (Suc n) = used_count ino n + (if used ino n then 1 else 0)"
  by (simp add: used_count_def)

lemma used_count_split:
  "m \<le> n \<Longrightarrow> used_count ino n = used_count ino m + length (filter (used ino) [m..<n])"
  using upt_add_eq_append [of 0 m "n - m"] by (simp add: used_count_def)

lemma used_count_le: "used_count ino n \<le> n"
  unfolding used_count_def by (metis diff_zero length_filter_le length_upt)

lemma dents_okD: "dents_ok ino \<Longrightarrow> i < 1024 \<Longrightarrow> terminated (dent_name ino i)"
  "dents_ok ino \<Longrightarrow> i < 1024 \<Longrightarrow> used ino i \<Longrightarrow> unat (dent_ino ino i) < 32"
  by (auto simp: dents_ok_def)

lemma find_from: "i < n \<Longrightarrow> find P [i..<n] = (if P i then Some i else find P [Suc i..<n])"
  by (simp add: upt_conv_Cons)

lemma scan_dir_step:
  assumes d: "dents_ok (inodes fs k)" and i: "i < 1024" "cont < unat (isz (inodes fs k))"
    and nm: "terminated nm" "cstr nm \<noteq> []"
  shows "scan_dir fs k nm t i cont =
    (if matches fs k (cstr nm) t i then Inr (int (unat (dent_ino (inodes fs k) i)))
     else scan_dir fs k nm t (Suc i) (cont + (if used (inodes fs k) i then 1 else 0)))"
proof -
  let ?ino = "inodes fs k"
  have n: "terminated (dent_name ?ino i)" using dents_okD(1) [OF d i(1)] .
  have e: "strcmp (dent_name ?ino i) [0, 0] = Inr (cmp_str (cstr (dent_name ?ino i)) [])"
    "strcmp (dent_name ?ino i) nm = Inr (cmp_str (cstr (dent_name ?ino i)) (cstr nm))"
    using n nm by (simp_all add: strcmp_eq)
  show ?thesis
  proof (cases "used ?ino i")
    case True
    then have "unat (dent_ino ?ino i) < 32" using dents_okD(2) [OF d i(1)] by simp
    then show ?thesis using i True nm
      by (simp add: scan_dir.simps [of fs k nm t i cont] e matches_def used_def)
  next
    case False
    then show ?thesis using i
      by (simp add: scan_dir.simps [of fs k nm t i cont] e matches_def used_def)
  qed
qed

lemma scan_dir_from:
  assumes d: "dir_ok (inodes fs k)" and nm: "terminated nm" "cstr nm \<noteq> []"
  shows "i \<le> 1024 \<Longrightarrow> scan_dir fs k nm t i (used_count (inodes fs k) i) =
    Inr (index_of (map_option (\<lambda>i. unat (dent_ino (inodes fs k) i))
      (find (matches fs k (cstr nm) t) [i..<1024])))"
proof (induction "1024 - i" arbitrary: i)
  case 0
  then have "i = 1024" by simp
  moreover have "unat (isz (inodes fs k)) = used_count (inodes fs k) 1024"
    using d by (simp add: dir_ok_def)
  ultimately show ?case by (simp add: scan_dir.simps [of _ _ _ _ 1024])
next
  case (Suc n)
  let ?ino = "inodes fs k" and ?c = "used_count (inodes fs k) i"
  have i: "i < 1024" using Suc.hyps(2) by simp
  have sz: "unat (isz ?ino) = used_count ?ino 1024" and dd: "dents_ok ?ino"
    using d by (simp_all add: dir_ok_def)
  show ?case
  proof (cases "?c < unat (isz ?ino)")
    case True
    have "scan_dir fs k nm t (Suc i) (used_count ?ino (Suc i)) =
      Inr (index_of (map_option (\<lambda>i. unat (dent_ino ?ino i))
        (find (matches fs k (cstr nm) t) [Suc i..<1024])))"
      using Suc.hyps(1) [of "Suc i"] Suc.hyps(2) by simp
    then show ?thesis
      using scan_dir_step [OF dd i True nm, of t] by (simp add: find_from [OF i])
  next
    case False
    then have "filter (used ?ino) [i..<1024] = []"
      using sz used_count_split [of i 1024 ?ino] i by simp
    then have "find (matches fs k (cstr nm) t) [i..<1024] = None"
      by (auto simp: find_None_iff filter_empty_conv matches_def)
    with False show ?thesis by (simp add: scan_dir.simps [of fs k nm t i])
  qed
qed

lemma scan_dir_lookup:
  assumes "dir_ok (inodes fs k)" and "terminated nm" and "cstr nm \<noteq> []"
  shows "scan_dir fs k nm t 0 0 = Inr (index_of (dir_lookup fs k (cstr nm) t))"
  using scan_dir_from [OF assms, of 0 t] by (simp add: dir_lookup_def)

lemma scan_at_lookup:
  assumes "dir_ok (inodes fs k)" and "k < 32" and "terminated nm" and "cstr nm \<noteq> []"
  shows "scan_at fs (int k) nm t = Inr (index_of (dir_lookup fs k (cstr nm) t))"
  using scan_dir_lookup [OF assms(1,3,4)] assms(2) by (simp add: scan_at_def)

text \<open>
  A directory whose \<open>filenum\<close> counts one entry too many: a scan that finds nothing runs past
  the last entry.
\<close>

lemma scan_dir_overrun:
  assumes d: "dents_ok (inodes fs k)" and c: "used_count (inodes fs k) 1024 < unat (isz (inodes fs k))"
    and nm: "terminated nm" "cstr nm \<noteq> []" and no: "dir_lookup fs k (cstr nm) t = None"
  shows "scan_dir fs k nm t 0 0 = Inl OutOfBounds"
proof -
  have "scan_dir fs k nm t i (used_count (inodes fs k) i) = Inl OutOfBounds" if "i \<le> 1024" for i
    using that
  proof (induction "1024 - i" arbitrary: i)
    case 0
    then have "i = 1024" by simp
    with c show ?case by (simp add: scan_dir.simps [of _ _ _ _ 1024])
  next
    case (Suc n)
    have i: "i < 1024" using Suc.hyps(2) by simp
    have "used_count (inodes fs k) i \<le> used_count (inodes fs k) 1024"
      using used_count_split [of i 1024] i by simp
    with c have lt: "used_count (inodes fs k) i < unat (isz (inodes fs k))" by simp
    have "\<not> matches fs k (cstr nm) t i" using no i by (auto simp: dir_lookup_def find_None_iff)
    then show ?case using scan_dir_step [OF d i lt nm, of t] Suc.hyps(1) [of "Suc i"] Suc.hyps(2)
      by simp
  qed
  from this [of 0] show ?thesis by simp
qed


section \<open>Paths\<close>

text \<open>
  A directory name without its slash: not empty, no slash, no terminator, and short enough for
  the 28-byte buffers once slash and terminator are added. The last name of a path may end
  in a slash (a directory) or not (a file).
\<close>

definition component :: "u8 list \<Rightarrow> bool" where
  "component d \<longleftrightarrow> d \<noteq> [] \<and> 0 \<notin> set d \<and> slash \<notin> set d \<and> length d \<le> 26"

definition last_name :: "u8 list \<Rightarrow> bool" where
  "last_name n \<longleftrightarrow> n \<noteq> [] \<and> 0 \<notin> set n \<and> slash \<notin> set (butlast n)"

fun below :: "u8 list list \<Rightarrow> u8 list \<Rightarrow> u8 list" where
  "below [] q = q"
| "below (d # ds) q = d @ slash # below ds q"

text \<open>The path \<open>/d1/.../dk/n\<close>; \<open>r\<close> is whatever follows its terminator in memory.\<close>

definition render :: "u8 list list \<Rightarrow> u8 list \<Rightarrow> u8 list \<Rightarrow> u8 list" where
  "render ds n r = slash # below ds (n @ 0 # r)"

fun resolve :: "filesys \<Rightarrow> nat \<Rightarrow> u8 list list \<Rightarrow> nat option" where
  "resolve fs k [] = Some k"
| "resolve fs k (d # ds) =
     (case dir_lookup fs k (d @ [slash]) DIR of None \<Rightarrow> None | Some j \<Rightarrow> resolve fs j ds)"

lemma resolve_append: "resolve fs k (ds @ es) =
    (case resolve fs k ds of None \<Rightarrow> None | Some j \<Rightarrow> resolve fs j es)"
  by (induction ds arbitrary: k) (simp_all split: option.split)

text \<open>The globals \<open>top_dir\<close> and \<open>path_offset\<close> apart, the walks leave the file system alone.\<close>

definition same_files :: "filesys \<Rightarrow> filesys \<Rightarrow> bool" where
  "same_files fs fs' \<longleftrightarrow> inodes fs' = inodes fs \<and> superb fs' = superb fs \<and> length (top_dir fs') = 28"

lemma same_files_trans [trans]: "same_files f g \<Longrightarrow> same_files g h \<Longrightarrow> same_files f h"
  by (simp add: same_files_def)

lemma same_files_refl: "length (top_dir fs) = 28 \<Longrightarrow> same_files fs fs"
  by (simp add: same_files_def)

lemma same_files_inodes: "same_files fs fs' \<Longrightarrow> inodes fs' = inodes fs"
  by (simp add: same_files_def)

lemma dir_lookup_same: "inodes fs' = inodes fs \<Longrightarrow> dir_lookup fs' k nm t = dir_lookup fs k nm t"
proof -
  assume "inodes fs' = inodes fs"
  then have "matches fs' k nm t = matches fs k nm t" by (simp add: fun_eq_iff matches_def)
  then show ?thesis using \<open>inodes fs' = inodes fs\<close> by (simp add: dir_lookup_def)
qed

lemma resolve_same: "inodes fs' = inodes fs \<Longrightarrow> resolve fs' k ds = resolve fs k ds"
proof (induction ds arbitrary: k)
  case (Cons d ds)
  then show ?case by (simp add: dir_lookup_same [OF Cons.prems] cong: option.case_cong)
qed simp

lemma below_terminated [simp]: "terminated q \<Longrightarrow> terminated (below ds q)"
  by (induction ds) auto

lemma cstr_below: "\<forall>d\<in>set ds. component d \<Longrightarrow> cstr (below ds q) = below ds (cstr q)"
  by (induction ds) (auto simp: component_def)

lemma top_from_find:
  assumes "slash \<notin> set d" and "length d < len" and "length d + 1 < length td"
    and "i \<le> length d" and "take i td = take i d"
  shows "top_from (d @ slash # q) len i td =
    Inr (d @ slash # 0 # drop (length d + 2) td, Some (length d + 1))"
  using assms
proof (induction "length d - i" arbitrary: i td)
  case 0
  then have i: "i = length d" by simp
  obtain a b u where u: "drop (length d) td = a # b # u"
    using 0(4) by (metis One_nat_def Suc_eq_plus1 add_lessD1 Cons_nth_drop_Suc)
  have "td = take (length d) td @ drop (length d) td" by simp
  then have td: "td = d @ a # b # u" using 0 i u by simp
  then have "td[length d := slash, Suc (length d) := 0] = d @ slash # 0 # drop (length d + 2) td"
    by (simp add: list_update_append)
  then show ?case using 0 i
    by (simp add: top_from.simps [of _ len "length d" td] Let_def nth_append)
next
  case (Suc n)
  have i: "i < length d" using Suc.hyps(2) by simp
  have nth: "(d @ slash # q) ! i = d ! i" using i by (simp add: nth_append)
  have ns: "d ! i \<noteq> slash" using i Suc.prems(1) by (metis nth_mem)
  have tk: "take (Suc i) (td[i := d ! i]) = take (Suc i) d"
    using i Suc.prems by (simp add: take_Suc_conv_app_nth)
  have "top_from (d @ slash # q) len (Suc i) (td[i := d ! i]) =
      Inr (d @ slash # 0 # drop (length d + 2) (td[i := d ! i]), Some (length d + 1))"
    using Suc.hyps(1) [of "Suc i" "td[i := d ! i]"] Suc.hyps(2) Suc.prems i tk by simp
  then show ?case using i Suc.prems nth ns
    by (simp add: top_from.simps [of _ len i td] Let_def)
qed

lemma next_level_render:
  assumes d: "0 \<notin> set d" "slash \<notin> set d" "length d \<le> 26" and q: "terminated q"
    and td: "length (top_dir fs) = 28"
  shows "\<exists>fs' dir. next_level fs (d @ slash # q) = Inr (fs', dir, q)
    \<and> same_files fs fs' \<and> terminated dir \<and> cstr dir = d @ [slash]"
proof -
  let ?td = "d @ slash # 0 # drop (length d + 2) (top_dir fs)"
  let ?fs = "fs\<lparr>top_dir := ?td, path_offset := length d + 1\<rparr>"
  let ?dir = "(d @ [slash]) @ 0 # drop (length d + 2) name_buf"
  have t: "terminated (d @ slash # q)" "cstr (d @ slash # q) = d @ slash # cstr q"
    using d(1) q by auto
  have z: "0 \<notin> set (d @ [slash])" using d(1) by simp
  have "getTopDir fs (d @ slash # q) = Inr ?fs"
    using top_from_find [OF d(2), of "length d + Suc (length (cstr q))" "top_dir fs" 0 q] t td d(3)
    by (simp add: getTopDir_def strlen_eq)
  moreover have "strcpy name_buf ?td = Inr ?dir"
    using cstr_append_zero [OF z] d(3) by (simp add: strcpy_eq name_buf_def)
  ultimately have "next_level fs (d @ slash # q) = Inr (?fs, ?dir, q)"
    using d(3) by (simp add: next_level_def advance_def)
  moreover have "terminated ?dir" "cstr ?dir = d @ [slash]"
    using cstr_append_zero [OF z] by (simp_all only: terminated_append_zero)
  moreover have "same_files fs ?fs" using d(3) td by (simp add: same_files_def)
  ultimately show ?thesis by blast
qed

lemma lastLevel_eq:
  assumes "terminated p"
  shows "lastLevel p = Inr (slash \<notin> set (butlast (cstr p)))"
proof -
  let ?n = "length (cstr p)"
  have "(\<exists>j < ?n. p ! j = slash \<and> j \<noteq> ?n - 1) \<longleftrightarrow> slash \<in> set (butlast (cstr p))"
  proof
    assume "\<exists>j < ?n. p ! j = slash \<and> j \<noteq> ?n - 1"
    then obtain j where j': "j < ?n" "p ! j = slash" "j \<noteq> ?n - 1" by blast
    then have j: "j < ?n - 1" "p ! j = slash" by simp_all
    then have "butlast (cstr p) ! j = slash" using cstr_prefix [of j p] by (simp add: nth_butlast)
    then show "slash \<in> set (butlast (cstr p))" using j(1) by (metis length_butlast nth_mem)
  next
    assume "slash \<in> set (butlast (cstr p))"
    then obtain j where j: "j < ?n - 1" "butlast (cstr p) ! j = slash"
      by (metis in_set_conv_nth length_butlast)
    then have "p ! j = slash" using cstr_prefix [of j p] by (simp add: nth_butlast)
    then show "\<exists>j < ?n. p ! j = slash \<and> j \<noteq> ?n - 1" using j(1) by (intro exI [of _ j]) simp
  qed
  then have "slashes_from p ?n 0 0 = 0 \<longleftrightarrow> slash \<notin> set (butlast (cstr p))"
    by (auto simp: slashes_from_eq filter_empty_conv)
  with assms show ?thesis by (simp add: lastLevel_def strlen_eq)
qed

lemma lastLevel_last: "last_name n \<Longrightarrow> lastLevel (n @ 0 # r) = Inr True"
  by (simp add: lastLevel_eq last_name_def)

lemma last_name_nonempty: "last_name n \<Longrightarrow> below ds n \<noteq> []"
  by (cases ds) (auto simp: last_name_def)

lemma lastLevel_below:
  assumes "component d" and "\<forall>e\<in>set ds. component e" and n: "last_name n"
  shows "lastLevel (d @ slash # below ds (n @ 0 # r)) = Inr False"
proof -
  have "cstr (below ds (n @ 0 # r)) = below ds n"
    using assms(2) n by (simp add: cstr_below last_name_def)
  then have "cstr (d @ slash # below ds (n @ 0 # r)) = (d @ [slash]) @ below ds n"
    using assms(1) by (simp add: component_def)
  then have "slash \<in> set (butlast (cstr (d @ slash # below ds (n @ 0 # r))))"
    using last_name_nonempty [OF n, of ds] by (simp add: butlast_append)
  then show ?thesis by (simp add: lastLevel_eq)
qed

text \<open>Every inode of type \<open>DIR\<close> holds a directory in good order, and inode 0 is the root.\<close>

definition dirs_ok :: "filesys \<Rightarrow> bool" where
  "dirs_ok fs \<longleftrightarrow> itype (inodes fs 0) = DIR \<and> length (top_dir fs) = 28
     \<and> (\<forall>k < 32. itype (inodes fs k) = DIR \<longrightarrow> dir_ok (inodes fs k))"

lemma dirs_ok_same: "dirs_ok fs \<Longrightarrow> same_files fs fs' \<Longrightarrow> dirs_ok fs'"
  by (simp add: dirs_ok_def same_files_def)

lemma dirs_okD: "dirs_ok fs \<Longrightarrow> k < 32 \<Longrightarrow> itype (inodes fs k) = DIR \<Longrightarrow> dir_ok (inodes fs k)"
  by (simp add: dirs_ok_def)

lemma dir_lookup_Some:
  assumes "dir_ok (inodes fs k)" and "dir_lookup fs k nm t = Some j"
  shows "j < 32 \<and> itype (inodes fs j) = t \<and> (\<exists>i < 1024. matches fs k nm t i
    \<and> j = unat (dent_ino (inodes fs k) i))"
proof -
  obtain i where "find (matches fs k nm t) [0..<1024] = Some i"
    and j: "j = unat (dent_ino (inodes fs k) i)"
    using assms(2) by (auto simp: dir_lookup_def)
  then have "i < 1024" and m: "matches fs k nm t i" by (auto simp: find_Some_iff)
  moreover have "j < 32" and "itype (inodes fs j) = t"
    using assms(1) \<open>i < 1024\<close> m j by (auto simp: dir_ok_def matches_def dest: dents_okD)
  ultimately show ?thesis using j by blast
qed

lemma resolve_dir:
  "dirs_ok fs \<Longrightarrow> k < 32 \<Longrightarrow> itype (inodes fs k) = DIR \<Longrightarrow> resolve fs k ds = Some j \<Longrightarrow>
    j < 32 \<and> itype (inodes fs j) = DIR"
proof (induction ds arbitrary: k)
  case (Cons d ds)
  then obtain m where m: "dir_lookup fs k (d @ [slash]) DIR = Some m" "resolve fs m ds = Some j"
    by (auto split: option.splits)
  with dir_lookup_Some [OF dirs_okD [OF Cons.prems(1-3)]] have "m < 32 \<and> itype (inodes fs m) = DIR"
    by blast
  with Cons.IH Cons.prems(1) m(2) show ?case by blast
qed simp

text \<open>One turn of the loop on a path with a directory in front.\<close>

lemma walk_step:
  assumes ok: "dirs_ok fs" and k: "k < 32" "itype (inodes fs k) = DIR"
    and p: "component d" "\<forall>e\<in>set ds. component e" "last_name n"
  shows "\<exists>fs'. same_files fs fs' \<and> walk strict fs (below (d # ds) (n @ 0 # r)) (int k) =
    (let index = index_of (dir_lookup fs k (d @ [slash]) DIR);
         rest = walk strict fs' (below ds (n @ 0 # r)) index
     in case strict of Some line \<Rightarrow> require (index \<noteq> -1) (AssertFail ''fs.c'' line) rest | None \<Rightarrow> rest)"
proof -
  have td: "length (top_dir fs) = 28" using ok by (simp add: dirs_ok_def)
  have c: "0 \<notin> set d" "slash \<notin> set d" "length d \<le> 26" using p(1) by (auto simp: component_def)
  obtain fs' dir where nl: "next_level fs (d @ slash # below ds (n @ 0 # r)) =
      Inr (fs', dir, below ds (n @ 0 # r))"
    and s: "same_files fs fs'" and dir: "terminated dir" "cstr dir = d @ [slash]"
    using next_level_render [OF c _ td, of "below ds (n @ 0 # r)"] by auto
  note i = same_files_inodes [OF s]
  have "scan_at fs' (int k) dir DIR = Inr (index_of (dir_lookup fs k (d @ [slash]) DIR))"
    using scan_at_lookup [of fs' k dir DIR] dirs_okD [OF ok k] k(1) dir
    by (simp add: i dir_lookup_same [OF i])
  then have "walk strict fs (below (d # ds) (n @ 0 # r)) (int k) =
    (let index = index_of (dir_lookup fs k (d @ [slash]) DIR);
         rest = walk strict fs' (below ds (n @ 0 # r)) index
     in case strict of Some line \<Rightarrow> require (index \<noteq> -1) (AssertFail ''fs.c'' line) rest | None \<Rightarrow> rest)"
    by (subst walk.simps) (simp add: lastLevel_below [OF p] nl Let_def)
  with s show ?thesis by blast
qed

lemma walk_found:
  assumes "dirs_ok fs" and "k < 32" and "itype (inodes fs k) = DIR"
    and "\<forall>d\<in>set ds. component d" and n: "last_name n" and "resolve fs k ds = Some j"
  shows "\<exists>fs'. same_files fs fs' \<and>
    walk strict fs (below ds (n @ 0 # r)) (int k) = Inr (fs', n @ 0 # r, int j)"
  using assms(1-4,6)
proof (induction ds arbitrary: fs k)
  case Nil
  then show ?case
    by (intro exI [of _ fs]) (simp add: walk.simps lastLevel_last [OF n] dirs_ok_def same_files_refl)
next
  case (Cons d ds)
  have p: "component d" "\<forall>e\<in>set ds. component e" using Cons.prems(4) by auto
  obtain m where m: "dir_lookup fs k (d @ [slash]) DIR = Some m" "resolve fs m ds = Some j"
    using Cons.prems(5) by (auto split: option.splits)
  obtain fs1 where s: "same_files fs fs1"
    and w: "walk strict fs (below (d # ds) (n @ 0 # r)) (int k) = walk strict fs1 (below ds (n @ 0 # r)) (int m)"
    using walk_step [OF Cons.prems(1-3) p n, of strict r] m(1)
    by (auto simp: Let_def split: option.splits)
  note i = same_files_inodes [OF s]
  have "m < 32 \<and> itype (inodes fs m) = DIR"
    using dir_lookup_Some [OF dirs_okD [OF Cons.prems(1-3)] m(1)] by simp
  then show ?case
    using Cons.IH [of fs1 m] dirs_ok_same [OF Cons.prems(1) s] p(2) m(2) w same_files_trans [OF s]
    by (auto simp: i resolve_same [OF i])
qed

text \<open>A missing directory: the assertion of the file and directory walks.\<close>

lemma walk_strict_missing:
  assumes "dirs_ok fs" and "k < 32" and "itype (inodes fs k) = DIR"
    and "\<forall>d\<in>set ds. component d" and n: "last_name n" and "resolve fs k ds = None"
  shows "walk (Some line) fs (below ds (n @ 0 # r)) (int k) = Inl (AssertFail ''fs.c'' line)"
  using assms(1-4,6)
proof (induction ds arbitrary: fs k)
  case (Cons d ds)
  have p: "component d" "\<forall>e\<in>set ds. component e" using Cons.prems(4) by auto
  obtain fs1 where s: "same_files fs fs1"
    and w: "walk (Some line) fs (below (d # ds) (n @ 0 # r)) (int k) =
      (let index = index_of (dir_lookup fs k (d @ [slash]) DIR)
       in require (index \<noteq> -1) (AssertFail ''fs.c'' line)
            (walk (Some line) fs1 (below ds (n @ 0 # r)) index))"
    using walk_step [OF Cons.prems(1-3) p n, of "Some line" r] by (auto simp: Let_def)
  note i = same_files_inodes [OF s]
  show ?case
  proof (cases "dir_lookup fs k (d @ [slash]) DIR")
    case None
    then show ?thesis using w by (simp add: Let_def)
  next
    case (Some m)
    have "m < 32 \<and> itype (inodes fs m) = DIR"
      using dir_lookup_Some [OF dirs_okD [OF Cons.prems(1-3)] Some] by simp
    then show ?thesis
      using Cons.IH [of fs1 m] dirs_ok_same [OF Cons.prems(1) s] p(2) Some Cons.prems(5) w
      by (simp add: i resolve_same [OF i] Let_def)
  qed
qed simp


text \<open>
  Without the assertion, in \<open>findUpperDirPos\<close>: a missing last directory gives -1, and after an
  earlier one the walk goes on from inode -1.
\<close>

lemma walk_from_minus1:
  assumes td: "length (top_dir fs) = 28" and p: "\<forall>d\<in>set ds. component d" and n: "last_name n"
  shows "walk None fs (below ds (n @ 0 # r)) (-1) =
    (if ds = [] then Inr (fs, n @ 0 # r, -1) else Inl OutOfBounds)"
proof (cases ds)
  case Nil
  then show ?thesis by (simp add: walk.simps lastLevel_last [OF n])
next
  case (Cons d es)
  have c: "0 \<notin> set d" "slash \<notin> set d" "length d \<le> 26"
    using p Cons by (auto simp: component_def)
  obtain fs' dir where "next_level fs (d @ slash # below es (n @ 0 # r)) =
      Inr (fs', dir, below es (n @ 0 # r))"
    using next_level_render [OF c _ td, of "below es (n @ 0 # r)"] by auto
  moreover have "lastLevel (d @ slash # below es (n @ 0 # r)) = Inr False"
    using lastLevel_below [of d es n r] p Cons n by simp
  ultimately show ?thesis using Cons
    by (simp add: walk.simps scan_at_def inode_at_def)
qed

lemma walk_lax_missing:
  assumes "dirs_ok fs" and "k < 32" and "itype (inodes fs k) = DIR"
    and "\<forall>d\<in>set ds. component d" and n: "last_name n" and "resolve fs k ds = None"
  shows "if resolve fs k (butlast ds) = None
    then walk None fs (below ds (n @ 0 # r)) (int k) = Inl OutOfBounds
    else \<exists>fs'. same_files fs fs' \<and> walk None fs (below ds (n @ 0 # r)) (int k) = Inr (fs', n @ 0 # r, -1)"
  using assms(1-4,6)
proof (induction ds arbitrary: fs k)
  case (Cons d ds)
  have p: "component d" "\<forall>e\<in>set ds. component e" using Cons.prems(4) by auto
  obtain fs1 where s: "same_files fs fs1"
    and w: "walk None fs (below (d # ds) (n @ 0 # r)) (int k) =
      walk None fs1 (below ds (n @ 0 # r)) (index_of (dir_lookup fs k (d @ [slash]) DIR))"
    using walk_step [OF Cons.prems(1-3) p n, of None r] by (auto simp: Let_def)
  note i = same_files_inodes [OF s]
  show ?case
  proof (cases "dir_lookup fs k (d @ [slash]) DIR")
    case None
    then show ?thesis using w s walk_from_minus1 [OF _ p(2) n, of fs1 r]
      by (auto simp: same_files_def)
  next
    case (Some m)
    have m: "m < 32 \<and> itype (inodes fs m) = DIR"
      using dir_lookup_Some [OF dirs_okD [OF Cons.prems(1-3)] Some] by simp
    have ne: "ds \<noteq> []" using Cons.prems(5) Some by auto
    have "if resolve fs m (butlast ds) = None
      then walk None fs1 (below ds (n @ 0 # r)) (int m) = Inl OutOfBounds
      else \<exists>fs'. same_files fs1 fs' \<and> walk None fs1 (below ds (n @ 0 # r)) (int m) = Inr (fs', n @ 0 # r, -1)"
      using Cons.IH [of fs1 m] dirs_ok_same [OF Cons.prems(1) s] p(2) Some Cons.prems(5) m
      by (simp add: i resolve_same [OF i])
    then show ?thesis using w Some ne same_files_trans [OF s] by (auto split: if_splits)
  qed
qed simp

section \<open>The three lookups\<close>

text \<open>The first component of an absolute path is the slash itself.\<close>

lemma next_level_root:
  assumes "dirs_ok fs" and "terminated q"
  shows "\<exists>fs' dir. next_level fs (slash # q) = Inr (fs', dir, q) \<and> same_files fs fs' \<and> dirs_ok fs'
    \<and> itype (inodes fs' 0) = DIR"
proof -
  obtain fs' dir where "next_level fs (slash # q) = Inr (fs', dir, q)" and s: "same_files fs fs'"
    using next_level_render [of "[]" q fs] assms by (auto simp: dirs_ok_def)
  moreover have "dirs_ok fs'" by (rule dirs_ok_same [OF assms(1) s])
  ultimately show ?thesis by (auto simp: dirs_ok_def)
qed

lemma render_not_root:
  assumes "\<forall>d\<in>set ds. component d" and "last_name n"
  shows "\<exists>c. strcmp (render ds n r) root_path = Inr c \<and> c \<noteq> 0"
proof -
  have "cstr (render ds n r) = slash # below ds n"
    using assms by (simp add: render_def cstr_below last_name_def)
  then show ?thesis
    using last_name_nonempty [OF assms(2), of ds]
    by (simp add: strcmp_eq root_path_def) (simp add: render_def)
qed

lemma root_walk:
  assumes ok: "dirs_ok fs" and p: "\<forall>d\<in>set ds. component d" and n: "last_name n"
  obtains fs1 dir where "next_level fs (render ds n r) = Inr (fs1, dir, below ds (n @ 0 # r))"
    and "\<And>strict j. resolve fs 0 ds = Some j \<Longrightarrow>
      \<exists>fs'. same_files fs fs' \<and> walk strict fs1 (below ds (n @ 0 # r)) 0 = Inr (fs', n @ 0 # r, int j)"
    and "\<And>line. resolve fs 0 ds = None \<Longrightarrow>
      walk (Some line) fs1 (below ds (n @ 0 # r)) 0 = Inl (AssertFail ''fs.c'' line)"
    and "resolve fs 0 ds = None \<Longrightarrow> if resolve fs 0 (butlast ds) = None
      then walk None fs1 (below ds (n @ 0 # r)) 0 = Inl OutOfBounds
      else \<exists>fs'. same_files fs fs' \<and> walk None fs1 (below ds (n @ 0 # r)) 0 = Inr (fs', n @ 0 # r, -1)"
proof -
  obtain fs1 dir where nl: "next_level fs (render ds n r) = Inr (fs1, dir, below ds (n @ 0 # r))"
    and s: "same_files fs fs1" and o1: "dirs_ok fs1" "itype (inodes fs1 0) = DIR"
    using next_level_root [OF ok, of "below ds (n @ 0 # r)"] by (auto simp: render_def)
  note i = same_files_inodes [OF s] and rs = resolve_same [OF same_files_inodes [OF s]]
  show ?thesis
  proof (rule that [OF nl])
    fix strict j assume "resolve fs 0 ds = Some j"
    then show "\<exists>fs'. same_files fs fs' \<and> walk strict fs1 (below ds (n @ 0 # r)) 0 = Inr (fs', n @ 0 # r, int j)"
      using walk_found [OF o1(1) _ o1(2) p n, of j strict r] same_files_trans [OF s] by (auto simp: rs)
  next
    fix line assume "resolve fs 0 ds = None"
    then show "walk (Some line) fs1 (below ds (n @ 0 # r)) 0 = Inl (AssertFail ''fs.c'' line)"
      using walk_strict_missing [OF o1(1) _ o1(2) p n, of line r] by (simp add: rs)
  next
    assume "resolve fs 0 ds = None"
    then show "if resolve fs 0 (butlast ds) = None
      then walk None fs1 (below ds (n @ 0 # r)) 0 = Inl OutOfBounds
      else \<exists>fs'. same_files fs fs' \<and> walk None fs1 (below ds (n @ 0 # r)) 0 = Inr (fs', n @ 0 # r, -1)"
      using walk_lax_missing [OF o1(1) _ o1(2) p n, of r] same_files_trans [OF s]
      by (auto simp: rs split: if_splits)
  qed
qed

text \<open>The last scan, in the directory the walk reached.\<close>

lemma final_scan:
  assumes ok: "dirs_ok fs" and n: "last_name n" and r: "resolve fs 0 ds = Some j" and s: "same_files fs fs'"
  shows "scan_at fs' (int j) (n @ 0 # q) t = Inr (index_of (dir_lookup fs j n t))"
proof -
  note i = same_files_inodes [OF s]
  have "j < 32" "dir_ok (inodes fs j)"
    using resolve_dir [OF ok _ _ r] ok dirs_okD [OF ok] by (auto simp: dirs_ok_def)
  then show ?thesis using scan_at_lookup [of fs' j "n @ 0 # q" t] n
    by (simp add: i dir_lookup_same [OF i] last_name_def)
qed

lemma findCurrentFLPos_spec:
  assumes ok: "dirs_ok fs" and p: "\<forall>d\<in>set ds. component d" and n: "last_name n"
  shows "case resolve fs 0 ds of
      None \<Rightarrow> findCurrentFLPos fs (render ds n r) = Inl (AssertFail ''fs.c'' 195)
    | Some j \<Rightarrow> \<exists>fs'. same_files fs fs' \<and>
        findCurrentFLPos fs (render ds n r) = Inr (index_of (dir_lookup fs j n FL), fs')"
proof (cases "resolve fs 0 ds")
  case None
  then show ?thesis by - (rule root_walk [OF ok p n, of r], simp add: findCurrentFLPos_def)
next
  case (Some j)
  obtain fs1 dir fs' where "next_level fs (render ds n r) = Inr (fs1, dir, below ds (n @ 0 # r))"
    and s: "same_files fs fs'" and "walk (Some 195) fs1 (below ds (n @ 0 # r)) 0 = Inr (fs', n @ 0 # r, int j)"
    using root_walk [OF ok p n, of r] Some by metis
  then show ?thesis using final_scan [OF ok n Some s, of r FL] Some by (simp add: findCurrentFLPos_def)
qed

lemma findCurrentDirPos_spec:
  assumes ok: "dirs_ok fs" and p: "\<forall>d\<in>set ds. component d" and n: "last_name n"
  shows "case resolve fs 0 ds of
      None \<Rightarrow> findCurrentDirPos fs (render ds n r) = Inl (AssertFail ''fs.c'' 137)
    | Some j \<Rightarrow> \<exists>fs'. same_files fs fs' \<and>
        findCurrentDirPos fs (render ds n r) = Inr (index_of (dir_lookup fs j n DIR), fs')"
proof -
  obtain c where c: "strcmp (render ds n r) root_path = Inr c" "c \<noteq> 0"
    using render_not_root [OF p n] by blast
  show ?thesis
  proof (cases "resolve fs 0 ds")
    case None
    then show ?thesis using c by - (rule root_walk [OF ok p n, of r], simp add: findCurrentDirPos_def)
  next
    case (Some j)
    obtain fs1 dir fs' where "next_level fs (render ds n r) = Inr (fs1, dir, below ds (n @ 0 # r))"
      and s: "same_files fs fs'" and "walk (Some 137) fs1 (below ds (n @ 0 # r)) 0 = Inr (fs', n @ 0 # r, int j)"
      using root_walk [OF ok p n, of r] Some by metis
    then show ?thesis using final_scan [OF ok n Some s, of r DIR] Some c
      by (simp add: findCurrentDirPos_def)
  qed
qed

lemma findUpperDirPos_spec:
  assumes ok: "dirs_ok fs" and p: "\<forall>d\<in>set ds. component d" and n: "last_name n"
  shows "if resolve fs 0 ds = None \<and> resolve fs 0 (butlast ds) = None
    then findUpperDirPos fs (render ds n r) = Inl OutOfBounds
    else \<exists>fs'. same_files fs fs' \<and>
      findUpperDirPos fs (render ds n r) = Inr (index_of (resolve fs 0 ds), fs')"
proof -
  obtain c where c: "strcmp (render ds n r) root_path = Inr c" "c \<noteq> 0"
    using render_not_root [OF p n] by blast
  show ?thesis
  proof (cases "resolve fs 0 ds")
    case None
    then show ?thesis using c
      by - (rule root_walk [OF ok p n, of r], auto simp: findUpperDirPos_def split: if_splits)
  next
    case (Some j)
    obtain fs1 dir fs' where "next_level fs (render ds n r) = Inr (fs1, dir, below ds (n @ 0 # r))"
      and "same_files fs fs'" and "walk None fs1 (below ds (n @ 0 # r)) 0 = Inr (fs', n @ 0 # r, int j)"
      using root_walk [OF ok p n, of r] Some by metis
    then show ?thesis using Some c by (simp add: findUpperDirPos_def)
  qed
qed

end
