(* ===== verification/Fsops.thy ===== *)
theory Fsops
  imports Lookup
begin

text \<open>
  The operations of kernel/kernel/fs.c that change the file system: allocation of inodes and
  directory entries, \<open>makeDir\<close>, \<open>makeFL\<close>, \<open>rmFL\<close>, \<open>makeRootDir\<close>, and the transfer loops
  \<open>writeF\<close> and \<open>readF\<close>. Each takes the file system and returns the new one or a fault.
\<close>

section \<open>Allocation\<close>

function avl_inode_from :: "filesys \<Rightarrow> nat \<Rightarrow> int" where
  "avl_inode_from fs i =
     (if i < NR_INODE
      then if inode_map (superb fs) i = available then int i else avl_inode_from fs (i + 1)
      else -1)"
  by pat_completeness auto
termination
  by (relation "measure (\<lambda>(fs, i). NR_INODE - i)") auto

definition getAvlInode :: "filesys \<Rightarrow> int" where
  "getAvlInode fs = avl_inode_from fs 0"

function avl_dirdata_from :: "inodeblock \<Rightarrow> nat \<Rightarrow> int exec" where
  "avl_dirdata_from ino i =
     (if i < NR_DIRDATA
      then bind_r (strcmp (dent_name ino i) [0, 0]) (\<lambda>c.
             if c = 0 then Inr (int i) else avl_dirdata_from ino (i + 1))
      else Inr (-1))"
  by pat_completeness auto
termination
  by (relation "measure (\<lambda>(ino, i). NR_DIRDATA - i)") auto

declare avl_inode_from.simps [simp del] avl_dirdata_from.simps [simp del]

definition getAvlDirdata :: "filesys \<Rightarrow> int \<Rightarrow> int exec" where
  "getAvlDirdata fs p_index =
     bind_r (inode_at fs p_index) (\<lambda>ino. avl_dirdata_from ino 0)"


section \<open>Making directories and files\<close>

definition inuse_inc :: "filesys \<Rightarrow> filesys" where
  "inuse_inc fs = fs\<lparr>superb := (superb fs)\<lparr>inuse_inode_num := inuse_inode_num (superb fs) + 1\<rparr>\<rparr>"

definition set_inode_map :: "filesys \<Rightarrow> nat \<Rightarrow> u8 \<Rightarrow> filesys" where
  "set_inode_map fs k v = fs\<lparr>superb := (superb fs)\<lparr>inode_map := (inode_map (superb fs))(k := v)\<rparr>\<rparr>"

text \<open>The three statements that enter \<open>name\<close> with inode \<open>index\<close> into the directory \<open>p\<close>.\<close>

definition enter_dent :: "filesys \<Rightarrow> nat \<Rightarrow> nat \<Rightarrow> int \<Rightarrow> u8 list \<Rightarrow> filesys exec" where
  "enter_dent fs p i index name =
     (let ino = set_dent_ino (inodes fs p) i (word_of_int index)
      in bind_r (strcpy_dent ino i name) (\<lambda>ino.
           Inr (put_inode fs p (ino\<lparr>isz := isz ino + 1\<rparr>))))"

text \<open>\<open>strcpy(fs_inodepointer[k].filename, name)\<close>\<close>

definition strcpy_iname :: "inodeblock \<Rightarrow> u8 list \<Rightarrow> inodeblock exec" where
  "strcpy_iname ino name = bind_r (strcpy (iname ino) name) (\<lambda>s. Inr (ino\<lparr>iname := s\<rparr>))"

text \<open>The local \<open>lastLevelName\<close> of \<open>makeDir\<close>, with a slash appended unless it has one.\<close>

definition dir_name_of :: "u8 list \<Rightarrow> u8 list exec" where
  "dir_name_of abspath =
     bind_r (getLastLevelName abspath) (\<lambda>last.
     bind_r (strcpy name_buf last) (\<lambda>name.
     bind_r (strlen name) (\<lambda>len.
       require (1 \<le> len) OutOfBounds
         (if name ! (len - 1) \<noteq> slash
          then require (len + 1 < length name) OutOfBounds
                 (Inr (name[len := slash, len + 1 := 0]))
          else Inr name))))"

text \<open>The initial entries \<open>.\<close> and \<open>..\<close> of a directory.\<close>

definition dot_entries :: "inodeblock \<Rightarrow> int \<Rightarrow> int \<Rightarrow> inodeblock exec" where
  "dot_entries ino self up =
     bind_r (strcpy_dent (set_dent_ino ino 0 (word_of_int self)) 0 (c_lit ''.'')) (\<lambda>ino.
     bind_r (strcpy_dent (set_dent_ino ino 1 (word_of_int up)) 1 (c_lit ''..'')) (\<lambda>ino.
       Inr (ino\<lparr>isz := 2\<rparr>)))"

text \<open>The result of \<open>makeDir\<close> holds, besides the file system, what it printed.\<close>

definition makeDir :: "filesys \<Rightarrow> u8 list \<Rightarrow> (filesys \<times> u8 list) exec" where
  "makeDir fs abspath =
     (let index = getAvlInode fs
      in if index = -1 then Inr (fs, map of_char ''abspath error\<newline>'')
         else
           bind_r (findUpperDirPos fs abspath) (\<lambda>(p_index, fs).
             if p_index = -1 then Inr (fs, map of_char ''abspath error\<newline>'')
             else
               let fs = inuse_inc fs
               in bind_r (dir_name_of abspath) (\<lambda>lastLevelName.
                  bind_r (getAvlDirdata fs p_index) (\<lambda>dirdata_index.
                    require (dirdata_index \<noteq> -1) (AssertFail ''fs.c'' 265)
                    (bind_r (enter_dent fs (nat p_index) (nat dirdata_index) index lastLevelName) (\<lambda>fs.
                     bind_r (strcpy_iname ((inodes fs (nat index))\<lparr>itype := DIR\<rparr>) lastLevelName) (\<lambda>ino.
                     bind_r (dot_entries ino index p_index) (\<lambda>ino.
                       Inr (set_inode_map (inuse_inc (put_inode fs (nat index) ino)) (nat index) inuse, [])))))))))"

text \<open>\<open>data\<close> is NULL (\<open>None\<close>) in every call of the kernel.\<close>

definition store_data :: "inodeblock \<Rightarrow> u8 list option \<Rightarrow> inodeblock exec" where
  "store_data ino data =
     (case data of
        None \<Rightarrow> Inr ino
      | Some s \<Rightarrow>
          bind_r (strlen s) (\<lambda>n.
          bind_r (strcpy (get_bytes (idata ino) 0 MAX_FILE_SZ) s) (\<lambda>bs.
            Inr (ino\<lparr>isz := word_of_nat n, idata := put_bytes (idata ino) 0 bs\<rparr>))))"

definition makeFL :: "filesys \<Rightarrow> u8 list \<Rightarrow> u8 list option \<Rightarrow> filesys exec" where
  "makeFL fs abspath data =
     (let index = getAvlInode fs
      in require (index \<noteq> -1) (AssertFail ''fs.c'' 316)
         (bind_r (findUpperDirPos fs abspath) (\<lambda>(p_index, fs).
            require (p_index \<noteq> -1) (AssertFail ''fs.c'' 316)
              (let fs = inuse_inc fs
               in bind_r (getLastLevelName abspath) (\<lambda>last.
                  bind_r (strcpy name_buf last) (\<lambda>lastLevelName.
                  bind_r (getAvlDirdata fs p_index) (\<lambda>dirdata_index.
                    require (dirdata_index \<noteq> -1) (AssertFail ''fs.c'' 298)
                    (bind_r (enter_dent fs (nat p_index) (nat dirdata_index) index lastLevelName) (\<lambda>fs.
                     bind_r (strcpy_iname ((inodes fs (nat index))\<lparr>itype := FL\<rparr>) lastLevelName) (\<lambda>ino.
                     bind_r (store_data ino data) (\<lambda>ino.
                       Inr (set_inode_map (inuse_inc (put_inode fs (nat index) ino)) (nat index) inuse))))))))))))"


section \<open>Removing a file\<close>

text \<open>The loop of \<open>rmFL\<close>; \<open>filenum\<close> bounds it and is not changed.\<close>

function rm_from :: "filesys \<Rightarrow> nat \<Rightarrow> u8 list \<Rightarrow> nat \<Rightarrow> nat \<Rightarrow> filesys exec" where
  "rm_from fs p filename i cont =
     (if cont < unat (isz (inodes fs p))
      then require (i < NR_DIRDATA) OutOfBounds
        (bind_r (strcmp (dent_name (inodes fs p) i) [0, 0]) (\<lambda>c.
           if c \<noteq> 0
           then bind_r (strcmp filename (dent_name (inodes fs p) i)) (\<lambda>d.
             if d = 0
             then bind_r (strcpy_dent (set_dent_ino (inodes fs p) i 0) i [0, 0]) (\<lambda>ino.
               Inr (put_inode fs p ino))
             else rm_from fs p filename (i + 1) (cont + 1))
           else rm_from fs p filename (i + 1) cont))
      else Inr fs)"
  by pat_completeness auto
termination
  by (relation "measure (\<lambda>(fs, p, filename, i, cont). NR_DIRDATA - i)") auto

declare rm_from.simps [simp del]

definition rmFL :: "filesys \<Rightarrow> u8 list \<Rightarrow> filesys exec" where
  "rmFL fs abspath =
     bind_r (findCurrentFLPos fs abspath) (\<lambda>(index, fs).
     bind_r (findUpperDirPos fs abspath) (\<lambda>(p_index, fs).
     bind_r (inode_at fs index) (\<lambda>ino.
     bind_r (inode_at fs p_index) (\<lambda>_.
     bind_r (rm_from fs (nat p_index) (iname ino) 0 0) (\<lambda>fs.
       Inr (set_inode_map fs (nat index) 0))))))"

definition makeRootDir :: "filesys \<Rightarrow> filesys exec" where
  "makeRootDir fs =
     bind_r (strcpy_iname ((inodes fs 0)\<lparr>itype := DIR\<rparr>) (c_lit ''/'')) (\<lambda>ino.
     bind_r (dot_entries (ino\<lparr>isz := 2\<rparr>) 0 0) (\<lambda>ino.
       Inr (set_inode_map (inuse_inc (put_inode fs 0 ino)) 0 inuse)))"


section \<open>Reading and writing\<close>

text \<open>
  \<open>buf\<close> is the byte at each offset from the caller's pointer. The index \<open>i + offset\<close> is an
  \<open>int\<close> and may be negative; the comparisons with \<open>filesz\<close> are unsigned.
\<close>

definition datablock_index :: "int \<Rightarrow> int \<Rightarrow> nat exec" where
  "datablock_index i offset =
     (let j = wrap32 (i + offset) in require (0 \<le> j \<and> j < 32768) OutOfBounds (Inr (nat j)))"

function write_from :: "inodeblock \<Rightarrow> (nat \<Rightarrow> u8) \<Rightarrow> int \<Rightarrow> int \<Rightarrow> int \<Rightarrow> (int \<times> inodeblock) exec" where
  "write_from ino buf len offset i =
     (if i < len
      then bind_r (datablock_index i offset) (\<lambda>j.
             write_from (ino\<lparr>idata := (idata ino)(j := buf (nat i))\<rparr>) buf len offset (i + 1))
      else Inr (i, ino))"
  by pat_completeness auto
termination
  by (relation "measure (\<lambda>(ino, buf, len, offset, i). nat (len - i))") auto

definition writeF :: "filesys \<Rightarrow> int \<Rightarrow> (nat \<Rightarrow> u8) \<Rightarrow> int \<Rightarrow> int \<Rightarrow> (int \<times> filesys) exec" where
  "writeF fs index buf len offset =
     require (wrap32 (len + offset) < 32768) (AssertFail ''fs.c'' 363)
       (bind_r (inode_at fs index) (\<lambda>ino.
        bind_r (write_from ino buf len offset 0) (\<lambda>(i, ino).
          let end = (word_of_int (offset + len) :: u32);
              ino = ino\<lparr>isz := (if isz ino > end then isz ino else end)\<rparr>
          in Inr (i, put_inode fs (nat index) ino))))"

text \<open>\<open>readF\<close> returns the count and the bytes it stored at \<open>buf\<close>.\<close>

function read_from :: "inodeblock \<Rightarrow> int \<Rightarrow> int \<Rightarrow> int \<Rightarrow> u8 list \<Rightarrow> (int \<times> u8 list) exec" where
  "read_from ino len offset i acc =
     (if i < len \<and> (word_of_int (i + offset) :: u32) < isz ino
      then bind_r (datablock_index i offset) (\<lambda>j.
             read_from ino len offset (i + 1) (acc @ [idata ino j]))
      else Inr (i, acc))"
  by pat_completeness auto
termination
  by (relation "measure (\<lambda>(ino, len, offset, i, acc). nat (len - i))") auto

declare write_from.simps [simp del] read_from.simps [simp del]

definition readF :: "filesys \<Rightarrow> int \<Rightarrow> int \<Rightarrow> int \<Rightarrow> (int \<times> u8 list) exec" where
  "readF fs index len offset =
     bind_r (inode_at fs index) (\<lambda>ino. read_from ino len offset 0 [])"

end
