(* ===== verification/Files.thy ===== *)
theory Files
  imports Process Fsops
begin

text \<open>
  The file system calls and the console of kernel/kernel/irqHandle.c, and the key codes
  of kernel/kernel/keyboard.c. A descriptor indexes \<open>filepointer\<close> of the current process, that entry
  indexes \<open>sysFileTable\<close>, and its \<open>inode_index\<close> the inodes; every one of these array accesses
  is checked in the model, since the code checks none.
\<close>

section \<open>Descriptors\<close>

definition getAvlFilepointer :: "kernel \<Rightarrow> int" where
  "getAvlFilepointer k = (case find (\<lambda>i. filepointer (cur k) ! i = -1) [3..<MAX_FP_NUM] of
     Some i \<Rightarrow> int i | None \<Rightarrow> -1)"

definition getAvlSystemFile :: "kernel \<Rightarrow> int" where
  "getAvlSystemFile k = (case find (\<lambda>i. inode_index (sysFileTable k ! i) = -1) [0..<MAX_SYS_FILE_NUM] of
     Some i \<Rightarrow> int i | None \<Rightarrow> -1)"

text \<open>\<open>current->filepointer[fd]\<close> as an index of \<open>sysFileTable\<close>\<close>

definition fd_slot :: "kernel \<Rightarrow> int \<Rightarrow> nat exec" where
  "fd_slot k fd = require (0 \<le> fd \<and> fd < int MAX_FP_NUM) OutOfBounds
     (let i = filepointer (cur k) ! nat fd
      in require (0 \<le> i \<and> i < int MAX_SYS_FILE_NUM) OutOfBounds (Inr (nat i)))"

definition set_entry :: "nat \<Rightarrow> (sysFile \<Rightarrow> sysFile) \<Rightarrow> kernel \<Rightarrow> kernel" where
  "set_entry i f k = k\<lparr>sysFileTable := (sysFileTable k)[i := f (sysFileTable k ! i)]\<rparr>"

definition set_offset :: "nat \<Rightarrow> int \<Rightarrow> kernel \<Rightarrow> kernel" where
  "set_offset i v = set_entry i (\<lambda>e. e\<lparr>offset := wrap32 v\<rparr>)"


section \<open>ls and cat\<close>

text \<open>The loop of \<open>ls_aux\<close>: \<open>cont\<close> counts the names found, \<open>i\<close> is not bounded by the array.\<close>

function ls_from :: "inodeblock \<Rightarrow> nat \<Rightarrow> nat \<Rightarrow> screen \<Rightarrow> screen exec" where
  "ls_from ino i cont s =
     (if cont < unat (isz ino)
      then require (i < NR_DIRDATA) OutOfBounds
        (bind_r (strcmp (dent_name ino i) [0, 0]) (\<lambda>c.
           if c \<noteq> 0
           then bind_r (printQ (c_lit [CHR ''%'', CHR ''s'', CHR 0x09]) [Str (dent_name ino i)] s)
                  (\<lambda>s. ls_from ino (i + 1) (cont + 1) s)
           else ls_from ino (i + 1) cont s))
      else Inr s)"
  by pat_completeness auto
termination by (relation "measure (\<lambda>(ino, i, cont, s). NR_DIRDATA - i)") auto

definition ls_aux :: "u8 list \<Rightarrow> kernel \<Rightarrow> kernel exec" where
  "ls_aux path k =
     bind_r (findCurrentDirPos (fs k) path) (\<lambda>(index, f).
     bind_r (inode_at f index) (\<lambda>ino.
     bind_r (ls_from ino 2 2 (scr k)) (\<lambda>s.
     bind_r (printQ (c_lit [CHR 0x0A]) [] s) (\<lambda>s.
       Inr (k\<lparr>fs := f, scr := s\<rparr>)))))"

function cat_from :: "inodeblock \<Rightarrow> nat \<Rightarrow> screen \<Rightarrow> screen exec" where
  "cat_from ino i s =
     (if i < unat (isz ino)
      then require (i < MAX_FILE_SZ) OutOfBounds
        (bind_r (printQ (c_lit ''%c'') [Word (ucast (idata ino i))] s) (cat_from ino (i + 1)))
      else Inr s)"
  by pat_completeness auto
termination by (relation "measure (\<lambda>(ino, i, s). MAX_FILE_SZ - i)") auto

declare ls_from.simps [simp del] cat_from.simps [simp del]

definition cat_aux :: "u8 list \<Rightarrow> kernel \<Rightarrow> kernel exec" where
  "cat_aux path k =
     bind_r (findCurrentFLPos (fs k) path) (\<lambda>(index, f).
     bind_r (inode_at f index) (\<lambda>ino.
     bind_r (cat_from ino 0 (scr k)) (\<lambda>s.
     bind_r (printQ (c_lit [CHR 0x0A]) [] s) (\<lambda>s.
       Inr (k\<lparr>fs := f, scr := s\<rparr>)))))"


section \<open>open, close, remove, lseek\<close>

text \<open>The assignments of \<open>open_aux\<close> once the indices are found.\<close>

definition install_file :: "int \<Rightarrow> nat \<Rightarrow> nat \<Rightarrow> kernel \<Rightarrow> kernel" where
  "install_file index i fd k =
     (let k1 = set_entry i (\<lambda>e. e\<lparr>inode_index := index, link_num := 1, offset := 0\<rparr>) k;
          k2 = upd_pcb (current k) (\<lambda>b. b\<lparr>filepointer := (filepointer b)[fd := int i],
            fp_num := wrap32 (fp_num b + 1)\<rparr>) k1;
          k3 = set_eax (word_of_nat fd) k2
      in k3\<lparr>sys_file_num := wrap32 (sys_file_num k3 + 1)\<rparr>)"

definition open_aux :: "u8 list \<Rightarrow> int \<Rightarrow> kernel \<Rightarrow> kernel exec" where
  "open_aux path flags k =
     bind_r (isFLExist (fs k) path) (\<lambda>(there, f).
     bind_r (if \<not> there then makeFL f path None else Inr f) (\<lambda>f.
     bind_r (findCurrentFLPos f path) (\<lambda>(index, f).
       let sys_file_index = getAvlSystemFile k; fp_index = getAvlFilepointer k
       in require (\<not> (sys_file_index = -1 \<or> fp_index = -1)) (AssertFail ''irqHandle.c'' 111)
            (Inr (install_file index (nat sys_file_index) (nat fp_index) (k\<lparr>fs := f\<rparr>))))))"

text \<open>The assignments of \<open>close_aux\<close> to the entry \<open>i\<close> of the descriptor.\<close>

definition drop_link :: "nat \<Rightarrow> kernel \<Rightarrow> kernel" where
  "drop_link i k =
     (let k1 = set_entry i (\<lambda>e. e\<lparr>link_num := wrap32 (link_num e - 1)\<rparr>) k
      in if link_num (sysFileTable k1 ! i) = 0
         then (set_entry i (\<lambda>e. e\<lparr>inode_index := -1, offset := 0\<rparr>) k1)
                \<lparr>sys_file_num := wrap32 (sys_file_num k1 - 1)\<rparr>
         else k1)"

definition close_aux :: "int \<Rightarrow> kernel \<Rightarrow> kernel exec" where
  "close_aux fd k =
     bind_r (fd_slot k fd) (\<lambda>i.
       Inr (set_eax 0 (upd_pcb (current k) (\<lambda>b. b\<lparr>filepointer := (filepointer b)[nat fd := -1],
              fp_num := wrap32 (fp_num b - 1)\<rparr>) (drop_link i k))))"

definition remove_aux :: "u8 list \<Rightarrow> kernel \<Rightarrow> kernel exec" where
  "remove_aux path k = bind_r (rmFL (fs k) path) (\<lambda>f. Inr (set_eax 0 (k\<lparr>fs := f\<rparr>)))"

abbreviation (input) SEEK_SET :: int where "SEEK_SET \<equiv> 0"
abbreviation (input) SEEK_CUR :: int where "SEEK_CUR \<equiv> 1"
abbreviation (input) SEEK_END :: int where "SEEK_END \<equiv> 2"

definition lseek_aux :: "int \<Rightarrow> int \<Rightarrow> int \<Rightarrow> kernel \<Rightarrow> kernel exec" where
  "lseek_aux fd off whence k =
     (if whence = SEEK_SET then bind_r (fd_slot k fd) (\<lambda>i. Inr (set_offset i off k))
      else if whence = SEEK_CUR
      then bind_r (fd_slot k fd) (\<lambda>i. Inr (set_offset i (offset (sysFileTable k ! i) + off) k))
      else if whence = SEEK_END
      then bind_r (fd_slot k fd) (\<lambda>i.
             bind_r (inode_at (fs k) (inode_index (sysFileTable k ! i))) (\<lambda>ino.
               Inr (set_offset i (off + int (unat (isz ino))) k)))
      else Inl (AssertFail ''irqHandle.c'' 225))"


section \<open>write\<close>

text \<open>The address a pointer of the program stands for: the child's data lie 0x200000 higher.\<close>

definition user_ptr :: "kernel \<Rightarrow> u32 \<Rightarrow> nat" where
  "user_ptr k p = unat (if pid (cur k) = 2 then p + Child_Data_Offst else p)"

text \<open>\<open>for(i=0; i<len; i++) screen_put(buf[i], ...)\<close>\<close>

function put_from :: "(nat \<Rightarrow> u8) \<Rightarrow> nat \<Rightarrow> int \<Rightarrow> int \<Rightarrow> screen \<Rightarrow> screen exec" where
  "put_from m buf len i s =
     (if i < len
      then require (user_area (buf + nat i) 1) OutOfBounds
        (put_from m buf len (i + 1) (screen_put s (m (buf + nat i)) white black))
      else Inr s)"
  by pat_completeness auto
termination by (relation "measure (\<lambda>(m, buf, len, i, s). nat (len - i))") auto

declare put_from.simps [simp del]

definition write_aux :: "int \<Rightarrow> u32 \<Rightarrow> int \<Rightarrow> kernel \<Rightarrow> kernel exec" where
  "write_aux fd p len k =
     (let buf = user_ptr k p
      in if fd = stdout
         then bind_r (put_from (mem k) buf len 0 (scr k)) (\<lambda>s. Inr (k\<lparr>scr := s\<rparr>))
         else bind_r (fd_slot k fd) (\<lambda>i.
                let index = inode_index (sysFileTable k ! i); off = offset (sysFileTable k ! i)
                in bind_r (writeF (fs k) index (\<lambda>j. mem k (buf + j)) len off) (\<lambda>(n, f).
                     require (0 < len \<longrightarrow> user_area buf (nat len)) OutOfBounds
                       (let k1 = set_eax (word_of_int n) (k\<lparr>fs := f\<rparr>)
                        in Inr (set_offset i (off + len) k1)))))"


section \<open>The keyboard\<close>

definition letter_code :: "int list" where
  "letter_code = [30, 48, 46, 32, 18, 33, 34, 35, 23, 36, 37, 38, 50, 49, 24, 25, 16, 19, 31, 20,
     22, 47, 17, 45, 21, 44]"

definition num_code :: "int list" where
  "num_code = [11, 2, 3, 4, 5, 6, 7, 8, 9, 10]"

text \<open>The two search loops of \<open>press_key\<close>: the first index that holds the code.\<close>

fun index_code :: "int list \<Rightarrow> int \<Rightarrow> nat \<Rightarrow> nat option" where
  "index_code [] c i = None"
| "index_code (x # xs) c i = (if x = c then Some i else index_code xs c (i + 1))"

definition press_key :: "int \<Rightarrow> u8" where
  "press_key scan_code =
     (case index_code letter_code scan_code 0 of
        Some i \<Rightarrow> word_of_nat (97 + i)
      | None \<Rightarrow>
          (case index_code num_code scan_code 0 of
             Some i \<Rightarrow> word_of_nat (48 + i)
           | None \<Rightarrow> if scan_code = 28 then 10 else if scan_code = 57 then 32 else 0))"

text \<open>\<open>keyboard_event\<close>: the byte of port 0x60.\<close>

definition keyboard_event :: "u8 \<Rightarrow> u8" where
  "keyboard_event port = press_key (uint port)"

definition keyboardHandle :: "u8 \<Rightarrow> kernel \<Rightarrow> kernel exec" where
  "keyboardHandle port k =
     (let ch = keyboard_event port
      in if ch \<noteq> 0
         then require (0 \<le> buf_in k \<and> buf_in k < int max_size) OutOfBounds
           (Inr (k\<lparr>scr := screen_put (scr k) ch white black,
              BUF := (BUF k)[nat (buf_in k) := ch], buf_in := buf_in k + 1\<rparr>))
         else Inr k)"

text \<open>
  What can arrive while the kernel halts in \<open>wait_for_keyboard\<close>: the timer, a key with its
  scan code, or another line. \<open>tfp\<close> is the frame of the system call that waits. A nested interrupt has its own frame below it, to
  which the code sets \<open>currentstacktop\<close>; the model has \<open>tfp\<close> there until the system call ends and sets it anew.
\<close>

datatype event = Tick | Key u8 | Spurious

definition nested_irq :: "u32 \<Rightarrow> event \<Rightarrow> kernel \<Rightarrow> kernel exec" where
  "nested_irq tfp e k =
     bind_r (case e of Tick \<Rightarrow> timerHandle tfp k | Key c \<Rightarrow> keyboardHandle c k | Spurious \<Rightarrow> Inr k)
       (\<lambda>k. Inr (if intr_nesting k then k\<lparr>currentstacktop := tfp\<rparr> else k\<lparr>currentstacktop := tf_addr k (current k)\<rparr>))"

fun wait_for_keyboard :: "u32 \<Rightarrow> int \<Rightarrow> event list \<Rightarrow> kernel \<Rightarrow> (kernel \<times> event list) exec" where
  "wait_for_keyboard tfp n es k =
     (if wrap32 (buf_out k + n) \<ge> buf_in k
      then (case es of
              [] \<Rightarrow> Inl Waiting
            | e # es' \<Rightarrow> bind_r (nested_irq tfp e (k\<lparr>intr_nesting := True\<rparr>)) (wait_for_keyboard tfp n es'))
      else Inr (k\<lparr>intr_nesting := False\<rparr>, es))"

declare wait_for_keyboard.simps [simp del]


section \<open>read\<close>

text \<open>\<open>for(i=0; i<len; i++) buf[i] = BUF[i + buf_out]\<close>\<close>

function take_keys :: "u8 list \<Rightarrow> int \<Rightarrow> nat \<Rightarrow> int \<Rightarrow> int \<Rightarrow> (nat \<Rightarrow> u8) \<Rightarrow> (nat \<Rightarrow> u8) exec" where
  "take_keys keys out buf len i m =
     (if i < len
      then require (user_area (buf + nat i) 1 \<and> 0 \<le> i + out \<and> i + out < int max_size) OutOfBounds
        (take_keys keys out buf len (i + 1) (m(buf + nat i := keys ! nat (i + out))))
      else Inr m)"
  by pat_completeness auto
termination by (relation "measure (\<lambda>(keys, out, buf, len, i, m). nat (len - i))") auto

declare take_keys.simps [simp del]

definition read_aux :: "u32 \<Rightarrow> int \<Rightarrow> u32 \<Rightarrow> int \<Rightarrow> event list \<Rightarrow> kernel \<Rightarrow> (kernel \<times> event list) exec" where
  "read_aux tfp fd p len es k =
     (let buf = user_ptr k p
      in if fd = stdin
         then bind_r (wait_for_keyboard tfp (wrap32 (len - 1)) es k) (\<lambda>(k, es).
              bind_r (take_keys (BUF k) (buf_out k) buf len 0 (mem k)) (\<lambda>m.
                Inr (k\<lparr>mem := m, buf_out := wrap32 (buf_out k + len)\<rparr>, es)))
         else bind_r (fd_slot k fd) (\<lambda>i.
                let index = inode_index (sysFileTable k ! i); off = offset (sysFileTable k ! i)
                in bind_r (readF (fs k) index len off) (\<lambda>(n, bs).
                   require (bs \<noteq> [] \<longrightarrow> user_area buf (length bs)) OutOfBounds
                   (bind_r (inode_at (fs k) index) (\<lambda>ino.
                      let k1 = set_eax (word_of_int n) (k\<lparr>mem := put_bytes (mem k) buf bs\<rparr>);
                          filesz = sint (isz ino)
                      in Inr (set_offset i (if wrap32 (off + len) > filesz then filesz
                                            else off + len) k1, es))))))"

end
