(* ===== verification/Irq.thy ===== *)
theory Irq
  imports Files
begin

text \<open>
  The interrupt entry of kernel/kernel/irqHandle.c and kernel/kernel/doIrq.S: the trap frame
  the CPU and \<open>asmDoIrq\<close> push, the dispatch on the vector, the dispatch on the system call
  number, and the stack the kernel returns to.
\<close>

section \<open>System calls\<close>

text \<open>The numbers of the calls, \<open>#define NR_exit\<close> and so on.\<close>

abbreviation (input) NR_exit :: int where "NR_exit \<equiv> 1"
abbreviation (input) NR_fork :: int where "NR_fork \<equiv> 2"
abbreviation (input) NR_read :: int where "NR_read \<equiv> 3"
abbreviation (input) NR_write :: int where "NR_write \<equiv> 4"
abbreviation (input) NR_open :: int where "NR_open \<equiv> 5"
abbreviation (input) NR_close :: int where "NR_close \<equiv> 6"
abbreviation (input) NR_sem_init :: int where "NR_sem_init \<equiv> 7"
abbreviation (input) NR_sem_destroy :: int where "NR_sem_destroy \<equiv> 8"
abbreviation (input) NR_sem_wait :: int where "NR_sem_wait \<equiv> 9"
abbreviation (input) NR_sem_post :: int where "NR_sem_post \<equiv> 10"
abbreviation (input) NR_seek :: int where "NR_seek \<equiv> 11"
abbreviation (input) NR_remove :: int where "NR_remove \<equiv> 12"
abbreviation (input) NR_ls :: int where "NR_ls \<equiv> 13"
abbreviation (input) NR_cat :: int where "NR_cat \<equiv> 14"
abbreviation (input) NR_sleep :: int where "NR_sleep \<equiv> 162"

text \<open>
  \<open>es\<close> are the interrupts that arrive while a read waits for the keyboard; the ones left over
  are returned. The arguments are in \<open>ebx\<close>, \<open>ecx\<close> and \<open>edx\<close>.
\<close>

definition syscallHandle :: "u32 \<Rightarrow> event list \<Rightarrow> kernel \<Rightarrow> (kernel \<times> event list) exec" where
  "syscallHandle tfp es k = require (tf_addr k (current k) = tfp) (AssertFail ''irqHandle.c'' 322)
     (let t = tf (cur k); eax = uint (tf_eax t); ebx = tf_ebx t; ecx = tf_ecx t; edx = tf_edx t;
          done = (\<lambda>m. bind_r m (\<lambda>k'. Inr (k', es)))
      in if eax = NR_exit then done (exit_aux k)
         else if eax = NR_fork then done (fork_aux k)
         else if eax = NR_read then read_aux tfp (sint ebx) ecx (sint edx) es k
         else if eax = NR_write then done (write_aux (sint ebx) ecx (sint edx) k)
         else if eax = NR_seek then done (lseek_aux (sint ebx) (sint ecx) (sint edx) k)
         else if eax = NR_open then done (open_aux (path_at k ebx) (sint ecx) k)
         else if eax = NR_close then done (close_aux (sint ebx) k)
         else if eax = NR_remove then done (remove_aux (path_at k ebx) k)
         else if eax = NR_sem_init then done (sem_init_aux ebx (sint ecx) k)
         else if eax = NR_sem_destroy then Inr (sem_destroy_aux ebx k, es)
         else if eax = NR_sem_wait then done (sem_wait_aux ebx k)
         else if eax = NR_sem_post then done (sem_post_aux ebx k)
         else if eax = NR_ls then done (ls_aux (path_at k ebx) k)
         else if eax = NR_cat then done (cat_aux (path_at k ebx) k)
         else if eax = NR_sleep then done (sleep_aux (sint ebx) k)
         else Inl (AssertFail ''irqHandle.c'' 340))"


section \<open>The dispatch on the vector\<close>

definition GProtectFaultHandle :: "u32 \<Rightarrow> kernel \<Rightarrow> kernel exec" where
  "GProtectFaultHandle tfp k = require (tf_addr k (current k) = tfp) (AssertFail ''irqHandle.c'' 298)
     (Inl (AssertFail ''irqHandle.c'' 299))"

text \<open>\<open>currentstacktop\<close>, from which \<open>asmDoIrq\<close> pops the frame to return to.\<close>

definition set_stacktop :: "u32 \<Rightarrow> kernel \<Rightarrow> kernel exec" where
  "set_stacktop tfp k =
     (if \<not> intr_nesting k
      then let k1 = k\<lparr>currentstacktop := kaddr k (current k) + 4 * 4096\<rparr>
           in require (currentstacktop k1 = tf_addr k1 (current k1)) (AssertFail ''irqHandle.c'' 46) (Inr k1)
      else Inr (k\<lparr>currentstacktop := tfp\<rparr>))"

text \<open>\<open>port\<close> is what the keyboard controller holds if the vector is 0x21.\<close>

definition irqHandle :: "u32 \<Rightarrow> int \<Rightarrow> u8 \<Rightarrow> event list \<Rightarrow> kernel \<Rightarrow> (kernel \<times> event list) exec" where
  "irqHandle tfp irq port es k =
     bind_r (if irq = -1 then Inr (k, es)
             else if irq = 0xd then bind_r (GProtectFaultHandle tfp k) (\<lambda>k. Inr (k, es))
             else if irq = 0x20 then bind_r (timerHandle tfp k) (\<lambda>k. Inr (k, es))
             else if irq = 0x21 then bind_r (keyboardHandle port k) (\<lambda>k. Inr (k, es))
             else if irq = 0x80 then syscallHandle tfp es k
             else Inl (AssertFail ''irqHandle.c'' 42))
       (\<lambda>(k, es). bind_r (set_stacktop tfp k) (\<lambda>k. Inr (k, es)))"

text \<open>
  An interrupt that finds the kernel halted inside \<open>wait_for_keyboard\<close> is \<open>irqHandle\<close> on
  the vector of the event.
\<close>

definition event_irq :: "event \<Rightarrow> int" where
  "event_irq e = (case e of Tick \<Rightarrow> 0x20 | Key c \<Rightarrow> 0x21 | Spurious \<Rightarrow> -1)"

definition event_port :: "event \<Rightarrow> u8" where
  "event_port e = (case e of Key c \<Rightarrow> c | _ \<Rightarrow> 0)"

lemma set_stacktop_eq: "set_stacktop tfp k =
    Inr (if intr_nesting k then k\<lparr>currentstacktop := tfp\<rparr> else k\<lparr>currentstacktop := tf_addr k (current k)\<rparr>)"
  by (simp add: set_stacktop_def Let_def tf_addr_def)

lemma nested_irq_irqHandle:
  "bind_r (nested_irq tfp e k) (\<lambda>k. Inr (k, es)) = irqHandle tfp (event_irq e) (event_port e) es k"
  by (cases e) (simp_all add: nested_irq_def irqHandle_def event_irq_def event_port_def set_stacktop_eq
      bind_r_assoc cong: bind_r_cong)


section \<open>Traps\<close>

text \<open>
  Where the frame of an interrupt lies: below \<open>tss.esp0\<close> when a user process was running, in
  \<open>idle.tf\<close> when the idle loop was, whose stack \<open>kEntry\<close> placed for that.
\<close>

definition trap_addr :: "kernel \<Rightarrow> u32" where
  "trap_addr k = (if current k = IdlePcb then tf_addr k IdlePcb else tss_esp0 k - sizeof_TrapFrame)"

definition trap :: "trapframe \<Rightarrow> kernel \<Rightarrow> kernel" where
  "trap f k = upd_pcb (current k) (\<lambda>b. b\<lparr>tf := f\<rparr>) k"

text \<open>
  What the model asks of the programs: the idle loop makes no system call, a program
  waits on the semaphore it initialised last and posts semaphores that were initialised, and
  none is initialised while processes wait.
\<close>

definition sane_call :: "trapframe \<Rightarrow> kernel \<Rightarrow> bool" where
  "sane_call f k \<longleftrightarrow> tf_irq f = 0x80 \<longrightarrow> current k \<noteq> IdlePcb
     \<and> (tf_eax f = 7 \<longrightarrow> nxt k DummySem = None)
     \<and> (tf_eax f = 9 \<longrightarrow> psem (cur k) = tf_ebx f \<and> sem_list k (tf_ebx f) = Inr DummySem)
     \<and> (tf_eax f = 10 \<longrightarrow> sem_list k (tf_ebx f) = Inr DummySem)"

text \<open>The running program may write to its memory at any time; the kernel's part begins with an interrupt.\<close>

inductive kernel_step :: "kernel \<Rightarrow> kernel \<Rightarrow> bool" where
  interrupt: "sane_call f k \<Longrightarrow> irqHandle (trap_addr k) (tf_irq f) port es (trap f k) = Inr (k', es') \<Longrightarrow>
    kernel_step k k'"
| compute: "current k \<noteq> IdlePcb \<Longrightarrow> \<forall>a. \<not> user_area a 1 \<longrightarrow> m a = mem k a \<Longrightarrow> kernel_step k (k\<lparr>mem := m\<rparr>)"

text \<open>
  From power on: the table is set up, the first process is prepared, then interrupts come. In between \<open>kEntry\<close> loads the file
  system and the program and clears the screen and the key buffer; what it brings into memory is arbitrary here.
\<close>

inductive reachable :: "kernel \<Rightarrow> bool" where
  boot: "nxt k0 DummySem = None \<Longrightarrow> initPcb k0 = Inr k1 \<Longrightarrow>
    preparePCB entry (k1\<lparr>fs := f, mem := m, scr := s, serial := out, buf_in := 0, buf_out := 0\<rparr>) = Inr k \<Longrightarrow> reachable k"
| step: "reachable k \<Longrightarrow> kernel_step k k' \<Longrightarrow> reachable k'"

inductive_cases kernel_stepE: "kernel_step k k'"

end
