(* ===== verification/Schedprops.thy ===== *)
theory Schedprops
  imports Sched
begin

text \<open>
  The scheduler refines the abstract one. The list steps come from the interface
  \<open>pqueue\<close>, interpreted on list.c as \<open>pl\<close>; \<open>sched_frame\<close> says what scheduling leaves alone.
\<close>

lemma queue_of_upd [simp]:
  "(queue_of a)(Dummy1 := xs) = queue_of (a\<lparr>ready := xs\<rparr>)"
  "(queue_of a)(Dummy2 := xs) = queue_of (a\<lparr>sleepers := xs\<rparr>)"
  "(queue_of a)(Dummy3 := xs) = queue_of (a\<lparr>freed := xs\<rparr>)"
  "(queue_of a)(DummySem := xs) = queue_of (a\<lparr>waiters := xs\<rparr>)"
  by (rule ext, case_tac x; simp)+

lemma queue_of_running [simp]: "queue_of (a\<lparr>running := p\<rparr>) = queue_of a"
  by (rule ext, case_tac x) simp_all

lemma heads_simps [simp]: "Dummy1 \<in> heads" "Dummy2 \<in> heads" "Dummy3 \<in> heads" "DummySem \<in> heads"
  "IdlePcb \<notin> heads" "Pcb i \<notin> heads"
  by (simp_all add: heads_def)

lemma procs_notin_heads: "p \<in> procs \<Longrightarrow> p \<notin> heads \<and> p \<noteq> IdlePcb"
  by (auto simp: procs_def)

lemma idle_notin_procs [simp]: "IdlePcb \<notin> procs" "Dummy1 \<notin> procs" "Dummy2 \<notin> procs" "Dummy3 \<notin> procs"
  "DummySem \<notin> procs"
  by (auto simp: procs_def)

lemma Pcb_procs [simp]: "Pcb i \<in> procs \<longleftrightarrow> 1 \<le> i \<and> i < 10"
  by (auto simp: procs_def)

lemma set_queued: "set (queued a) = set (ready a) \<union> set (sleepers a) \<union> set (freed a) \<union> set (waiters a)"
  by (auto simp: queued_def)

lemma unqueued_iff: "p \<notin> heads \<Longrightarrow> unqueued heads (queue_of a) p \<longleftrightarrow> p \<notin> set (queued a)"
  by (auto simp: unqueued_def heads_def set_queued)

lemma add_to_rel:
  assumes "queues chain (nxt k) heads (queue_of a)" and "h \<in> heads"
    and "p \<notin> set (queued a)" and "p \<notin> heads"
  shows "\<exists>n. add_to h p k = Inr (k\<lparr>nxt := n\<rparr>)
    \<and> queues chain n heads ((queue_of a)(h := queue_of a h @ [p]))"
  using pl.queues_add [OF assms(1,2), of p] assms(3,4) by (auto simp: add_to_def unqueued_iff)

lemma delete_from_rel:
  assumes "queues chain (nxt k) heads (queue_of a)" and "h \<in> heads" and "p \<in> set (queue_of a h)"
  shows "\<exists>n. delete_from h p k = Inr (k\<lparr>nxt := n\<rparr>)
    \<and> queues chain n heads ((queue_of a)(h := remove1 p (queue_of a h)))"
  using pl.queues_del [OF assms] by (auto simp: delete_from_def)

lemma queues_nonempty: "queues chain n heads (queue_of a) \<Longrightarrow> n Dummy1 \<noteq> None \<longleftrightarrow> ready a \<noteq> []"
proof -
  assume "queues chain n heads (queue_of a)"
  then have "chain n Dummy1 (ready a)" by (auto simp: queues_def heads_def)
  then show ?thesis by (cases "ready a") auto
qed


section \<open>What scheduling leaves alone\<close>

definition sched_frame :: "kernel \<Rightarrow> kernel \<Rightarrow> bool" where
  "sched_frame k k' \<longleftrightarrow>
     k' = k\<lparr>nxt := nxt k', pcbs := pcbs k', current := current k', tss_esp0 := tss_esp0 k', serial := serial k'\<rparr>
     \<and> (\<forall>p. pcbs k' p = (pcbs k p)\<lparr>pstate := pstate (pcbs k' p), timeCount := timeCount (pcbs k' p),
          sleepTime := sleepTime (pcbs k' p)\<rparr>)"

lemma sched_frame_refl [simp]: "sched_frame k k"
  by (simp add: sched_frame_def)

lemma pcb_frame_trans:
  "c = b\<lparr>pstate := s, timeCount := t, sleepTime := u\<rparr> \<Longrightarrow> b = (a::pcb)\<lparr>pstate := s', timeCount := t', sleepTime := u'\<rparr> \<Longrightarrow>
    c = a\<lparr>pstate := s, timeCount := t, sleepTime := u\<rparr>"
  by simp

lemma kernel_frame_trans:
  "c = b\<lparr>nxt := n, pcbs := p, current := u, tss_esp0 := t, serial := s\<rparr> \<Longrightarrow>
   b = (a::kernel)\<lparr>nxt := n', pcbs := p', current := u', tss_esp0 := t', serial := s'\<rparr> \<Longrightarrow>
   c = a\<lparr>nxt := n, pcbs := p, current := u, tss_esp0 := t, serial := s\<rparr>"
  by simp

lemma sched_frame_trans [trans]:
  assumes "sched_frame a b" and "sched_frame b c"
  shows "sched_frame a c"
  unfolding sched_frame_def
proof (intro conjI allI)
  show "c = a\<lparr>nxt := nxt c, pcbs := pcbs c, current := current c, tss_esp0 := tss_esp0 c, serial := serial c\<rparr>"
    using assms unfolding sched_frame_def by (blast intro: kernel_frame_trans)
  show "pcbs c p = (pcbs a p)\<lparr>pstate := pstate (pcbs c p), timeCount := timeCount (pcbs c p),
      sleepTime := sleepTime (pcbs c p)\<rparr>" for p
    using assms unfolding sched_frame_def by (blast intro: pcb_frame_trans)
qed

lemma sched_frame_intros:
  "sched_frame k (k\<lparr>nxt := n\<rparr>)"
  "sched_frame k (k\<lparr>serial := out\<rparr>)"
  "sched_frame k (set_state p s k)"
  "sched_frame k (dispatch p k)"
  "sched_frame k (run_idle k)"
  "sched_frame k (tick_sleep p k)"
  "sched_frame k (upd_pcb p (\<lambda>b. b\<lparr>timeCount := f b\<rparr>) k)"
  by (simp_all add: sched_frame_def set_state_def dispatch_def run_idle_def tick_sleep_def upd_pcb_def)

lemma sched_frame_fields:
  assumes "sched_frame k k'"
  shows "mem k' = mem k" "fs k' = fs k" "disk k' = disk k" "p_num k' = p_num k"
    "sysFileTable k' = sysFileTable k" "sys_file_num k' = sys_file_num k" "scr k' = scr k"
    "BUF k' = BUF k" "buf_in k' = buf_in k" "buf_out k' = buf_out k" "intr_nesting k' = intr_nesting k"
    "kaddr k' = kaddr k" "currentstacktop k' = currentstacktop k"
proof -
  have "k' = k\<lparr>nxt := nxt k', pcbs := pcbs k', current := current k', tss_esp0 := tss_esp0 k', serial := serial k'\<rparr>"
    using assms unfolding sched_frame_def by blast
  then obtain n p c t s where "k' = k\<lparr>nxt := n, pcbs := p, current := c, tss_esp0 := t, serial := s\<rparr>"
    by blast
  then show "mem k' = mem k" "fs k' = fs k" "disk k' = disk k" "p_num k' = p_num k"
    "sysFileTable k' = sysFileTable k" "sys_file_num k' = sys_file_num k" "scr k' = scr k"
    "BUF k' = BUF k" "buf_in k' = buf_in k" "buf_out k' = buf_out k" "intr_nesting k' = intr_nesting k"
    "kaddr k' = kaddr k" "currentstacktop k' = currentstacktop k"
    by simp_all
qed

lemma sched_frame_pcb:
  assumes "sched_frame k k'"
  shows "tf (pcbs k' p) = tf (pcbs k p)" "pid (pcbs k' p) = pid (pcbs k p)" "ppid (pcbs k' p) = ppid (pcbs k p)"
    "fp_num (pcbs k' p) = fp_num (pcbs k p)" "filepointer (pcbs k' p) = filepointer (pcbs k p)"
    "psem (pcbs k' p) = psem (pcbs k p)"
proof -
  obtain s t u where "pcbs k' p = (pcbs k p)\<lparr>pstate := s, timeCount := t, sleepTime := u\<rparr>"
    using assms unfolding sched_frame_def by blast
  then show "tf (pcbs k' p) = tf (pcbs k p)" "pid (pcbs k' p) = pid (pcbs k p)" "ppid (pcbs k' p) = ppid (pcbs k p)"
    "fp_num (pcbs k' p) = fp_num (pcbs k p)" "filepointer (pcbs k' p) = filepointer (pcbs k p)"
    "psem (pcbs k' p) = psem (pcbs k p)"
    by simp_all
qed


section \<open>schedule\<close>

text \<open>
  When \<open>schedule\<close> is called, the current process has one of the states the callers give
  it; the idle process never blocks or exits, and a process blocked on a semaphore has
  a semaphore whose list is the waiting list.
\<close>

definition can_switch :: "kernel \<Rightarrow> bool" where
  "can_switch k \<longleftrightarrow> pstate (cur k) \<noteq> RUNNABLE \<and> (current k = IdlePcb \<longrightarrow> pstate (cur k) = RUNNING)
     \<and> (pstate (cur k) = SEM_BLOCKED \<longrightarrow> sem_at (psem (cur k)) \<and> sem_list k (psem (cur k)) = Inr DummySem)"

text \<open>The state the current process has once it is queued.\<close>

definition parked :: "kernel \<Rightarrow> kernel" where
  "parked k = (if pstate (cur k) = RUNNING then set_state (current k) RUNNABLE k else k)"

lemma sem_list_set_state [simp]: "sem_list (set_state p s k) a = sem_list k a"
  by (simp add: sem_list_def ref_at_def set_state_def)

lemma parked_simps [simp]: "nxt (parked k) = nxt k" "current (parked k) = current k" "serial (parked k) = serial k"
  by (simp_all add: parked_def set_state_def)

lemma queue_current_ok:
  assumes "sched_rel k a" and "can_switch k"
  shows "\<exists>n. queue_current k = Inr ((parked k)\<lparr>nxt := n\<rparr>)
    \<and> queues chain n heads (queue_of (park (pstate (cur k)) a))"
proof -
  let ?s = "pstate (cur k)"
  have r: "running a = current k" and q: "queues chain (nxt (parked k)) heads (queue_of a)"
    and u: "current k \<notin> set (queued a)" "current k \<notin> heads"
    using assms(1) procs_notin_heads by (auto simp: sched_rel_def placed_def)
  note add = add_to_rel [OF q _ u]
  note adds = add [of Dummy2] add [of Dummy3] add [of DummySem]
  show ?thesis
  proof (cases ?s)
    case RUNNING
    show ?thesis
    proof (cases "current k = IdlePcb")
      case True
      then show ?thesis using RUNNING q r
        by (intro exI [of _ "nxt k"]) (simp add: queue_current_def parked_def set_state_def upd_pcb_def)
    next
      case False
      then show ?thesis using RUNNING add [of Dummy1] r
        by (auto simp: queue_current_def parked_def)
    qed
  qed (use assms(2) adds r in \<open>auto simp: queue_current_def can_switch_def parked_def\<close>)
qed

lemma queued_park:
  assumes "placed a" and "s \<noteq> RUNNABLE" and "running a = IdlePcb \<longrightarrow> s = RUNNING"
  shows "distinct (queued (park s a)) \<and> set (queued (park s a)) \<subseteq> procs \<and>
    set (queued (park s a)) = (if running a = IdlePcb then {} else {running a}) \<union> set (queued a)"
  using assms by (cases s) (auto simp: placed_def queued_def)

lemma states_park:
  assumes "states_ok (pcbs k) a" and "running a = current k" and "current k \<notin> set (queued a)"
    and "pstate (cur k) = RUNNABLE \<longrightarrow> a = park RUNNABLE a"
  shows "states_ok (pcbs (parked k)) (park (pstate (cur k)) a)"
  using assms by (cases "pstate (cur k)")
    (auto simp: states_ok_def parked_def set_state_def set_queued)

lemma states_upd: "states_ok P a \<Longrightarrow> p \<notin> set (queued a) \<Longrightarrow> states_ok (P(p := b)) a"
  by (auto simp: states_ok_def set_queued)

lemma ready_subset: "ready a = p # r \<Longrightarrow> placed a \<or> distinct (queued a) \<Longrightarrow>
    p \<in> set (queued a) \<and> p \<notin> set (queued (a\<lparr>ready := r\<rparr>))"
  by (auto simp: queued_def placed_def)

text \<open>A trap from user mode pushes its frame below \<open>tss.esp0\<close>: that is the current process' \<open>tf\<close>.\<close>

definition esp_ok :: "kernel \<Rightarrow> bool" where
  "esp_ok k \<longleftrightarrow> current k = IdlePcb \<or> tss_esp0 k = tf_addr k (current k) + sizeof_TrapFrame"

text \<open>What a switch keeps: the sleeping processes' PCBs, and the stack of the current process.\<close>

definition switch_keeps :: "sched \<Rightarrow> kernel \<Rightarrow> kernel \<Rightarrow> bool" where
  "switch_keeps a k k' \<longleftrightarrow> (\<forall>q\<in>set (sleepers a). pcbs k' q = pcbs k q) \<and> (esp_ok k \<longrightarrow> esp_ok k')"

lemma parked_pcbs: "pcbs (parked k) = (if pstate (cur k) = RUNNING
    then (pcbs k)(current k := (cur k)\<lparr>pstate := RUNNABLE\<rparr>) else pcbs k)"
  "kaddr (parked k) = kaddr k"
  by (simp_all add: parked_def set_state_def)

lemma sleepers_park: "set (sleepers a) \<subseteq> set (sleepers (park s a))"
  by (cases s) auto

lemma switch_process_ok:
  assumes r: "sched_rel k a" and c: "can_switch k"
  shows "\<exists>k'. switch_process k = Inr k' \<and> sched_rel k' (spec_schedule (pstate (cur k)) a)
    \<and> pstate (cur k') = RUNNING \<and> timeCount (cur k') = 10 \<and> sched_frame k k' \<and> serial k' = serial k
    \<and> switch_keeps a k k'"
proof -
  let ?s = "pstate (cur k)"
  define b where "b = park ?s a"
  have cr: "current k = running a" and pl: "placed a" and st: "states_ok (pcbs k) a"
    and q: "queues chain (nxt k) heads (queue_of a)"
    using r by (auto simp: sched_rel_def)
  have sp: "states_ok (pcbs (parked k)) b"
    unfolding b_def using st cr pl c by (intro states_park) (auto simp: placed_def can_switch_def)
  have bq: "distinct (queued b)" "set (queued b) \<subseteq> procs"
    and bi: "ready b = [] \<Longrightarrow> ?s \<noteq> RUNNING \<or> ready a = [] \<and> current k = IdlePcb"
    using queued_park [OF pl, of ?s] c cr
    by (auto simp: b_def can_switch_def split: if_splits)
  obtain n where n: "queue_current k = Inr ((parked k)\<lparr>nxt := n\<rparr>)" "queues chain n heads (queue_of b)"
    using queue_current_ok [OF r c] by (auto simp: b_def)
  have fr: "sched_frame k ((parked k)\<lparr>nxt := n\<rparr>)"
    by (rule sched_frame_trans [of _ "parked k"]) (simp_all add: parked_def sched_frame_intros)
  have ns: "current k \<notin> set (sleepers a)" "IdlePcb \<notin> set (sleepers a)" "set (sleepers a) \<subseteq> set (sleepers b)"
    using pl cr sleepers_park by (auto simp: placed_def set_queued b_def)
  show ?thesis
  proof (cases "ready a = []")
    case True
    then have e: "nxt k Dummy1 = None" using queues_nonempty [OF q] by blast
    show ?thesis
    proof (cases "?s = RUNNING")
      case run: True
      let ?k = "upd_pcb (current k) (\<lambda>b. b\<lparr>timeCount := 10\<rparr>) k"
      have "states_ok (pcbs ?k) a" using st pl cr by (auto simp: placed_def intro: states_upd)
      then have "sched_rel ?k a" using r by (simp add: sched_rel_def)
      moreover have "switch_keeps a k ?k" using ns by (auto simp: switch_keeps_def esp_ok_def tf_addr_def)
      ultimately show ?thesis using True run e
        by (simp add: switch_process_def spec_schedule_def sched_frame_intros)
    next
      case no: False
      then have rb: "ready b = []" using True c by (cases ?s) (auto simp: b_def can_switch_def)
      have k': "switch_process k = Inr (run_idle ((parked k)\<lparr>nxt := n\<rparr>))"
        using n(1) e no c by (cases ?s) (simp_all add: switch_process_def can_switch_def)
      have "states_ok (pcbs (run_idle ((parked k)\<lparr>nxt := n\<rparr>))) b"
        using sp bq by (auto simp: run_idle_def intro!: states_upd)
      then have "sched_rel (run_idle ((parked k)\<lparr>nxt := n\<rparr>)) (b\<lparr>running := IdlePcb\<rparr>)"
        using n(2) bq by (auto simp: sched_rel_def run_idle_def placed_def states_ok_def queued_def)
      moreover have "spec_schedule ?s a = b\<lparr>running := IdlePcb\<rparr>"
        using no rb by (simp add: spec_schedule_def b_def)
      moreover have "sched_frame k (run_idle ((parked k)\<lparr>nxt := n\<rparr>))"
        by (rule sched_frame_trans [OF fr]) (rule sched_frame_intros)
      moreover have "switch_keeps a k (run_idle ((parked k)\<lparr>nxt := n\<rparr>))"
        using ns no by (auto simp: switch_keeps_def esp_ok_def run_idle_def parked_pcbs)
      ultimately show ?thesis using k' by (simp add: run_idle_def)
    qed
  next
    case False
    then have e: "nxt k Dummy1 \<noteq> None" using queues_nonempty [OF q] by blast
    have "ready b \<noteq> []" using False by (cases ?s) (auto simp: b_def)
    then obtain p rs where rb: "ready b = p # rs" by (cases "ready b") auto
    have p: "p \<in> procs" "p \<notin> set (queued (b\<lparr>ready := rs\<rparr>))" "distinct (queued (b\<lparr>ready := rs\<rparr>))"
      "set (queued (b\<lparr>ready := rs\<rparr>)) \<subseteq> procs"
      using bq rb by (auto simp: queued_def)
    obtain m where m: "list_head n Dummy1 = Inr p" "list_delete n Dummy1 p = Inr m"
      "queues chain m heads (queue_of (b\<lparr>ready := rs\<rparr>))"
      using pl.queues_pop [OF n(2), of Dummy1 p rs] rb by auto
    let ?k = "dispatch p ((parked k)\<lparr>nxt := m\<rparr>)"
    have k': "switch_process k = Inr ?k"
      using e n(1) m by (auto simp: switch_process_def delete_from_def)
    have "states_ok (pcbs ((parked k)\<lparr>nxt := m\<rparr>)) (b\<lparr>ready := rs\<rparr>)"
      using sp rb by (auto simp: states_ok_def)
    then have "states_ok (pcbs ?k) (b\<lparr>ready := rs\<rparr>)"
      using p(2) by (auto simp: dispatch_def intro!: states_upd)
    then have "sched_rel ?k (b\<lparr>ready := rs, running := p\<rparr>)"
      using m(3) p by (auto simp: sched_rel_def dispatch_def placed_def states_ok_def queued_def)
    moreover have "spec_schedule ?s a = b\<lparr>ready := rs, running := p\<rparr>"
      using False rb by (simp add: spec_schedule_def b_def)
    moreover have "sched_frame k ?k"
    proof -
      have "sched_frame k ((parked k)\<lparr>nxt := m\<rparr>)"
        by (rule sched_frame_trans [of _ "parked k"]) (simp_all add: parked_def sched_frame_intros)
      then show ?thesis by (rule sched_frame_trans) (rule sched_frame_intros)
    qed
    moreover have "p \<notin> set (sleepers a)" using ns(3) bq rb by (auto simp: queued_def)
    then have "switch_keeps a k ?k"
      using ns(1) by (auto simp: switch_keeps_def esp_ok_def dispatch_def parked_pcbs tf_addr_def)
    ultimately show ?thesis using k' by (simp add: dispatch_def)
  qed
qed

lemma print_pid: "printk (c_lit ''%d'') [Word w] out = Inr (out @ dec_text (sint w))"
  by (rule printk_text) (simp add: c_lit_def arg_text_def)

lemma schedule_ok:
  assumes "sched_rel k a" and "can_switch k"
  shows "\<exists>k'. schedule k = Inr k' \<and> sched_rel k' (spec_schedule (pstate (cur k)) a)
    \<and> pstate (cur k') = RUNNING \<and> timeCount (cur k') = 10 \<and> sched_frame k k'
    \<and> serial k' = serial k @ dec_text (wrap32 (pid (cur k'))) \<and> switch_keeps a k k'"
proof -
  obtain k1 where k1: "switch_process k = Inr k1" "sched_rel k1 (spec_schedule (pstate (cur k)) a)"
    "pstate (cur k1) = RUNNING" "timeCount (cur k1) = 10" "sched_frame k k1" "serial k1 = serial k" "switch_keeps a k k1"
    using switch_process_ok [OF assms] by blast
  let ?k = "k1\<lparr>serial := serial k1 @ dec_text (wrap32 (pid (cur k1)))\<rparr>"
  have "sched_frame k ?k" by (rule sched_frame_trans [OF k1(5)]) (rule sched_frame_intros)
  moreover have "schedule k = Inr ?k"
    using k1(1) by (simp add: schedule_def print_pid sint_word_of_int32)
  moreover have "switch_keeps a k ?k" using k1(7) by (simp add: switch_keeps_def esp_ok_def tf_addr_def)
  ultimately show ?thesis using k1 by (simp add: sched_rel_def)
qed

section \<open>try_to_wakeup\<close>

definition due :: "kernel \<Rightarrow> pcbref \<Rightarrow> bool" where
  "due k p \<longleftrightarrow> wrap32 (sleepTime (pcbs k p) - 1) = 0"

definition first :: "pcbref list \<Rightarrow> pcbref option" where
  "first xs = (case xs of [] \<Rightarrow> None | x # _ \<Rightarrow> Some x)"

lemma first_simps [simp]: "first [] = None" "first (x # xs) = Some x"
  by (simp_all add: first_def)

lemma chain_first: "chain nx h xs \<Longrightarrow> nx h = first xs"
  by (cases xs) simp_all

lemma sleepers_chain: "sched_rel k a \<Longrightarrow> chain (nxt k) Dummy2 (sleepers a)"
  by (auto simp: sched_rel_def queues_def heads_def)

lemma sleepers_next: "sched_rel k a \<Longrightarrow> sleepers a = us @ q # vs \<Longrightarrow> nxt k q = first vs"
  using chain_append [of "nxt k" Dummy2 "us @ [q]" vs] sleepers_chain [of k a]
  by (simp add: chain_first)

lemma sched_rel_tick:
  "sched_rel k a \<Longrightarrow> sched_rel (tick_sleep q k) a"
  by (auto simp: sched_rel_def states_ok_def tick_sleep_def)

lemma wake_one_ok:
  assumes r: "sched_rel k a" and s: "sleepers a = us @ q # vs"
  shows "\<exists>n. wake_one q k = Inr ((set_state q RUNNABLE k)\<lparr>nxt := n\<rparr>)
    \<and> sched_rel ((set_state q RUNNABLE k)\<lparr>nxt := n\<rparr>) (a\<lparr>sleepers := us @ vs, ready := ready a @ [q]\<rparr>)"
proof -
  have pl: "placed a" and st: "states_ok (pcbs k) a" and q: "queues chain (nxt k) heads (queue_of a)"
    using r by (auto simp: sched_rel_def)
  have d: "distinct (queued a)" "set (queued a) \<subseteq> procs" using pl by (auto simp: placed_def)
  have "q \<in> set (queued a)" "q \<notin> set us" using s d by (auto simp: queued_def)
  then have qp: "q \<notin> heads" "remove1 q (sleepers a) = us @ vs"
    using d(2) procs_notin_heads by (auto simp: s remove1_append)
  obtain m where m: "delete_from Dummy2 q k = Inr (k\<lparr>nxt := m\<rparr>)"
    "queues chain m heads (queue_of (a\<lparr>sleepers := us @ vs\<rparr>))"
    using delete_from_rel [OF q, of Dummy2 q] qp(2) s by auto
  have "q \<notin> set (queued (a\<lparr>sleepers := us @ vs\<rparr>))" using d s by (auto simp: queued_def)
  then obtain n where n: "add_to Dummy1 q (set_state q RUNNABLE (k\<lparr>nxt := m\<rparr>)) =
      Inr ((set_state q RUNNABLE (k\<lparr>nxt := m\<rparr>))\<lparr>nxt := n\<rparr>)"
    "queues chain n heads (queue_of (a\<lparr>sleepers := us @ vs, ready := ready a @ [q]\<rparr>))"
    using add_to_rel [of "set_state q RUNNABLE (k\<lparr>nxt := m\<rparr>)" "a\<lparr>sleepers := us @ vs\<rparr>" Dummy1 q] m qp(1)
    by (auto simp: set_state_def)
  have "states_ok ((pcbs k)(q := (pcbs k q)\<lparr>pstate := RUNNABLE\<rparr>))
      (a\<lparr>sleepers := us @ vs, ready := ready a @ [q]\<rparr>)"
    using st d s by (auto simp: states_ok_def queued_def)
  moreover have "placed (a\<lparr>sleepers := us @ vs, ready := ready a @ [q]\<rparr>)"
    using pl s by (auto simp: placed_def queued_def)
  ultimately show ?thesis using m(1) n r
    by (intro exI [of _ n]) (simp add: wake_one_def sched_rel_def set_state_def upd_pcb_def)
qed

text \<open>What the pass over the sleepers does to the PCBs.\<close>

definition woken :: "kernel \<Rightarrow> pcbref list \<Rightarrow> pcbref \<Rightarrow> pcb" where
  "woken k ps p = (let b = pcbs k p in
     if p \<in> set ps then b\<lparr>sleepTime := wrap32 (sleepTime b - 1),
       pstate := if due k p then RUNNABLE else pstate b\<rparr> else b)"

lemma wake_loop_ok:
  assumes "sched_rel k a" and "sleepers a = us @ vs"
  shows "\<exists>n. wake_loop (first vs) k = Some (Inr (k\<lparr>nxt := n, pcbs := woken k vs\<rparr>))
    \<and> sched_rel (k\<lparr>nxt := n, pcbs := woken k vs\<rparr>)
        (a\<lparr>sleepers := us @ filter (\<lambda>p. \<not> due k p) vs, ready := ready a @ filter (due k) vs\<rparr>)"
  using assms
proof (induction vs arbitrary: k a us)
  case Nil
  then have u: "us = sleepers a" by simp
  have "a\<lparr>sleepers := sleepers a\<rparr> = a" by (cases a) simp
  then show ?case unfolding u using Nil(1)
    by (intro exI [of _ "nxt k"]) (simp add: wake_loop.simps first_def woken_def [abs_def] Let_def)
next
  case (Cons q vs)
  let ?k = "tick_sleep q k"
  have r1: "sched_rel ?k a" by (rule sched_rel_tick [OF Cons.prems(1)])
  have nx: "nxt ?k q = first vs" by (rule sleepers_next [OF r1 Cons.prems(2)])
  have "distinct (queued a)" using r1 by (simp add: sched_rel_def placed_def)
  then have qv: "q \<notin> set vs" using Cons.prems(2) by (simp add: queued_def)
  show ?case
  proof (cases "due k q")
    case True
    obtain m where m: "wake_one q ?k = Inr ((set_state q RUNNABLE ?k)\<lparr>nxt := m\<rparr>)"
      "sched_rel ((set_state q RUNNABLE ?k)\<lparr>nxt := m\<rparr>) (a\<lparr>sleepers := us @ vs, ready := ready a @ [q]\<rparr>)"
      using wake_one_ok [OF r1 Cons.prems(2)] by blast
    let ?k2 = "(set_state q RUNNABLE ?k)\<lparr>nxt := m\<rparr>"
    have du: "p \<in> set vs \<Longrightarrow> due ?k2 p = due k p" for p
      using qv by (auto simp: due_def set_state_def tick_sleep_def)
    have w: "woken ?k2 vs = woken k (q # vs)"
      using qv True du
      by (intro ext) (auto simp: woken_def Let_def set_state_def tick_sleep_def due_def)
    have f: "filter (due ?k2) vs = filter (due k) vs" "filter (\<lambda>p. \<not> due ?k2 p) vs = filter (\<lambda>p. \<not> due k p) vs"
      using du by (auto intro: filter_cong)
    have st: "sleepTime (pcbs ?k q) = 0" using True by (simp add: tick_sleep_def due_def)
    obtain n where "wake_loop (first vs) ?k2 = Some (Inr (?k2\<lparr>nxt := n, pcbs := woken ?k2 vs\<rparr>))"
      "sched_rel (?k2\<lparr>nxt := n, pcbs := woken ?k2 vs\<rparr>)
        (a\<lparr>sleepers := us @ filter (\<lambda>p. \<not> due k p) vs, ready := (ready a @ [q]) @ filter (due k) vs\<rparr>)"
      using Cons.IH [OF m(2), of us] f by auto
    moreover have "?k2\<lparr>nxt := n, pcbs := woken ?k2 vs\<rparr> = k\<lparr>nxt := n, pcbs := woken k (q # vs)\<rparr>"
      unfolding w by (simp add: set_state_def tick_sleep_def upd_pcb_def)
    moreover have "wake_loop (first (q # vs)) k = wake_loop (first vs) ?k2"
      using st nx m(1) by (simp add: wake_loop.simps [of "Some q" k] Let_def)
    ultimately show ?thesis using True by auto
  next
    case False
    have du: "p \<in> set vs \<Longrightarrow> due ?k p = due k p" for p
      using qv by (auto simp: due_def tick_sleep_def)
    have w: "woken ?k vs = woken k (q # vs)"
      using qv False du by (intro ext) (auto simp: woken_def Let_def tick_sleep_def due_def)
    have f: "filter (due ?k) vs = filter (due k) vs" "filter (\<lambda>p. \<not> due ?k p) vs = filter (\<lambda>p. \<not> due k p) vs"
      using du by (auto intro: filter_cong)
    have st: "sleepTime (pcbs ?k q) \<noteq> 0" using False by (simp add: tick_sleep_def due_def)
    obtain n where "wake_loop (first vs) ?k = Some (Inr (?k\<lparr>nxt := n, pcbs := woken ?k vs\<rparr>))"
      "sched_rel (?k\<lparr>nxt := n, pcbs := woken ?k vs\<rparr>)
        (a\<lparr>sleepers := (us @ [q]) @ filter (\<lambda>p. \<not> due k p) vs, ready := ready a @ filter (due k) vs\<rparr>)"
      using Cons.IH [OF r1, of "us @ [q]"] Cons.prems(2) f by auto
    moreover have "?k\<lparr>nxt := n, pcbs := woken ?k vs\<rparr> = k\<lparr>nxt := n, pcbs := woken k (q # vs)\<rparr>"
      unfolding w by (simp add: tick_sleep_def upd_pcb_def)
    moreover have "wake_loop (first (q # vs)) k = wake_loop (first vs) ?k"
      using st nx by (simp add: wake_loop.simps [of "Some q" k] Let_def)
    ultimately show ?thesis using False by auto
  qed
qed

lemma try_to_wakeup_ok:
  assumes "sched_rel k a"
  shows "\<exists>n. try_to_wakeup k = Inr (k\<lparr>nxt := n, pcbs := woken k (sleepers a)\<rparr>)
    \<and> sched_rel (k\<lparr>nxt := n, pcbs := woken k (sleepers a)\<rparr>) (spec_wakeup (due k) a)"
  using wake_loop_ok [OF assms, of "[]" "sleepers a"] chain_first [OF sleepers_chain [OF assms]]
  by (auto simp: try_to_wakeup_def spec_wakeup_def)

section \<open>The timer\<close>

text \<open>Between interrupts the current process runs and has ticks left.\<close>

definition clock_ok :: "kernel \<Rightarrow> sched \<Rightarrow> bool" where
  "clock_ok k a \<longleftrightarrow> sched_rel k a \<and> pstate (cur k) = RUNNING \<and> 1 \<le> timeCount (cur k) \<and> timeCount (cur k) \<le> 10"

definition spec_tick :: "kernel \<Rightarrow> sched \<Rightarrow> sched" where
  "spec_tick k a = (let b = spec_wakeup (due k) a in
     if timeCount (cur k) = 1 then spec_schedule RUNNING b else b)"

lemma woken_frame [simp]: "timeCount (woken k ps p) = timeCount (pcbs k p)" "tf (woken k ps p) = tf (pcbs k p)"
  "pid (woken k ps p) = pid (pcbs k p)" "psem (woken k ps p) = psem (pcbs k p)"
  by (simp_all add: woken_def Let_def)

lemma woken_other [simp]: "p \<notin> set ps \<Longrightarrow> woken k ps p = pcbs k p"
  by (simp add: woken_def)

lemma sched_frame_woken: "sched_frame k (k\<lparr>nxt := n, pcbs := woken k ps\<rparr>)"
  by (simp add: sched_frame_def woken_def Let_def)

lemma running_awake: "sched_rel k a \<Longrightarrow> current k \<notin> set (sleepers a)"
  by (auto simp: sched_rel_def placed_def queued_def)

lemma can_switch_running: "pstate (cur k) = RUNNING \<Longrightarrow> can_switch k"
  by (auto simp: can_switch_def)

lemma timer_step:
  assumes c: "clock_ok k a" and i: "\<not> intr_nesting k"
  shows "\<exists>k'. timerHandle (tf_addr k (current k)) k = Inr k' \<and> clock_ok k' (spec_tick k a) \<and> sched_frame k k'
    \<and> timeCount (cur k') = (if timeCount (cur k) = 1 then 10 else timeCount (cur k) - 1)
    \<and> (\<forall>q\<in>set (sleepers a). \<not> due k q \<longrightarrow> sleepTime (pcbs k' q) = wrap32 (sleepTime (pcbs k q) - 1))
    \<and> (esp_ok k \<longrightarrow> esp_ok k')"
proof -
  have r: "sched_rel k a" and run: "pstate (cur k) = RUNNING"
    and t: "1 \<le> timeCount (cur k)" "timeCount (cur k) \<le> 10"
    using c by (auto simp: clock_ok_def)
  let ?k1 = "upd_pcb (current k) (\<lambda>b. b\<lparr>timeCount := wrap32 (timeCount b - 1)\<rparr>) k"
  have r1: "sched_rel ?k1 a" using r by (auto simp: sched_rel_def states_ok_def)
  have d: "due ?k1 = due k" by (rule ext) (simp add: due_def)
  obtain n where n: "try_to_wakeup ?k1 = Inr (?k1\<lparr>nxt := n, pcbs := woken ?k1 (sleepers a)\<rparr>)"
    "sched_rel (?k1\<lparr>nxt := n, pcbs := woken ?k1 (sleepers a)\<rparr>) (spec_wakeup (due k) a)"
    using try_to_wakeup_ok [OF r1] by (auto simp: d)
  define k2 where "k2 = ?k1\<lparr>nxt := n, pcbs := woken ?k1 (sleepers a)\<rparr>"
  have f2: "sched_frame k k2"
    unfolding k2_def using sched_frame_intros(7) sched_frame_woken by (rule sched_frame_trans)
  have c2: "pstate (cur k2) = RUNNING" "timeCount (cur k2) = timeCount (cur k) - 1"
    using run running_awake [OF r] t by (simp_all add: k2_def)
  have r2: "sched_rel k2 (spec_wakeup (due k) a)" using n(2) by (simp add: k2_def)
  have e: "timerHandle (tf_addr k (current k)) k = (if timeCount (cur k2) = 0 then schedule k2 else Inr k2)"
    using i n(1) by (simp add: timerHandle_def Let_def k2_def)
  have sl: "sleepTime (pcbs k2 q) = wrap32 (sleepTime (pcbs k q) - 1)" if "q \<in> set (sleepers a)" for q
    using that running_awake [OF r] by (auto simp: k2_def woken_def Let_def)
  have es: "esp_ok k \<longrightarrow> esp_ok k2" by (simp add: k2_def esp_ok_def tf_addr_def)
  show ?thesis
  proof (cases "timeCount (cur k) = 1")
    case True
    have "can_switch k2" by (rule can_switch_running [OF c2(1)])
    then obtain k' where k': "schedule k2 = Inr k'" "sched_rel k' (spec_schedule RUNNING (spec_wakeup (due k) a))"
      "pstate (cur k') = RUNNING" "timeCount (cur k') = 10" "sched_frame k2 k'"
      "switch_keeps (spec_wakeup (due k) a) k2 k'"
      using schedule_ok [OF r2] c2(1) by auto
    have "sleepTime (pcbs k' q) = wrap32 (sleepTime (pcbs k q) - 1)" if "q \<in> set (sleepers a)" "\<not> due k q" for q
      using k'(6) sl [OF that(1)] that by (simp add: switch_keeps_def spec_wakeup_def)
    moreover have "esp_ok k \<longrightarrow> esp_ok k'" using k'(6) es by (simp add: switch_keeps_def)
    moreover have "timerHandle (tf_addr k (current k)) k = Inr k'" using e k'(1) c2(2) True by simp
    moreover have "spec_tick k a = spec_schedule RUNNING (spec_wakeup (due k) a)"
      using True by (simp add: spec_tick_def)
    then have "clock_ok k' (spec_tick k a)" using k'(2-4) by (simp add: clock_ok_def)
    moreover have "sched_frame k k'" by (rule sched_frame_trans [OF f2 k'(5)])
    moreover have "timeCount (cur k') = (if timeCount (cur k) = 1 then 10 else timeCount (cur k) - 1)"
      using True k'(4) by simp
    ultimately show ?thesis by blast
  next
    case False
    then have "timerHandle (tf_addr k (current k)) k = Inr k2" using e c2(2) by simp
    moreover have s: "spec_tick k a = spec_wakeup (due k) a" using False by (simp add: spec_tick_def)
    have "1 \<le> timeCount (cur k2)" "timeCount (cur k2) \<le> 10" unfolding c2(2) using False t by linarith+
    then have "clock_ok k2 (spec_tick k a)" unfolding s clock_ok_def using r2 c2(1) by blast
    ultimately show ?thesis using False c2(2) f2 sl es by auto
  qed
qed

lemma timer_nested: "intr_nesting k \<Longrightarrow> timerHandle tfp k = Inr k"
  by (simp add: timerHandle_def)

text \<open>A run of timer interrupts, with no system call between them.\<close>

primrec ticks :: "nat \<Rightarrow> kernel \<Rightarrow> kernel exec" where
  "ticks 0 k = Inr k"
| "ticks (Suc n) k = bind_r (timerHandle (tf_addr k (current k)) k) (ticks n)"

lemma ticks_add: "ticks (m + n) k = bind_r (ticks m k) (ticks n)"
  by (induction m arbitrary: k) (simp_all add: bind_r_assoc cong: bind_r_cong)

lemma spec_tick_ready: "timeCount (cur k) \<noteq> 1 \<Longrightarrow> ready (spec_tick k a) = ready a @ filter (due k) (sleepers a)"
  by (simp add: spec_tick_def spec_wakeup_def)

lemma spec_tick_switch:
  "timeCount (cur k) = 1 \<Longrightarrow> ready a = q # rs \<Longrightarrow>
    running (spec_tick k a) = q \<and> (\<exists>xs. ready (spec_tick k a) = rs @ xs)"
  by (auto simp: spec_tick_def spec_wakeup_def spec_schedule_def Let_def)

text \<open>
  Time slices for anything that keeps the clock of a kernel: the kernel itself, one timer interrupt after the other, and later
  the processor with it.
\<close>

primrec nsteps :: "('s \<Rightarrow> 's \<Rightarrow> bool) \<Rightarrow> nat \<Rightarrow> 's \<Rightarrow> 's \<Rightarrow> bool" where
  "nsteps R 0 s s' \<longleftrightarrow> s' = s"
| "nsteps R (Suc n) s s' \<longleftrightarrow> (\<exists>s1. R s s1 \<and> nsteps R n s1 s')"

lemma nsteps_add: "nsteps R (m + n) s s2 \<longleftrightarrow> (\<exists>s1. nsteps R m s s1 \<and> nsteps R n s1 s2)"
  by (induction m arbitrary: s) auto

locale ticking =
  fixes tick :: "'s \<Rightarrow> 's \<Rightarrow> bool" and kern :: "'s \<Rightarrow> kernel" and ok :: "'s \<Rightarrow> sched \<Rightarrow> bool"
  assumes ok_clock: "ok s a \<Longrightarrow> clock_ok (kern s) a"
    and tick_returns: "ok s a \<Longrightarrow> \<exists>s'. tick s s'"
    and tick_ok: "ok s a \<Longrightarrow> tick s s' \<Longrightarrow> ok s' (spec_tick (kern s) a)
      \<and> timeCount (cur (kern s')) = (if timeCount (cur (kern s)) = 1 then 10 else timeCount (cur (kern s)) - 1)"
begin

text \<open>The clock never stops.\<close>

lemma never_stuck: "ok s a \<Longrightarrow> \<exists>s' a'. nsteps tick n s s' \<and> ok s' a'"
proof (induction n arbitrary: s a)
  case (Suc n)
  obtain s1 where "tick s s1" "ok s1 (spec_tick (kern s) a)" using tick_returns tick_ok Suc.prems by blast
  then show ?case using Suc.IH by (metis nsteps.simps(2))
qed auto

text \<open>A time slice: after the ticks left to it, the current process gives way to the first ready one.\<close>

lemma slice:
  assumes "ok s a" and "ready a = q # rs" and "timeCount (cur (kern s)) = int t" and "nsteps tick t s s'"
  shows "\<exists>a' xs. ok s' a' \<and> running a' = q \<and> ready a' = rs @ xs \<and> timeCount (cur (kern s')) = 10"
  using assms
proof (induction t arbitrary: s a rs)
  case 0
  then show ?case using ok_clock [OF 0(1)] by (simp add: clock_ok_def)
next
  case (Suc t)
  obtain s1 where t: "tick s s1" and n: "nsteps tick t s1 s'" using Suc.prems(4) by auto
  note s1 = tick_ok [OF Suc.prems(1) t, THEN conjunct1] tick_ok [OF Suc.prems(1) t, THEN conjunct2]
  show ?case
  proof (cases "t = 0")
    case True
    then have "timeCount (cur (kern s)) = 1" using Suc.prems(3) by simp
    with spec_tick_switch [OF this Suc.prems(2)] s1 n True show ?thesis by auto
  next
    case False
    then have tc: "timeCount (cur (kern s)) \<noteq> 1" "timeCount (cur (kern s1)) = int t" using Suc.prems(3) s1(2) by auto
    have "ready (spec_tick (kern s) a) = q # (rs @ filter (due (kern s)) (sleepers a))"
      using spec_tick_ready [OF tc(1)] Suc.prems(2) by simp
    from Suc.IH [OF s1(1) this tc(2) n] show ?thesis by fastforce
  qed
qed

lemma turn:
  assumes "ok s a" and "ready a = us @ p # vs" and "timeCount (cur (kern s)) = int t"
    and "nsteps tick (t + 10 * length us) s s'"
  shows "\<exists>a'. ok s' a' \<and> current (kern s') = p"
  using assms
proof (induction us arbitrary: s a t vs)
  case Nil
  then show ?case using slice [OF Nil(1), of p vs t s'] ok_clock by (fastforce simp: clock_ok_def sched_rel_def)
next
  case (Cons q us)
  have "nsteps tick (t + (10 + 10 * length us)) s s'" using Cons.prems(4) by simp
  then obtain s1 where n: "nsteps tick t s s1" "nsteps tick (10 + 10 * length us) s1 s'"
    unfolding nsteps_add [of _ t] by blast
  obtain a1 xs where s1: "ok s1 a1" "ready a1 = us @ p # (vs @ xs)" "timeCount (cur (kern s1)) = int 10"
    using slice [OF Cons.prems(1) _ Cons.prems(3) n(1), of q "us @ p # vs"] Cons.prems(2) by auto
  show ?case by (rule Cons.IH [OF s1 n(2)])
qed

end

definition ticks_to :: "kernel \<Rightarrow> kernel \<Rightarrow> bool" where
  "ticks_to k k' \<longleftrightarrow> timerHandle (tf_addr k (current k)) k = Inr k'"

lemma ticks_nsteps: "nsteps ticks_to n k k' \<longleftrightarrow> ticks n k = Inr k'"
  by (induction n arbitrary: k) (auto simp: ticks_to_def bind_r_eq_Inr)

interpretation tk: ticking ticks_to "\<lambda>k. k" "\<lambda>k a. clock_ok k a \<and> \<not> intr_nesting k"
proof
  fix k a
  assume "clock_ok k a \<and> \<not> intr_nesting k"
  then show "clock_ok k a" by simp
next
  fix k a
  assume c: "clock_ok k a \<and> \<not> intr_nesting k"
  obtain k1 where k1: "timerHandle (tf_addr k (current k)) k = Inr k1" "clock_ok k1 (spec_tick k a)" "sched_frame k k1"
    "timeCount (cur k1) = (if timeCount (cur k) = 1 then 10 else timeCount (cur k) - 1)"
    using c timer_step by blast
  then show "\<exists>k'. ticks_to k k'" by (auto simp: ticks_to_def)
  fix k'
  assume "ticks_to k k'"
  then have "k' = k1" using k1(1) by (simp add: ticks_to_def)
  then show "(clock_ok k' (spec_tick k a) \<and> \<not> intr_nesting k')
      \<and> timeCount (cur k') = (if timeCount (cur k) = 1 then 10 else timeCount (cur k) - 1)"
    using c k1 sched_frame_fields(11) by auto
qed

lemma turn_comes:
  assumes "clock_ok k a" and "\<not> intr_nesting k" and "ready a = us @ p # vs" and "timeCount (cur k) = int t"
  shows "\<exists>k' a'. ticks (t + 10 * length us) k = Inr k' \<and> clock_ok k' a' \<and> current k' = p"
proof -
  have ok: "clock_ok k a \<and> \<not> intr_nesting k" using assms by blast
  obtain k' where "nsteps ticks_to (t + 10 * length us) k k'" using tk.never_stuck [OF ok] by blast
  from this tk.turn [OF ok assms(3,4) this] show ?thesis unfolding ticks_nsteps by blast
qed


text \<open>A sleeper sleeps for as many ticks as its \<open>sleepTime\<close> says, then it is ready or runs.\<close>

lemma spec_schedule_running:
  "sleepers (spec_schedule RUNNING b) = sleepers b \<and>
   set (ready b) \<subseteq> insert (running (spec_schedule RUNNING b)) (set (ready (spec_schedule RUNNING b)))"
  by (cases "ready b") (auto simp: spec_schedule_def)

lemma spec_tick_sleepers: "sleepers (spec_tick k a) = filter (\<lambda>p. \<not> due k p) (sleepers a)"
  using spec_schedule_running by (simp add: spec_tick_def spec_wakeup_def Let_def)

lemma spec_tick_woken:
  "p \<in> set (sleepers a) \<Longrightarrow> due k p \<Longrightarrow> p \<in> insert (running (spec_tick k a)) (set (ready (spec_tick k a)))"
  using spec_schedule_running [of "spec_wakeup (due k) a"] by (auto simp: spec_tick_def spec_wakeup_def Let_def)

lemma still_sleeping:
  assumes "clock_ok k a" and "\<not> intr_nesting k" and "p \<in> set (sleepers a)"
    and "sleepTime (pcbs k p) = int (n + m)" and "0 < m" and "n + m < 2147483648"
  shows "\<exists>k' a'. ticks n k = Inr k' \<and> clock_ok k' a' \<and> \<not> intr_nesting k' \<and> p \<in> set (sleepers a')
    \<and> sleepTime (pcbs k' p) = int m"
  using assms
proof (induction n arbitrary: k a)
  case 0
  then show ?case by auto
next
  case (Suc n)
  obtain k1 where k1: "timerHandle (tf_addr k (current k)) k = Inr k1" "clock_ok k1 (spec_tick k a)"
    "sched_frame k k1"
    "\<forall>q\<in>set (sleepers a). \<not> due k q \<longrightarrow> sleepTime (pcbs k1 q) = wrap32 (sleepTime (pcbs k q) - 1)"
    using timer_step [OF Suc.prems(1,2)] by blast
  have st: "wrap32 (sleepTime (pcbs k p) - 1) = int (n + m)"
    unfolding Suc.prems(4) using Suc.prems(6) by simp
  then have nd: "\<not> due k p" using Suc.prems(5) by (simp add: due_def)
  have "p \<in> set (sleepers (spec_tick k a))" using nd Suc.prems(3) by (simp add: spec_tick_sleepers)
  moreover have "sleepTime (pcbs k1 p) = int (n + m)" using k1(4) Suc.prems(3) nd st by simp
  moreover have "\<not> intr_nesting k1" using Suc.prems(2) sched_frame_fields(11) [OF k1(3)] by simp
  ultimately show ?case using Suc.IH [OF k1(2)] Suc.prems(5,6) k1(1) by auto
qed

lemma wakes_in_time:
  assumes "clock_ok k a" and "\<not> intr_nesting k" and "p \<in> set (sleepers a)"
    and "sleepTime (pcbs k p) = int (Suc n)" and "Suc n < 2147483648"
  shows "\<exists>k' a'. ticks (Suc n) k = Inr k' \<and> clock_ok k' a' \<and> p \<notin> set (sleepers a')
    \<and> (p \<in> set (ready a') \<or> current k' = p)"
proof -
  have e: "ticks (Suc n) k = bind_r (ticks n k) (ticks 1)" using ticks_add [of n 1 k] by simp
  obtain k1 a1 where k1: "ticks n k = Inr k1" "clock_ok k1 a1" "\<not> intr_nesting k1" "p \<in> set (sleepers a1)"
    "sleepTime (pcbs k1 p) = int 1"
    using still_sleeping [OF assms(1-3), of n 1] assms(4,5) by auto
  have d: "due k1 p" using k1(5) by (simp add: due_def)
  obtain k2 where k2: "timerHandle (tf_addr k1 (current k1)) k1 = Inr k2" "clock_ok k2 (spec_tick k1 a1)"
    using timer_step [OF k1(2,3)] by blast
  have "p \<notin> set (sleepers (spec_tick k1 a1))" using d by (simp add: spec_tick_sleepers)
  moreover have "p \<in> set (ready (spec_tick k1 a1)) \<or> current k2 = p"
    using spec_tick_woken [OF k1(4) d] k2(2) by (auto simp: clock_ok_def sched_rel_def)
  moreover have "ticks (Suc n) k = Inr k2" using e k1(1) k2(1) by simp
  ultimately show ?thesis using k2(2) by blast
qed

text \<open>A sleeper whose time is not positive does not wake in this way: the next tick makes it negative.\<close>

lemma never_due: "sleepTime (pcbs k p) \<le> 0 \<Longrightarrow> -2147483648 < sleepTime (pcbs k p) \<Longrightarrow> \<not> due k p"
  by (simp add: due_def)

end
