(* ===== verification/Semprops.thy ===== *)
theory Semprops
  imports Process Schedprops
begin

text \<open>
  Semaphores against a counter with a first-come queue. \<open>sem_rel k a s\<close> relates the
  \<open>struct semaphore\<close> at address \<open>s\<close> to the waiting processes of the abstract scheduler: the
  value is negative exactly when processes wait, and then counts them.
\<close>

definition sem_rel :: "kernel \<Rightarrow> sched \<Rightarrow> u32 \<Rightarrow> bool" where
  "sem_rel k a s \<longleftrightarrow> sem_at s \<and> sem_list k s = Inr DummySem
     \<and> int (length (waiters a)) = (if sem_value k s < 0 then - sem_value k s else 0)"

text \<open>A process calls the kernel: it runs, it is not the idle process.\<close>

definition calling :: "kernel \<Rightarrow> sched \<Rightarrow> bool" where
  "calling k a \<longleftrightarrow> sched_rel k a \<and> pstate (cur k) = RUNNING \<and> current k \<noteq> IdlePcb"

lemma sched_rel_same:
  "sched_rel k a \<Longrightarrow> nxt k' = nxt k \<Longrightarrow> current k' = current k \<Longrightarrow>
    (\<And>p. pstate (pcbs k' p) = pstate (pcbs k p)) \<Longrightarrow> sched_rel k' a"
  by (simp add: sched_rel_def states_ok_def)

lemma sem_value_frame: "mem k' = mem k \<Longrightarrow> sem_value k' s = sem_value k s"
  by (simp add: sem_value_def)

lemma sem_list_frame: "mem k' = mem k \<Longrightarrow> kaddr k' = kaddr k \<Longrightarrow> sem_list k' s = sem_list k s"
  by (simp add: sem_list_def ref_at_def)

lemma set_sem_value_simps [simp]:
  "nxt (set_sem_value s v k) = nxt k" "pcbs (set_sem_value s v k) = pcbs k"
  "current (set_sem_value s v k) = current k" "kaddr (set_sem_value s v k) = kaddr k"
  "serial (set_sem_value s v k) = serial k"
  by (simp_all add: set_sem_value_def)

lemma sched_rel_set_sem_value [simp]: "sched_rel (set_sem_value s v k) a = sched_rel k a"
  by (simp add: sched_rel_def)

lemma sched_rel_set_eax: "sched_rel k a \<Longrightarrow> sched_rel (set_eax v k) a"
  by (auto simp: sched_rel_def states_ok_def set_eax_def)

lemma set_eax_simps [simp]:
  "nxt (set_eax v k) = nxt k" "current (set_eax v k) = current k" "mem (set_eax v k) = mem k"
  "kaddr (set_eax v k) = kaddr k" "pstate (pcbs (set_eax v k) p) = pstate (pcbs k p)"
  "psem (pcbs (set_eax v k) p) = psem (pcbs k p)" "timeCount (pcbs (set_eax v k) p) = timeCount (pcbs k p)"
  "pid (pcbs (set_eax v k) p) = pid (pcbs k p)" "p_num (set_eax v k) = p_num k"
  by (simp_all add: set_eax_def)

lemma calling_set_eax: "calling k a \<Longrightarrow> calling (set_eax v k) a"
  by (simp add: calling_def sched_rel_set_eax)

lemma sem_rel_set_eax [simp]: "sem_rel (set_eax v k) a s = sem_rel k a s"
  using sem_value_frame [of "set_eax v k" k s] sem_list_frame [of "set_eax v k" k s]
  by (simp add: sem_rel_def)

lemma sched_rel_block:
  "sched_rel k a \<Longrightarrow> sched_rel (set_state (current k) s k) a"
  by (auto simp: sched_rel_def states_ok_def set_state_def placed_def set_queued)

lemma set_state_simps [simp]:
  "nxt (set_state p s k) = nxt k" "current (set_state p s k) = current k" "mem (set_state p s k) = mem k"
  "kaddr (set_state p s k) = kaddr k" "serial (set_state p s k) = serial k"
  "fs (set_state p s k) = fs k" "disk (set_state p s k) = disk k" "p_num (set_state p s k) = p_num k"
  "sysFileTable (set_state p s k) = sysFileTable k"
  "pcbs (set_state p s k) = (pcbs k)(p := (pcbs k p)\<lparr>pstate := s\<rparr>)"
  by (simp_all add: set_state_def)

section \<open>P\<close>

lemma spec_schedule_waiters: "s \<noteq> SEM_BLOCKED \<Longrightarrow> waiters (spec_schedule s a) = waiters a"
  by (cases s) (auto simp: spec_schedule_def split: list.splits)

lemma spec_schedule_block: "waiters (spec_schedule SEM_BLOCKED a) = waiters a @ [running a]"
  by (auto simp: spec_schedule_def split: list.splits)

lemma sem_P_go:
  assumes "calling k a" and "sem_rel k a s" and "0 < sem_value k s"
  shows "sem_P s k = Inr (set_sem_value s (sem_value k s - 1) k)
    \<and> calling (set_sem_value s (sem_value k s - 1) k) a
    \<and> sem_rel (set_sem_value s (sem_value k s - 1) k) a s"
  using assms sem_value_range [of k s] by (simp add: sem_P_def sem_rel_def calling_def)

lemma sem_P_wait:
  assumes c: "calling k a" and r: "sem_rel k a s" and v: "sem_value k s \<le> 0" "-2147483648 < sem_value k s"
    and p: "psem (cur k) = s"
  shows "\<exists>k'. sem_P s k = Inr k' \<and> sched_rel k' (spec_schedule SEM_BLOCKED a)
    \<and> pstate (cur k') = RUNNING \<and> timeCount (cur k') = 10
    \<and> sem_value k' s = sem_value k s - 1 \<and> sem_rel k' (spec_schedule SEM_BLOCKED a) s
    \<and> kaddr k' = kaddr k"
proof -
  let ?k1 = "set_sem_value s (sem_value k s - 1) k"
  let ?k2 = "set_state (current k) SEM_BLOCKED ?k1"
  have l: "sem_list ?k2 s = Inr DummySem" "sem_at s" using r by (simp_all add: sem_rel_def)
  have v1: "sem_value ?k1 s = sem_value k s - 1" using v by simp
  have v2: "sem_value ?k2 s = sem_value k s - 1" using v1 sem_value_frame [of ?k2 ?k1 s] by simp
  have rel: "sched_rel ?k2 a" using sched_rel_block [of ?k1 a SEM_BLOCKED] c by (simp add: calling_def)
  have "can_switch ?k2" using c l p by (simp add: can_switch_def calling_def)
  then obtain k' where k': "schedule ?k2 = Inr k'" "sched_rel k' (spec_schedule SEM_BLOCKED a)"
    "pstate (cur k') = RUNNING" "timeCount (cur k') = 10" "sched_frame ?k2 k'"
    using schedule_ok [OF rel] by auto
  have "sem_value k' s = sem_value k s - 1" "sem_list k' s = Inr DummySem"
    using sched_frame_fields(1,12) [OF k'(5)] v2 l(1) sem_value_frame [of k' ?k2 s] sem_list_frame [of k' ?k2 s]
    by simp_all
  moreover from this have "sem_rel k' (spec_schedule SEM_BLOCKED a) s"
    using r v(1) by (auto simp: sem_rel_def spec_schedule_block split: if_splits)
  moreover have "sem_P s k = Inr k'" using v1 v(1) k'(1) l(2) by (simp add: sem_P_def Let_def)
  moreover have "kaddr k' = kaddr k" using sched_frame_fields(12) [OF k'(5)] by simp
  ultimately show ?thesis using k' by blast
qed

text \<open>\<open>schedule\<close> queues a process that must wait through its own \<open>psem\<close>: without one there is no list.\<close>

lemma sem_P_stray:
  assumes "calling k a" and "sem_at s" and "sem_value k s \<le> 0" "-2147483648 < sem_value k s" and "\<not> sem_at (psem (cur k))"
  shows "sem_P s k = Inl OutOfBounds"
proof -
  let ?k1 = "set_sem_value s (sem_value k s - 1) k"
  let ?k2 = "set_state (current k) SEM_BLOCKED ?k1"
  have v: "sem_value ?k1 s = sem_value k s - 1" using assms(3,4) by simp
  have "queue_current ?k2 = Inl OutOfBounds" using assms(5) by (simp add: queue_current_def require_def)
  then have "switch_process ?k2 = Inl OutOfBounds" by (simp add: switch_process_def)
  then have "schedule ?k2 = Inl OutOfBounds" by (simp add: schedule_def)
  then show ?thesis using v assms(2,3) by (simp add: sem_P_def Let_def)
qed


section \<open>V\<close>

definition spec_wake :: "sched \<Rightarrow> sched" where
  "spec_wake a = (case waiters a of [] \<Rightarrow> a | p # ps \<Rightarrow> a\<lparr>waiters := ps, ready := ready a @ [p]\<rparr>)"

lemma pop_waiter:
  assumes r: "sched_rel k a" and w: "waiters a = p # ps"
  shows "list_head (nxt k) DummySem = Inr p \<and> (\<exists>n m. delete_from DummySem p k = Inr (k\<lparr>nxt := m\<rparr>)
    \<and> add_to Dummy1 p (set_state p RUNNABLE (k\<lparr>nxt := m\<rparr>)) = Inr ((set_state p RUNNABLE k)\<lparr>nxt := n\<rparr>)
    \<and> sched_rel ((set_state p RUNNABLE k)\<lparr>nxt := n\<rparr>) (spec_wake a))"
proof -
  have pl: "placed a" and st: "states_ok (pcbs k) a" and q: "queues chain (nxt k) heads (queue_of a)"
    using r by (auto simp: sched_rel_def)
  have d: "distinct (queued a)" "set (queued a) \<subseteq> procs" using pl by (auto simp: placed_def)
  obtain m where m: "list_head (nxt k) DummySem = Inr p" "delete_from DummySem p k = Inr (k\<lparr>nxt := m\<rparr>)"
    "queues chain m heads (queue_of (a\<lparr>waiters := ps\<rparr>))"
    using pl.queues_pop [OF q, of DummySem p ps] w by (auto simp: delete_from_def)
  have "p \<notin> set (queued (a\<lparr>waiters := ps\<rparr>))" "p \<notin> heads"
    using d w procs_notin_heads by (auto simp: queued_def)
  then obtain n where n: "add_to Dummy1 p (set_state p RUNNABLE (k\<lparr>nxt := m\<rparr>)) =
      Inr ((set_state p RUNNABLE (k\<lparr>nxt := m\<rparr>))\<lparr>nxt := n\<rparr>)"
    "queues chain n heads (queue_of (a\<lparr>waiters := ps, ready := ready a @ [p]\<rparr>))"
    using add_to_rel [of "set_state p RUNNABLE (k\<lparr>nxt := m\<rparr>)" "a\<lparr>waiters := ps\<rparr>" Dummy1 p] m by auto
  have "states_ok ((pcbs k)(p := (pcbs k p)\<lparr>pstate := RUNNABLE\<rparr>)) (a\<lparr>waiters := ps, ready := ready a @ [p]\<rparr>)"
    using st d w by (auto simp: states_ok_def queued_def)
  moreover have "placed (a\<lparr>waiters := ps, ready := ready a @ [p]\<rparr>)"
    using pl w by (auto simp: placed_def queued_def)
  moreover have "(set_state p RUNNABLE (k\<lparr>nxt := m\<rparr>))\<lparr>nxt := n\<rparr> = (set_state p RUNNABLE k)\<lparr>nxt := n\<rparr>"
    by (simp add: set_state_def upd_pcb_def)
  ultimately show ?thesis using m n r w
    by (auto simp: sched_rel_def spec_wake_def)
qed

lemma sem_V_wake:
  assumes r: "sched_rel k a" and s: "sem_rel k a s" and v: "sem_value k s < 0"
  shows "\<exists>k'. sem_V s k = Inr k' \<and> sched_rel k' (spec_wake a) \<and> sem_value k' s = sem_value k s + 1
    \<and> sem_rel k' (spec_wake a) s \<and> current k' = current k \<and> pstate (cur k') = pstate (cur k)"
proof -
  have "waiters a \<noteq> []" using s v by (auto simp: sem_rel_def)
  then obtain p ps where w: "waiters a = p # ps" by (cases "waiters a") auto
  obtain n m where nm: "list_head (nxt k) DummySem = Inr p" "delete_from DummySem p k = Inr (k\<lparr>nxt := m\<rparr>)"
    "add_to Dummy1 p (set_state p RUNNABLE (k\<lparr>nxt := m\<rparr>)) = Inr ((set_state p RUNNABLE k)\<lparr>nxt := n\<rparr>)"
    "sched_rel ((set_state p RUNNABLE k)\<lparr>nxt := n\<rparr>) (spec_wake a)"
    using pop_waiter [OF r w] by blast
  let ?k1 = "(set_state p RUNNABLE k)\<lparr>nxt := n\<rparr>"
  have v1: "sem_value ?k1 s = sem_value k s" by (rule sem_value_frame) simp
  have l1: "sem_list ?k1 s = Inr DummySem" "sem_at s"
    using s sem_list_frame [of ?k1 k s] by (simp_all add: sem_rel_def)
  let ?k' = "set_sem_value s (sem_value k s + 1) ?k1"
  have e: "sem_V s k = Inr ?k'" using nm v s by (simp add: sem_V_def sem_rel_def v1)
  have v': "sem_value ?k' s = sem_value k s + 1" using v sem_value_range [of k s] by simp
  have ps: "1 + int (length ps) = - sem_value k s" using s v w by (simp add: sem_rel_def)
  then have "ps = []" if "\<not> sem_value k s + 1 < 0" using that by (cases ps) simp_all
  then have "sem_rel ?k' (spec_wake a) s"
    using ps v' l1 w by (auto simp: sem_rel_def spec_wake_def)
  moreover have "p \<noteq> current k" using r w by (auto simp: sched_rel_def placed_def queued_def)
  ultimately show ?thesis using e v' nm(4) by (intro exI [of _ ?k']) simp
qed

lemma sem_V_count:
  assumes "sched_rel k a" and "sem_rel k a s" and "0 \<le> sem_value k s" "sem_value k s < 2147483647"
  shows "sem_V s k = Inr (set_sem_value s (sem_value k s + 1) k)
    \<and> sem_rel (set_sem_value s (sem_value k s + 1) k) a s \<and> spec_wake a = a"
  using assms by (auto simp: sem_V_def sem_rel_def spec_wake_def)

text \<open>A negative semaphore with nobody waiting stops the machine in \<open>list_head\<close>.\<close>

lemma sem_V_empty:
  assumes "sched_rel k a" and "waiters a = []" and "sem_value k s < 0" and "sem_at s"
    and "sem_list k s = Inr DummySem"
  shows "sem_V s k = Inl (AssertFail ''list.c'' 26)"
proof -
  have "chain (nxt k) DummySem []" using assms(1,2) by (auto simp: sched_rel_def queues_def heads_def)
  then show ?thesis using assms list_head_empty by (simp add: sem_V_def)
qed


section \<open>sem_init\<close>

lemma queues_reset_waiters:
  assumes "queues chain nx heads (queue_of a)"
  shows "queues chain (nx(DummySem := None)) heads (queue_of (a\<lparr>waiters := []\<rparr>))"
proof -
  have d: "\<And>g. g \<in> heads \<Longrightarrow> g \<noteq> DummySem \<Longrightarrow> DummySem \<notin> set (g # queue_of a g)"
    using assms unfolding queues_def by (metis (no_types, lifting) disjoint_iff heads_simps(4) list.set_intros(1))
  have "chain (nx(DummySem := None)) g (queue_of a g)" if "g \<in> heads" "g \<noteq> DummySem" for g
    using assms that d [OF that] by (simp only: queues_def chain_upd_other) simp
  then show ?thesis using assms
    by (auto simp: queues_def heads_def)
qed

lemma sched_rel_reset:
  assumes "sched_rel k a"
  shows "sched_rel (k\<lparr>nxt := (nxt k)(DummySem := None)\<rparr>) (a\<lparr>waiters := []\<rparr>)"
proof -
  have "placed (a\<lparr>waiters := []\<rparr>)" "states_ok (pcbs k) (a\<lparr>waiters := []\<rparr>)"
    using assms by (auto simp: sched_rel_def placed_def states_ok_def queued_def)
  then show ?thesis using assms queues_reset_waiters [of "nxt k" a] by (simp add: sched_rel_def)
qed

lemma sem_init_ok:
  assumes c: "calling k a" and l: "linked k" and s: "sem_at s'" and v: "-2147483648 \<le> v" "v < 2147483648"
    and s': "s' = (if pid (cur k) = 2 then s + Child_Data_Offst else s)"
  shows "\<exists>k'. sem_init_aux s v k = Inr k' \<and> calling k' (a\<lparr>waiters := []\<rparr>) \<and> sem_value k' s' = v
    \<and> sem_list k' s' = Inr DummySem \<and> psem (cur k') = s' \<and> tf_eax (tf (cur k')) = 0
    \<and> (0 \<le> v \<longrightarrow> sem_rel k' (a\<lparr>waiters := []\<rparr>) s') \<and> p_num k' = p_num k \<and> kaddr k' = kaddr k
    \<and> sysFileTable k' = sysFileTable k \<and> current k' = current k
    \<and> filepointer (cur k') = filepointer (cur k) \<and> pid (cur k') = pid (cur k)"
proof -
  let ?k1 = "set_sem_value s' v (set_psem s' k)"
  let ?k2 = "?k1\<lparr>nxt := (nxt ?k1)(DummySem := None)\<rparr>"
  let ?k' = "set_eax 0 (set_sem_list s' DummySem ?k2)"
  have e: "sem_init_aux s v k = Inr ?k'" using s s' by (simp add: sem_init_aux_def Let_def)
  have f: "p_num ?k' = p_num k" "kaddr ?k' = kaddr k" "sysFileTable ?k' = sysFileTable k"
    by (simp_all add: set_psem_def set_sem_value_def set_sem_list_def set_eax_def)
  have n: "nxt ?k' = (nxt k)(DummySem := None)" "current ?k' = current k"
    "pcbs ?k' = (pcbs k)(current k := (cur k)\<lparr>psem := s', tf := (tf (cur k))\<lparr>tf_eax := 0\<rparr>\<rparr>)"
    by (simp_all add: set_psem_def set_sem_value_def set_sem_list_def set_eax_def)
  have r: "sched_rel k a" using c by (simp add: calling_def)
  have "sched_rel ?k' (a\<lparr>waiters := []\<rparr>)"
    by (rule sched_rel_same [OF sched_rel_reset [OF r]]; unfold n) simp_all
  then have "calling ?k' (a\<lparr>waiters := []\<rparr>)" using c unfolding calling_def n(2,3) by simp
  moreover have "sem_value ?k' s' = v"
  proof -
    have "sem_value ?k' s' = sem_value (set_sem_list s' DummySem ?k2) s'" by (rule sem_value_frame) simp
    also have "\<dots> = sem_value ?k2 s'" by (rule sem_value_set_list)
    also have "\<dots> = sem_value ?k1 s'" by (rule sem_value_frame) simp
    finally show ?thesis using v by simp
  qed
  moreover have "sem_list ?k' s' = Inr DummySem"
  proof -
    have "linked ?k2" using l by (simp add: linked_def set_psem_def set_sem_value_def)
    then have "sem_list (set_sem_list s' DummySem ?k2) s' = Inr DummySem"
      by (rule sem_list_set_list) (simp add: all_refs_def)
    then show ?thesis using sem_list_frame [of ?k' "set_sem_list s' DummySem ?k2" s'] by simp
  qed
  ultimately show ?thesis using s e n f by (intro exI [of _ ?k']) (auto simp: sem_rel_def)
qed

end
