(* ===== verification/Processprops.thy ===== *)
theory Processprops
  imports Semprops
begin

text \<open>
  The life of a process against the abstract scheduler: the table after \<open>initPcb\<close>, the
  first process, fork, sleep and exit.
\<close>

section \<open>sleep and exit\<close>

lemma sched_rel_cur_upd:
  "sched_rel k a \<Longrightarrow> sched_rel (upd_pcb (current k) f k) a"
  by (auto simp: sched_rel_def states_ok_def placed_def set_queued)

lemma sleep_aux_ok:
  assumes "calling k a"
  shows "\<exists>k'. sleep_aux t k = Inr k' \<and> sched_rel k' (spec_schedule BLOCKED a) \<and> pstate (cur k') = RUNNING
    \<and> timeCount (cur k') = 10 \<and> sched_frame (upd_pcb (current k) (\<lambda>b. b\<lparr>pstate := BLOCKED, sleepTime := t\<rparr>) k) k'"
proof -
  let ?k = "upd_pcb (current k) (\<lambda>b. b\<lparr>pstate := BLOCKED, sleepTime := t\<rparr>) k"
  have "sched_rel ?k a" using assms sched_rel_cur_upd by (simp add: calling_def)
  moreover have "can_switch ?k" using assms by (simp add: can_switch_def calling_def)
  ultimately show ?thesis using schedule_ok [of ?k a] by (auto simp: sleep_aux_def)
qed

lemma exit_aux_ok:
  assumes "calling k a"
  shows "\<exists>k'. exit_aux k = Inr k' \<and> sched_rel k' (spec_schedule DEAD a) \<and> pstate (cur k') = RUNNING
    \<and> timeCount (cur k') = 10 \<and> p_num k' = wrap32 (p_num k - 1)
    \<and> write_back (fs k) (mem k) (disk k) = Inr (disk k') \<and> fs k' = fs k \<and> sysFileTable k' = sysFileTable k
    \<and> scr k' = scr k"
proof -
  let ?k1 = "set_state (current k) DEAD k"
  let ?k2 = "?k1\<lparr>p_num := wrap32 (p_num ?k1 - 1)\<rparr>"
  obtain d where d: "write_back (fs k) (mem k) (disk k) = Inr d" by (simp add: write_back_eq)
  let ?k3 = "?k2\<lparr>disk := d\<rparr>"
  have f: "fs ?k2 = fs k" "mem ?k2 = mem k" "disk ?k2 = disk k" by (simp_all add: set_state_def)
  have "sched_rel ?k1 a" using assms sched_rel_block by (simp add: calling_def)
  then have r: "sched_rel ?k3 a" by (rule sched_rel_same) simp_all
  have "can_switch ?k3" using assms by (simp add: can_switch_def calling_def)
  then obtain k' where k': "schedule ?k3 = Inr k'" "sched_rel k' (spec_schedule DEAD a)"
    "pstate (cur k') = RUNNING" "timeCount (cur k') = 10" "sched_frame ?k3 k'"
    using schedule_ok [OF r] by auto
  have "exit_aux k = Inr k'"
    using k'(1) by (simp add: exit_aux_def Let_def writeBack_def f d)
  then show ?thesis using k' sched_frame_fields [OF k'(5)] d by (simp add: set_state_def)
qed


section \<open>fork\<close>

lemma copy_image_eq: "n \<le> 0x200000 \<Longrightarrow> copy_image n m =
    (\<lambda>k. if 0x400000 \<le> k \<and> k < 0x400000 + n then m (k - 0x200000) else m k)"
proof (induction n)
  case 0
  then show ?case by (auto simp: fun_eq_iff)
next
  case (Suc n)
  then show ?case by (auto simp: fun_eq_iff Let_def)
qed

definition open_files_ok :: "pcb \<Rightarrow> sysFile list \<Rightarrow> bool" where
  "open_files_ok b t \<longleftrightarrow> (\<forall>i\<in>set (filepointer b). i = -1 \<or> 0 \<le> i \<and> nat i < length t)"

text \<open>The open-file table with one more link for each descriptor of the list.\<close>

definition more_links :: "int list \<Rightarrow> sysFile list \<Rightarrow> sysFile list" where
  "more_links fps t = map (\<lambda>j. if int j \<in> set fps
     then (t ! j)\<lparr>link_num := wrap32 (link_num (t ! j) + int (count_list fps (int j)))\<rparr> else t ! j) [0..<length t]"

lemma count_list_notin: "x \<notin> set xs \<Longrightarrow> count_list xs x = 0"
  by (induction xs) auto

lemma more_links_step:
  assumes "0 \<le> i" and "nat i < length t"
  shows "more_links fps (t[nat i := (t ! nat i)\<lparr>link_num := wrap32 (link_num (t ! nat i) + 1)\<rparr>]) = more_links (i # fps) t"
proof (rule nth_equalityI)
  fix j
  assume "j < length (more_links fps (t[nat i := (t ! nat i)\<lparr>link_num := wrap32 (link_num (t ! nat i) + 1)\<rparr>]))"
  then have j: "j < length t" by (simp add: more_links_def)
  show "more_links fps (t[nat i := (t ! nat i)\<lparr>link_num := wrap32 (link_num (t ! nat i) + 1)\<rparr>]) ! j
      = more_links (i # fps) t ! j"
  proof (cases "int j = i")
    case True
    then have "nat i = j" by simp
    with True j show ?thesis
      by (auto simp: more_links_def count_list_notin add.assoc)
  next
    case False
    then have "nat i \<noteq> j" using assms(1) by auto
    with False j show ?thesis by (simp add: more_links_def)
  qed
qed (simp add: more_links_def)

lemma link_files_ok:
  "\<forall>i\<in>set fps. i = -1 \<or> 0 \<le> i \<and> nat i < length t \<Longrightarrow> link_files fps t = Inr (more_links fps t)"
proof (induction fps arbitrary: t)
  case Nil
  then show ?case by (simp add: more_links_def map_nth)
next
  case (Cons i fps)
  show ?case
  proof (cases "i = -1")
    case True
    have "more_links (i # fps) t = more_links fps t" using True by (auto simp: more_links_def)
    then show ?thesis using Cons True by simp
  next
    case False
    then have i: "0 \<le> i" "nat i < length t" using Cons.prems by auto
    then show ?thesis using Cons False by (simp add: Let_def more_links_step)
  qed
qed

lemma sched_rel_move_free:
  assumes r: "sched_rel k a" and c: "c \<in> set (freed a)"
  shows "\<exists>m. delete_from Dummy3 c k = Inr (k\<lparr>nxt := m\<rparr>) \<and>
    (\<forall>k'. nxt k' = m \<longrightarrow> current k' = current k \<longrightarrow> pstate (pcbs k' c) = RUNNABLE \<longrightarrow>
       (\<forall>p. p \<noteq> c \<longrightarrow> pstate (pcbs k' p) = pstate (pcbs k p)) \<longrightarrow>
       (\<exists>n. add_to Dummy1 c k' = Inr (k'\<lparr>nxt := n\<rparr>)
         \<and> sched_rel (k'\<lparr>nxt := n\<rparr>) (a\<lparr>freed := remove1 c (freed a), ready := ready a @ [c]\<rparr>)))"
proof -
  have pl: "placed a" and st: "states_ok (pcbs k) a" and q: "queues chain (nxt k) heads (queue_of a)"
    and cr: "current k = running a"
    using r by (auto simp: sched_rel_def)
  have d: "distinct (queued a)" "set (queued a) \<subseteq> procs" using pl by (auto simp: placed_def)
  let ?b = "a\<lparr>freed := remove1 c (freed a)\<rparr>"
  let ?c = "a\<lparr>freed := remove1 c (freed a), ready := ready a @ [c]\<rparr>"
  obtain m where m: "delete_from Dummy3 c k = Inr (k\<lparr>nxt := m\<rparr>)" "queues chain m heads (queue_of ?b)"
    using delete_from_rel [OF q, of Dummy3 c] c by auto
  have cq: "c \<in> procs" "c \<notin> heads" using c d procs_notin_heads by (auto simp: queued_def)
  have dc: "distinct (queued ?c)" using d c by (auto simp: queued_def dest: notin_set_remove1)
  have cb: "c \<notin> set (queued ?b)" using d c by (auto simp: queued_def dest: notin_set_remove1)
  have "set (queued ?c) \<subseteq> set (queued a)" using c set_remove1_subset [of c "freed a"] by (auto simp: queued_def)
  then have plc: "placed ?c" using pl dc unfolding placed_def by auto
  have "\<exists>n. add_to Dummy1 c k' = Inr (k'\<lparr>nxt := n\<rparr>) \<and> sched_rel (k'\<lparr>nxt := n\<rparr>) ?c"
    if k': "nxt k' = m" "current k' = current k" "pstate (pcbs k' c) = RUNNABLE"
      "\<forall>p. p \<noteq> c \<longrightarrow> pstate (pcbs k' p) = pstate (pcbs k p)" for k'
  proof -
    obtain n where n: "add_to Dummy1 c k' = Inr (k'\<lparr>nxt := n\<rparr>)" "queues chain n heads (queue_of ?c)"
      using add_to_rel [of k' ?b Dummy1 c] m(2) k'(1) cb cq(2) by auto
    have "states_ok (pcbs k') ?c"
      using st k'(3,4) cb by (auto simp: states_ok_def set_queued dest: notin_set_remove1)
        (metis notin_set_remove1)+
    then show ?thesis using n plc k'(2) cr by (auto simp: sched_rel_def)
  qed
  then show ?thesis using m(1) by blast
qed


text \<open>fork's child: the parent's registers and open files, a copy of its memory.\<close>

lemma fork_aux_ok:
  assumes c: "calling k a" and n: "0 \<le> p_num k" "p_num k < 10" and f: "Pcb (nat (p_num k)) \<in> set (freed a)"
    and o: "open_files_ok (cur k) (sysFileTable k)"
  defines "ch \<equiv> Pcb (nat (p_num k))"
  shows "\<exists>k'. fork_aux k = Inr k' \<and> calling k' (a\<lparr>freed := remove1 ch (freed a), ready := ready a @ [ch]\<rparr>)
    \<and> current k' = current k \<and> p_num k' = p_num k + 1
    \<and> sysFileTable k' = more_links (filepointer (cur k)) (sysFileTable k)
    \<and> mem k' = copy_image 0x200000 (mem k) \<and> fs k' = fs k
    \<and> cur k' = (cur k)\<lparr>tf := (tf (cur k))\<lparr>tf_eax := word_of_int (p_num k)\<rparr>\<rparr>
    \<and> pcbs k' ch = child_pcb (p_num k) (cur k) (pcbs k ch)
    \<and> tss_esp0 k' = tss_esp0 k \<and> kaddr k' = kaddr k \<and> intr_nesting k' = intr_nesting k
    \<and> (\<forall>p. p \<noteq> ch \<and> p \<noteq> current k \<longrightarrow> pcbs k' p = pcbs k p)"
proof -
  have r: "sched_rel k a" using c by (simp add: calling_def)
  have cc: "ch \<noteq> current k" using r f by (auto simp: sched_rel_def placed_def queued_def ch_def)
  obtain m where m: "delete_from Dummy3 ch k = Inr (k\<lparr>nxt := m\<rparr>)"
    "\<And>k'. nxt k' = m \<Longrightarrow> current k' = current k \<Longrightarrow> pstate (pcbs k' ch) = RUNNABLE \<Longrightarrow>
       (\<forall>p. p \<noteq> ch \<longrightarrow> pstate (pcbs k' p) = pstate (pcbs k p)) \<Longrightarrow>
       \<exists>n. add_to Dummy1 ch k' = Inr (k'\<lparr>nxt := n\<rparr>)
         \<and> sched_rel (k'\<lparr>nxt := n\<rparr>) (a\<lparr>freed := remove1 ch (freed a), ready := ready a @ [ch]\<rparr>)"
    using sched_rel_move_free [OF r, of ch] f by (auto simp: ch_def)
  let ?t = "more_links (filepointer (cur k)) (sysFileTable k)"
  define k1 where "k1 = upd_pcb ch (child_pcb (p_num k) (cur k)) (k\<lparr>nxt := m, sysFileTable := ?t\<rparr>)"
  define k2 where "k2 = set_eax (word_of_int (p_num k)) (k1\<lparr>mem := copy_image 0x200000 (mem k1)\<rparr>)"
  have P: "pcbs k2 = (pcbs k)(ch := child_pcb (p_num k) (cur k) (pcbs k ch),
      current k := (cur k)\<lparr>tf := (tf (cur k))\<lparr>tf_eax := word_of_int (p_num k)\<rparr>\<rparr>)"
    using cc by (auto simp: k2_def k1_def set_eax_def)
  have F: "nxt k2 = m" "current k2 = current k" "p_num k2 = p_num k" "fs k2 = fs k" "sysFileTable k2 = ?t"
    "mem k2 = copy_image 0x200000 (mem k)" "tss_esp0 k2 = tss_esp0 k" "kaddr k2 = kaddr k"
    "intr_nesting k2 = intr_nesting k"
    by (simp_all add: k2_def k1_def set_eax_def)
  have "pstate (pcbs k2 ch) = RUNNABLE" "\<forall>p. p \<noteq> ch \<longrightarrow> pstate (pcbs k2 p) = pstate (pcbs k p)"
    using cc by (simp_all add: P child_pcb_def)
  then obtain x where x: "add_to Dummy1 ch k2 = Inr (k2\<lparr>nxt := x\<rparr>)"
    "sched_rel (k2\<lparr>nxt := x\<rparr>) (a\<lparr>freed := remove1 ch (freed a), ready := ready a @ [ch]\<rparr>)"
    using m(2) [OF F(1,2)] by blast
  let ?k' = "k2\<lparr>nxt := x, p_num := p_num k + 1\<rparr>"
  have l: "link_files (filepointer (cur k)) (sysFileTable k) = Inr ?t"
    using o by (intro link_files_ok) (simp add: open_files_ok_def)
  have "fork_aux k = Inr ?k'"
    using n m(1) l x(1) F(3) by (simp add: fork_aux_def pcb_ref_def ch_def k1_def k2_def Let_def)
  moreover have "sched_rel ?k' (a\<lparr>freed := remove1 ch (freed a), ready := ready a @ [ch]\<rparr>)"
    by (rule sched_rel_same [OF x(2)]) simp_all
  then have "calling ?k' (a\<lparr>freed := remove1 ch (freed a), ready := ready a @ [ch]\<rparr>)"
    using c cc by (simp add: calling_def F P)
  ultimately show ?thesis using cc by (intro exI [of _ ?k']) (simp add: F P)
qed

text \<open>With the table's next entry in use, fork stops the machine in \<open>list_delete\<close>.\<close>

lemma fork_aux_busy:
  assumes "sched_rel k a" and "0 \<le> p_num k" "p_num k \<le> 10" and "Pcb (nat (p_num k)) \<notin> set (freed a)"
  shows "fork_aux k = Inl (AssertFail ''list.c'' 19)"
proof -
  have "chain (nxt k) Dummy3 (freed a)" using assms(1) by (auto simp: sched_rel_def queues_def heads_def)
  from list_delete_absent [OF this assms(4)] show ?thesis using assms(2,3)
    by (simp add: fork_aux_def pcb_ref_def delete_from_def)
qed

lemma fork_aux_full:
  assumes "sched_rel k a" and "p_num k = 10"
  shows "fork_aux k = Inl (AssertFail ''list.c'' 19)"
  using assms by (intro fork_aux_busy) (auto simp: sched_rel_def placed_def queued_def procs_def)


section \<open>The process table\<close>

definition freed_pcbs :: "nat list \<Rightarrow> (pcbref \<Rightarrow> pcb) \<Rightarrow> pcbref \<Rightarrow> pcb" where
  "freed_pcbs is P p = (if p \<in> Pcb ` set is then free_pcb (P p) else P p)"

lemma freed_pcbs_Cons: "i \<notin> set is \<Longrightarrow>
    freed_pcbs is (P(Pcb i := free_pcb (P (Pcb i)))) = freed_pcbs (i # is) P"
  by (auto simp: freed_pcbs_def fun_eq_iff)

lemma init_pcbs_ok:
  assumes "queues chain (nxt k) heads (queue_of a)" and "distinct is" and "\<forall>i\<in>set is. Pcb i \<notin> set (queued a)"
  shows "\<exists>n. init_pcbs is k = Inr (k\<lparr>nxt := n, pcbs := freed_pcbs is (pcbs k)\<rparr>)
    \<and> queues chain n heads (queue_of (a\<lparr>freed := freed a @ map Pcb is\<rparr>))"
  using assms
proof (induction "is" arbitrary: k a)
  case Nil
  have "queue_of (a\<lparr>freed := freed a\<rparr>) = queue_of a" by (rule ext, case_tac x) simp_all
  with Nil show ?case by (intro exI [of _ "nxt k"]) (simp add: freed_pcbs_def [abs_def])
next
  case (Cons i "is")
  let ?k = "upd_pcb (Pcb i) free_pcb k"
  obtain n where n: "add_to Dummy3 (Pcb i) ?k = Inr (?k\<lparr>nxt := n\<rparr>)"
    "queues chain n heads (queue_of (a\<lparr>freed := freed a @ [Pcb i]\<rparr>))"
    using add_to_rel [of ?k a Dummy3 "Pcb i"] Cons.prems by auto
  have "\<forall>j\<in>set is. Pcb j \<notin> set (queued (a\<lparr>freed := freed a @ [Pcb i]\<rparr>))"
    using Cons.prems by (auto simp: queued_def)
  from Cons.IH [of "?k\<lparr>nxt := n\<rparr>" "a\<lparr>freed := freed a @ [Pcb i]\<rparr>", OF _ _ this] n(2) Cons.prems(2)
  obtain m where m: "init_pcbs is (?k\<lparr>nxt := n\<rparr>) = Inr (?k\<lparr>nxt := m, pcbs := freed_pcbs is (pcbs ?k)\<rparr>)"
    "queues chain m heads (queue_of (a\<lparr>freed := freed a @ map Pcb (i # is)\<rparr>))"
    by (auto simp del: fun_upd_apply)
  have "init_pcbs (i # is) k = Inr (k\<lparr>nxt := m, pcbs := freed_pcbs (i # is) (pcbs k)\<rparr>)"
    using n(1) m(1) Cons.prems(2) by (simp add: upd_pcb_def freed_pcbs_Cons)
  with m(2) show ?case by blast
qed

text \<open>The abstract scheduler after \<open>initPcb\<close>, and after \<open>preparePCB\<close>.\<close>

definition boot_sched :: sched where
  "boot_sched = \<lparr>ready = [], sleepers = [], freed = map Pcb [1..<10], waiters = [], running = IdlePcb\<rparr>"

definition loaded_sched :: sched where
  "loaded_sched = \<lparr>ready = [Pcb 1], sleepers = [], freed = map Pcb [2..<10], waiters = [], running = IdlePcb\<rparr>"

lemma initPcb_ok:
  assumes "nxt k DummySem = None"
  shows "\<exists>k'. initPcb k = Inr k' \<and> clock_ok k' boot_sched \<and> p_num k' = 1 \<and> \<not> intr_nesting k'
    \<and> sysFileTable k' = map (\<lambda>e. e\<lparr>inode_index := -1\<rparr>) (sysFileTable k) \<and> mem k' = mem k \<and> kaddr k' = kaddr k
    \<and> fs k' = fs k \<and> disk k' = disk k \<and> BUF k' = BUF k \<and> buf_in k' = buf_in k \<and> buf_out k' = buf_out k
    \<and> scr k' = scr k \<and> serial k' = serial k \<and> (\<forall>i. 1 \<le> i \<and> i < 10 \<longrightarrow> pcbs k' (Pcb i) = free_pcb (pcbs k (Pcb i)))"
proof -
  let ?k = "k\<lparr>sys_file_num := 0, sysFileTable := map (\<lambda>e. e\<lparr>inode_index := -1\<rparr>) (sysFileTable k),
     intr_nesting := False, nxt := (nxt k)(Dummy1 := None, Dummy2 := None, Dummy3 := None), p_num := 1\<rparr>"
  let ?a = "\<lparr>ready = [], sleepers = [], freed = [], waiters = [], running = IdlePcb\<rparr>"
  have "queues chain (nxt ?k) heads (queue_of ?a)"
    using assms by (auto simp: queues_def heads_def)
  moreover have "distinct [1..<10::nat]" by simp
  moreover have "\<forall>i\<in>set [1..<10::nat]. Pcb i \<notin> set (queued ?a)" by (simp add: queued_def)
  ultimately obtain n where n: "init_pcbs [1..<10] ?k = Inr (?k\<lparr>nxt := n,
      pcbs := freed_pcbs [1..<10] (pcbs ?k)\<rparr>)"
    "queues chain n heads (queue_of (?a\<lparr>freed := freed ?a @ map Pcb [1..<10]\<rparr>))"
    using init_pcbs_ok [of ?k ?a "[1..<10]"] by blast
  let ?k2 = "?k\<lparr>nxt := n, pcbs := freed_pcbs [1..<10] (pcbs ?k)\<rparr>"
  let ?k' = "(upd_pcb IdlePcb (\<lambda>b. b\<lparr>pid := 0, pstate := RUNNING, timeCount := 10, sleepTime := 0,
          psem := 0\<rparr>) ?k2)\<lparr>current := IdlePcb\<rparr>"
  have e: "initPcb k = Inr ?k'" unfolding initPcb_def n(1) by simp
  have q: "queues chain n heads (queue_of boot_sched)" using n(2) by (simp add: boot_sched_def)
  have pl: "placed boot_sched"
    by (auto simp: placed_def boot_sched_def queued_def distinct_map inj_on_def)
  have "\<forall>i\<in>{1..<10}. pstate (pcbs ?k' (Pcb i)) = DEAD" by (auto simp: freed_pcbs_def free_pcb_def)
  then have "states_ok (pcbs ?k') boot_sched" by (auto simp: states_ok_def boot_sched_def)
  with q pl have "sched_rel ?k' boot_sched" by (simp add: sched_rel_def boot_sched_def)
  moreover have "pcbs ?k' (Pcb i) = free_pcb (pcbs k (Pcb i))" if "1 \<le> i" "i < 10" for i
    using that by (simp add: freed_pcbs_def)
  ultimately show ?thesis using e by (intro exI [of _ ?k']) (simp add: clock_ok_def)
qed

lemma boot_complete: "complete boot_sched" "complete loaded_sched"
  by (auto simp: complete_def boot_sched_def loaded_sched_def queued_def procs_def)

lemma preparePCB_ok:
  assumes c: "clock_ok k boot_sched" and n: "p_num k = 1"
  shows "\<exists>k'. preparePCB entry k = Inr k' \<and> clock_ok k' loaded_sched \<and> p_num k' = 2
    \<and> pcbs k' (Pcb 1) = first_pcb 1 entry (pcbs k (Pcb 1)) \<and> mem k' = mem k \<and> kaddr k' = kaddr k
    \<and> intr_nesting k' = intr_nesting k \<and> sysFileTable k' = sysFileTable k \<and> fs k' = fs k \<and> disk k' = disk k
    \<and> BUF k' = BUF k \<and> buf_in k' = buf_in k \<and> buf_out k' = buf_out k \<and> scr k' = scr k
    \<and> serial k' = serial k"
proof -
  have r: "sched_rel k boot_sched" and cur: "current k = IdlePcb"
    using c by (auto simp: clock_ok_def sched_rel_def boot_sched_def)
  obtain m where m: "delete_from Dummy3 (Pcb 1) k = Inr (k\<lparr>nxt := m\<rparr>)"
    "\<And>k'. nxt k' = m \<Longrightarrow> current k' = current k \<Longrightarrow> pstate (pcbs k' (Pcb 1)) = RUNNABLE \<Longrightarrow>
       (\<forall>p. p \<noteq> Pcb 1 \<longrightarrow> pstate (pcbs k' p) = pstate (pcbs k p)) \<Longrightarrow>
       \<exists>n. add_to Dummy1 (Pcb 1) k' = Inr (k'\<lparr>nxt := n\<rparr>)
         \<and> sched_rel (k'\<lparr>nxt := n\<rparr>) (boot_sched\<lparr>freed := remove1 (Pcb 1) (freed boot_sched),
             ready := ready boot_sched @ [Pcb 1]\<rparr>)"
    using sched_rel_move_free [OF r, of "Pcb 1"] by (auto simp: boot_sched_def)
  have l: "boot_sched\<lparr>freed := remove1 (Pcb 1) (freed boot_sched), ready := ready boot_sched @ [Pcb 1]\<rparr> = loaded_sched"
    by (simp add: boot_sched_def loaded_sched_def upt_rec)
  let ?k1 = "upd_pcb (Pcb 1) (first_pcb 1 entry) (k\<lparr>nxt := m\<rparr>)"
  obtain x where x: "add_to Dummy1 (Pcb 1) ?k1 = Inr (?k1\<lparr>nxt := x\<rparr>)" "sched_rel (?k1\<lparr>nxt := x\<rparr>) loaded_sched"
    using m(2) [of ?k1] unfolding l by (auto simp: first_pcb_def)
  have "chain x Dummy1 [Pcb 1]"
    using x(2) by (auto simp: sched_rel_def queues_def heads_def loaded_sched_def)
  then have h: "list_head x Dummy1 = Inr (Pcb 1)" by (rule list_head_chain)
  have "preparePCB entry k = Inr (?k1\<lparr>nxt := x, p_num := 2\<rparr>)"
    using m(1) n x(1) h by (simp add: preparePCB_def pcb_ref_def first_pcb_def)
  moreover have "sched_rel (?k1\<lparr>nxt := x, p_num := 2\<rparr>) loaded_sched"
    by (rule sched_rel_same [OF x(2)]) simp_all
  ultimately show ?thesis using c cur by (simp add: clock_ok_def)
qed

end
