(* ===== verification/Irqprops.thy ===== *)
theory Irqprops
  imports Irq Processprops
begin

text \<open>
  The invariant of the kernel over every interrupt: the lists and states match the abstract
  scheduler, no process is lost, and a trap's frame lands in the current PCB. The file
  system calls do not touch any of this (\<open>proc_same\<close>); the others are the lemmas of Semprops and
  Processprops.
\<close>

section \<open>What the file system calls leave alone\<close>

definition proc_same :: "kernel \<Rightarrow> kernel \<Rightarrow> bool" where
  "proc_same k k' \<longleftrightarrow> nxt k' = nxt k \<and> current k' = current k
     \<and> (\<forall>p. pstate (pcbs k' p) = pstate (pcbs k p) \<and> timeCount (pcbs k' p) = timeCount (pcbs k p))
     \<and> tss_esp0 k' = tss_esp0 k \<and> kaddr k' = kaddr k"

definition same_nest :: "kernel \<Rightarrow> kernel \<Rightarrow> bool" where
  "same_nest k k' \<longleftrightarrow> proc_same k k' \<and> (\<not> intr_nesting k \<longrightarrow> \<not> intr_nesting k')"

lemma proc_same_refl [simp]: "proc_same k k" "same_nest k k"
  by (simp_all add: proc_same_def same_nest_def)

lemma proc_same_trans [trans]: "proc_same k k' \<Longrightarrow> proc_same k' k'' \<Longrightarrow> proc_same k k''"
  by (simp add: proc_same_def)

lemma same_nest_trans [trans]: "same_nest k k' \<Longrightarrow> same_nest k' k'' \<Longrightarrow> same_nest k k''"
  by (auto simp: same_nest_def intro: proc_same_trans)

lemma proc_same_field [simp]:
  "same_nest k (k\<lparr>fs := f\<rparr>)" "same_nest k (k\<lparr>scr := s\<rparr>)" "same_nest k (k\<lparr>mem := m\<rparr>)"
  "same_nest k (k\<lparr>sysFileTable := t\<rparr>)" "same_nest k (k\<lparr>fs := f, scr := s\<rparr>)"
  "same_nest k (k\<lparr>currentstacktop := v\<rparr>)" "same_nest k (k\<lparr>sys_file_num := n\<rparr>)"
  "same_nest k (set_entry i g k)" "same_nest k (set_offset i n k)" "same_nest k (set_eax v' k)"
  "same_nest k (set_psem v' k)"
  "same_nest k (upd_pcb p (\<lambda>b. b\<lparr>filepointer := g1 b, fp_num := g2 b\<rparr>) k)"
  "same_nest k (set_sem_value v' n k)" "same_nest k (trap f' k)"
  by (simp_all add: same_nest_def proc_same_def set_entry_def set_offset_def set_eax_def set_psem_def
      set_sem_value_def trap_def)

lemma ls_aux_same: "ls_aux path k = Inr k' \<Longrightarrow> same_nest k k'"
  by (auto simp: ls_aux_def exec_Inr_iffs)

lemma cat_aux_same: "cat_aux path k = Inr k' \<Longrightarrow> same_nest k k'"
  by (auto simp: cat_aux_def exec_Inr_iffs)

lemma remove_aux_same: "remove_aux path k = Inr k' \<Longrightarrow> same_nest k k'"
  by (auto simp: remove_aux_def exec_Inr_iffs same_nest_def proc_same_def set_eax_def)

lemma lseek_aux_same: "lseek_aux fd off w k = Inr k' \<Longrightarrow> same_nest k k'"
  by (auto simp: lseek_aux_def exec_Inr_iffs split: if_splits)

lemma write_aux_same: "write_aux fd p len k = Inr k' \<Longrightarrow> same_nest k k'"
  by (auto simp: write_aux_def Let_def exec_Inr_iffs same_nest_def proc_same_def set_eax_def set_offset_def
      set_entry_def split: if_splits)

lemma install_file_same: "same_nest k (install_file index i fd k)"
  by (simp add: install_file_def Let_def same_nest_def proc_same_def set_eax_def set_entry_def)

lemma open_aux_same:
  assumes "open_aux path fl k = Inr k'"
  shows "same_nest k k'"
proof -
  obtain f index i fd where "k' = install_file index i fd (k\<lparr>fs := f\<rparr>)"
    using assms unfolding open_aux_def Let_def exec_Inr_iffs by (auto simp: exec_Inr_iffs)
  then show ?thesis using same_nest_trans [OF proc_same_field(1) install_file_same] by simp
qed

lemma drop_link_same: "same_nest k (drop_link i k)"
  by (simp add: drop_link_def Let_def same_nest_def proc_same_def set_entry_def)

lemma close_aux_same:
  assumes "close_aux fd k = Inr k'"
  shows "same_nest k k'"
proof -
  obtain i where "k' = set_eax 0 (upd_pcb (current k) (\<lambda>b. b\<lparr>filepointer := (filepointer b)[nat fd := -1],
              fp_num := wrap32 (fp_num b - 1)\<rparr>) (drop_link i k))"
    using assms by (auto simp: close_aux_def exec_Inr_iffs)
  moreover have "same_nest k (drop_link i k)" by (rule drop_link_same)
  ultimately show ?thesis by (simp add: same_nest_def proc_same_def set_eax_def)
qed

lemma keyboardHandle_same: "keyboardHandle c k = Inr k' \<Longrightarrow> proc_same k k' \<and> intr_nesting k' = intr_nesting k"
  by (auto simp: keyboardHandle_def Let_def exec_Inr_iffs proc_same_def split: if_splits)

lemma nested_irq_same: "intr_nesting k \<Longrightarrow> nested_irq tfp e k = Inr k' \<Longrightarrow> proc_same k k'"
  by (cases e) (auto simp: nested_irq_def timer_nested exec_Inr_iffs proc_same_def dest!: keyboardHandle_same)

lemma wait_for_keyboard_same:
  "wait_for_keyboard tfp n es k = Inr (k', es') \<Longrightarrow> proc_same k k' \<and> \<not> intr_nesting k'"
proof (induction es arbitrary: k)
  case Nil
  then show ?case by (auto simp: wait_for_keyboard.simps [of _ _ "[]"] proc_same_def split: if_splits)
next
  case (Cons e es)
  show ?case
  proof (cases "wrap32 (buf_out k + n) \<ge> buf_in k")
    case True
    then obtain k1 where k1: "nested_irq tfp e (k\<lparr>intr_nesting := True\<rparr>) = Inr k1"
      "wait_for_keyboard tfp n es k1 = Inr (k', es')"
      using Cons.prems by (auto simp: wait_for_keyboard.simps [of _ _ "e # es"] exec_Inr_iffs)
    have "proc_same (k\<lparr>intr_nesting := True\<rparr>) k1" by (rule nested_irq_same [OF _ k1(1)]) simp
    with Cons.IH [OF k1(2)] show ?thesis by (auto simp: proc_same_def)
  next
    case False
    then show ?thesis using Cons.prems
      by (auto simp: wait_for_keyboard.simps [of _ _ "e # es"] proc_same_def)
  qed
qed

lemma read_aux_same: "read_aux tfp fd p len es k = Inr (k', es') \<Longrightarrow> same_nest k k'"
proof (cases "fd = 0")
  case True
  assume "read_aux tfp fd p len es k = Inr (k', es')"
  with True obtain k1 m where k1: "wait_for_keyboard tfp (wrap32 (len - 1)) es k = Inr (k1, es')"
    "k' = k1\<lparr>mem := m, buf_out := wrap32 (buf_out k1 + len)\<rparr>"
    by (auto simp: read_aux_def Let_def exec_Inr_iffs)
  from wait_for_keyboard_same [OF k1(1)] show ?thesis
    by (simp add: k1(2) same_nest_def proc_same_def)
next
  case False
  assume "read_aux tfp fd p len es k = Inr (k', es')"
  with False show ?thesis
    by (auto simp: read_aux_def Let_def exec_Inr_iffs same_nest_def proc_same_def set_offset_def set_entry_def
        set_eax_def)
qed


section \<open>The invariant\<close>

definition kernel_inv :: "kernel \<Rightarrow> sched \<Rightarrow> bool" where
  "kernel_inv k a \<longleftrightarrow> clock_ok k a \<and> complete a \<and> esp_ok k \<and> \<not> intr_nesting k"

lemma kernel_inv_same: "kernel_inv k a \<Longrightarrow> same_nest k k' \<Longrightarrow> kernel_inv k' a"
  by (auto simp: kernel_inv_def clock_ok_def esp_ok_def same_nest_def proc_same_def tf_addr_def
      intro: sched_rel_same)

lemma park_all: "complete a \<Longrightarrow> s \<noteq> RUNNABLE \<Longrightarrow> procs \<subseteq> set (queued (park s a))"
  using idle_notin_procs(1) by (cases s) (auto simp: complete_def queued_def)

lemma complete_spec_schedule: "complete a \<Longrightarrow> s \<noteq> RUNNABLE \<Longrightarrow> complete (spec_schedule s a)"
  using park_all [of a s] by (cases "ready (park s a)") (auto simp: complete_def spec_schedule_def queued_def)

lemma complete_spec_tick: "complete a \<Longrightarrow> complete (spec_tick k a)"
proof -
  assume c: "complete a"
  have "complete (spec_wakeup (due k) a)" using c by (auto simp: complete_def spec_wakeup_def queued_def)
  then show ?thesis using complete_spec_schedule by (simp add: spec_tick_def Let_def)
qed

lemma complete_spec_wake: "complete a \<Longrightarrow> complete (spec_wake a)"
  by (auto simp: complete_def spec_wake_def queued_def split: list.splits)

lemma trap_addr_tf: "esp_ok k \<Longrightarrow> trap_addr k = tf_addr k (current k)"
  by (auto simp: trap_addr_def esp_ok_def)

lemma switched_inv:
  assumes "sched_rel k' (spec_schedule s a)" and "pstate (cur k') = RUNNING" and "timeCount (cur k') = 10"
    and "complete a" and "s \<noteq> RUNNABLE" and "esp_ok k'" and "\<not> intr_nesting k'"
  shows "\<exists>a'. kernel_inv k' a'"
  using assms complete_spec_schedule by (auto simp: kernel_inv_def clock_ok_def)


section \<open>Every interrupt keeps it\<close>

lemma kernel_inv_calling: "kernel_inv k a \<Longrightarrow> current k \<noteq> IdlePcb \<Longrightarrow> calling k a"
  by (simp add: kernel_inv_def clock_ok_def calling_def)

lemma kernel_inv_parts:
  assumes "kernel_inv k a"
  shows "sched_rel k a" "complete a" "esp_ok k" "\<not> intr_nesting k" "pstate (cur k) = RUNNING"
  using assms by (simp_all add: kernel_inv_def clock_ok_def)

lemma esp_ok_same: "esp_ok k \<Longrightarrow> current k' = current k \<Longrightarrow> tss_esp0 k' = tss_esp0 k \<Longrightarrow> kaddr k' = kaddr k \<Longrightarrow> esp_ok k'"
  by (simp add: esp_ok_def tf_addr_def)

lemma switched:
  assumes r: "sched_rel m b" and b: "complete b" and c: "can_switch m" and s: "schedule m = Inr k'"
    and e: "esp_ok m" and nn: "\<not> intr_nesting m"
  shows "\<exists>a'. kernel_inv k' a'"
proof -
  obtain k1 where k1: "schedule m = Inr k1" "sched_rel k1 (spec_schedule (pstate (cur m)) b)"
    "pstate (cur k1) = RUNNING" "timeCount (cur k1) = 10" "sched_frame m k1" "switch_keeps b m k1"
    using schedule_ok [OF r c] by blast
  have "esp_ok k1" using k1(6) e by (simp add: switch_keeps_def)
  moreover have "\<not> intr_nesting k1" using nn sched_frame_fields(11) [OF k1(5)] by simp
  moreover have "pstate (cur m) \<noteq> RUNNABLE" using c by (simp add: can_switch_def)
  ultimately show ?thesis using switched_inv [OF k1(2-4) b] k1(1) s by simp
qed

lemma set_state_more [simp]: "tss_esp0 (set_state p s k) = tss_esp0 k" "intr_nesting (set_state p s k) = intr_nesting k"
  by (simp_all add: set_state_def)

lemma set_sem_value_more [simp]: "tss_esp0 (set_sem_value a v k) = tss_esp0 k"
  "intr_nesting (set_sem_value a v k) = intr_nesting k"
  by (simp_all add: set_sem_value_def)

lemma exit_inv:
  assumes i: "kernel_inv k a" and n: "current k \<noteq> IdlePcb" and e: "exit_aux k = Inr k'"
  shows "\<exists>a'. kernel_inv k' a'"
proof -
  note p = kernel_inv_parts [OF i]
  obtain d where d: "schedule ((set_state (current k) DEAD k)\<lparr>p_num := wrap32 (p_num k - 1), disk := d\<rparr>) = Inr k'"
    using e by (auto simp: exit_aux_def Let_def writeBack_def write_back_eq)
  let ?m = "(set_state (current k) DEAD k)\<lparr>p_num := wrap32 (p_num k - 1), disk := d\<rparr>"
  have r: "sched_rel ?m a" by (rule sched_rel_same [OF sched_rel_block [OF p(1)]]) simp_all
  have c: "can_switch ?m" using n by (simp add: can_switch_def)
  have s: "esp_ok ?m" by (rule esp_ok_same [OF p(3)]) simp_all
  show ?thesis by (rule switched [OF r p(2) c d s]) (simp add: p(4))
qed

lemma sleep_inv:
  assumes i: "kernel_inv k a" and n: "current k \<noteq> IdlePcb" and e: "sleep_aux t k = Inr k'"
  shows "\<exists>a'. kernel_inv k' a'"
proof -
  note p = kernel_inv_parts [OF i]
  let ?m = "upd_pcb (current k) (\<lambda>b. b\<lparr>pstate := BLOCKED, sleepTime := t\<rparr>) k"
  have r: "sched_rel ?m a" by (rule sched_rel_cur_upd [OF p(1)])
  have c: "can_switch ?m" using n by (simp add: can_switch_def)
  have s: "esp_ok ?m" by (rule esp_ok_same [OF p(3)]) simp_all
  show ?thesis by (rule switched [OF r p(2) c _ s]) (use e p(4) in \<open>simp_all add: sleep_aux_def\<close>)
qed

lemma sem_wait_inv:
  assumes i: "kernel_inv k a" and n: "current k \<noteq> IdlePcb" and e: "sem_wait_aux s k = Inr k'"
    and q: "psem (cur k) = s" "sem_list k s = Inr DummySem"
  shows "\<exists>a'. kernel_inv k' a'"
proof -
  let ?k = "set_eax 0 k"
  have i0: "kernel_inv ?k a" by (rule kernel_inv_same [OF i]) simp
  note p = kernel_inv_parts [OF i0]
  let ?k1 = "set_sem_value s (sem_value ?k s - 1) ?k"
  let ?m = "set_state (current ?k) SEM_BLOCKED ?k1"
  have a: "sem_at s" using e by (auto simp: sem_wait_aux_def sem_P_def require_eq_Inr)
  have l: "sem_list ?k s = Inr DummySem" using q(2) sem_list_frame [of ?k k s] by simp
  show ?thesis
  proof (cases "sem_value ?k1 s < 0")
    case True
    then have sch: "schedule ?m = Inr k'" using e by (simp add: sem_wait_aux_def sem_P_def Let_def require_eq_Inr)
    have r1: "sched_rel ?k1 a" using p(1) by simp
    have r: "sched_rel ?m a" using sched_rel_block [OF r1, of SEM_BLOCKED] by simp
    have c: "can_switch ?m" using n q(1) a l by (simp add: can_switch_def)
    have s: "esp_ok ?m" by (rule esp_ok_same [OF p(3)]) simp_all
    show ?thesis by (rule switched [OF r p(2) c sch s]) (use p(4) in simp)
  next
    case False
    then have "k' = ?k1" using e by (simp add: sem_wait_aux_def sem_P_def Let_def require_eq_Inr)
    then show ?thesis using kernel_inv_same [OF i0, of ?k1] by auto
  qed
qed

lemma DummySem_chain: "sched_rel k a \<Longrightarrow> chain (nxt k) DummySem (waiters a)"
  by (auto simp: sched_rel_def queues_def heads_def)

lemma sem_post_inv:
  assumes i: "kernel_inv k a" and e: "sem_post_aux s k = Inr k'" and q: "sem_list k s = Inr DummySem"
  shows "\<exists>a'. kernel_inv k' a'"
proof -
  let ?k = "set_eax 0 k"
  have i0: "kernel_inv ?k a" by (rule kernel_inv_same [OF i]) simp
  note p = kernel_inv_parts [OF i0]
  have l: "sem_list ?k s = Inr DummySem" using q sem_list_frame [of ?k k s] by simp
  show ?thesis
  proof (cases "sem_value ?k s < 0")
    case True
    have "waiters a \<noteq> []"
    proof
      assume "waiters a = []"
      then have "chain (nxt ?k) DummySem []" using DummySem_chain [OF p(1)] by simp
      from list_head_empty [OF this] True e l show False
        by (simp add: sem_post_aux_def sem_V_def require_eq_Inr)
    qed
    then obtain w ws where w: "waiters a = w # ws" by (cases "waiters a") auto
    obtain n m where nm: "list_head (nxt ?k) DummySem = Inr w" "delete_from DummySem w ?k = Inr (?k\<lparr>nxt := m\<rparr>)"
      "add_to Dummy1 w (set_state w RUNNABLE (?k\<lparr>nxt := m\<rparr>)) = Inr ((set_state w RUNNABLE ?k)\<lparr>nxt := n\<rparr>)"
      "sched_rel ((set_state w RUNNABLE ?k)\<lparr>nxt := n\<rparr>) (spec_wake a)"
      using pop_waiter [OF p(1) w] by blast
    let ?k1 = "(set_state w RUNNABLE ?k)\<lparr>nxt := n\<rparr>"
    have k': "k' = set_sem_value s (sem_value ?k1 s + 1) ?k1"
      using e True l nm(1-3) by (simp add: sem_post_aux_def sem_V_def require_eq_Inr)
    have "w \<noteq> current ?k" using p(1) w by (auto simp: sched_rel_def placed_def queued_def)
    then have "clock_ok k' (spec_wake a)"
      using nm(4) i0 unfolding k' by (simp add: clock_ok_def kernel_inv_def)
    moreover have "esp_ok k'" unfolding k' by (rule esp_ok_same [OF p(3)]) simp_all
    ultimately show ?thesis using complete_spec_wake [OF p(2)] p(4) unfolding kernel_inv_def
      by (intro exI [of _ "spec_wake a"]) (simp add: k')
  next
    case False
    then have "k' = set_sem_value s (sem_value ?k s + 1) ?k"
      using e by (simp add: sem_post_aux_def sem_V_def require_eq_Inr)
    then show ?thesis using kernel_inv_same [OF i0, of k'] by auto
  qed
qed


lemma link_files_Inr: "link_files fps t = Inr t' \<Longrightarrow> \<forall>i\<in>set fps. i = -1 \<or> 0 \<le> i \<and> nat i < length t"
proof (induction fps arbitrary: t)
  case (Cons i fps)
  then show ?case by (cases "i = -1") (fastforce simp: Let_def require_eq_Inr)+
qed simp

lemma fork_Inr:
  assumes "sched_rel k a" and "fork_aux k = Inr k'"
  shows "0 \<le> p_num k \<and> p_num k < 10 \<and> Pcb (nat (p_num k)) \<in> set (freed a)
    \<and> open_files_ok (cur k) (sysFileTable k)"
proof -
  have n: "0 \<le> p_num k" "p_num k \<le> 10"
    using assms(2) by (auto simp: fork_aux_def pcb_ref_def exec_Inr_iffs)
  have f: "Pcb (nat (p_num k)) \<in> set (freed a)" using fork_aux_busy [OF assms(1) n] assms(2) by force
  moreover have "set (freed a) \<subseteq> Pcb ` {1..<10}"
    using assms(1) by (auto simp: sched_rel_def placed_def queued_def procs_def)
  ultimately have "Pcb (nat (p_num k)) \<in> Pcb ` {1..<10}" by blast
  then have "p_num k < 10" by auto
  have "queues chain (nxt k) heads (queue_of a)" using assms(1) by (simp add: sched_rel_def)
  then obtain m where "delete_from Dummy3 (Pcb (nat (p_num k))) k = Inr (k\<lparr>nxt := m\<rparr>)"
    using delete_from_rel [of k a Dummy3 "Pcb (nat (p_num k))"] f by auto
  then obtain t where "link_files (filepointer (cur k)) (sysFileTable k) = Inr t"
    using assms(2) n by (auto simp: fork_aux_def pcb_ref_def exec_Inr_iffs)
  from link_files_Inr [OF this] n f \<open>p_num k < 10\<close> show ?thesis by (simp add: open_files_ok_def)
qed

lemma fork_inv:
  assumes i: "kernel_inv k a" and n: "current k \<noteq> IdlePcb" and e: "fork_aux k = Inr k'"
  shows "\<exists>a'. kernel_inv k' a'"
proof -
  note p = kernel_inv_parts [OF i]
  let ?ch = "Pcb (nat (p_num k))"
  let ?a = "a\<lparr>freed := remove1 ?ch (freed a), ready := ready a @ [?ch]\<rparr>"
  from fork_Inr [OF p(1) e] have f: "0 \<le> p_num k" "p_num k < 10" "?ch \<in> set (freed a)"
    "open_files_ok (cur k) (sysFileTable k)" by blast+
  obtain k1 where k1: "fork_aux k = Inr k1" "calling k1 ?a" "current k1 = current k"
    "cur k1 = (cur k)\<lparr>tf := (tf (cur k))\<lparr>tf_eax := word_of_int (p_num k)\<rparr>\<rparr>"
    "tss_esp0 k1 = tss_esp0 k" "kaddr k1 = kaddr k" "intr_nesting k1 = intr_nesting k"
    using fork_aux_ok [OF kernel_inv_calling [OF i n] f] by blast
  have "timeCount (cur k1) = timeCount (cur k)" unfolding k1(4) by simp
  then have "clock_ok k1 ?a" using k1(2) i by (simp add: calling_def clock_ok_def kernel_inv_def)
  moreover have "set (queued a) \<subseteq> set (queued ?a)"
    by (auto simp: queued_def)
  then have "complete ?a" using p(2) by (auto simp: complete_def)
  moreover have "esp_ok k1" by (rule esp_ok_same [OF p(3) k1(3,5,6)])
  ultimately have "kernel_inv k1 ?a" using p(4) k1(7) by (simp add: kernel_inv_def)
  then show ?thesis using k1(1) e by auto
qed

lemma sem_init_inv:
  assumes i: "kernel_inv k a" and e: "sem_init_aux s v k = Inr k'" and w: "nxt k DummySem = None"
  shows "kernel_inv k' a"
proof -
  obtain s' where k': "k' = set_eax 0 (set_sem_list s' DummySem
      ((set_sem_value s' v (set_psem s' k))\<lparr>nxt := (nxt k)(DummySem := None)\<rparr>))"
    using e by (auto simp: sem_init_aux_def Let_def require_eq_Inr set_psem_def)
  have "(nxt k)(DummySem := None) = nxt k" using w by (simp add: fun_upd_idem)
  then have "same_nest k k'"
    unfolding k' by (simp add: same_nest_def proc_same_def set_eax_def set_sem_list_def set_sem_value_def set_psem_def)
  then show ?thesis by (rule kernel_inv_same [OF i])
qed

lemma sem_destroy_same: "same_nest k (sem_destroy_aux s k)"
  by (simp add: same_nest_def proc_same_def sem_destroy_aux_def set_psem_def set_eax_def)

lemma syscall_inv:
  assumes i: "kernel_inv k a" and n: "current k \<noteq> IdlePcb"
    and s: "tf_eax (tf (cur k)) = 7 \<Longrightarrow> nxt k DummySem = None"
      "tf_eax (tf (cur k)) = 9 \<Longrightarrow> psem (cur k) = tf_ebx (tf (cur k)) \<and> sem_list k (tf_ebx (tf (cur k))) = Inr DummySem"
      "tf_eax (tf (cur k)) = 10 \<Longrightarrow> sem_list k (tf_ebx (tf (cur k))) = Inr DummySem"
    and e: "syscallHandle tfp es k = Inr (k', es')"
  shows "\<exists>a'. kernel_inv k' a'"
proof -
  let ?t = "tf (cur k)"
  note same = kernel_inv_same [OF i]
  have c7: "uint (tf_eax ?t) = 7 \<longleftrightarrow> tf_eax ?t = 7" and c9: "uint (tf_eax ?t) = 9 \<longleftrightarrow> tf_eax ?t = 9"
    and c10: "uint (tf_eax ?t) = 10 \<longleftrightarrow> tf_eax ?t = 10"
    by (simp_all add: word_uint_eq_iff)
  have "same_nest k k' \<or> exit_aux k = Inr k' \<or> fork_aux k = Inr k' \<or> sleep_aux (sint (tf_ebx ?t)) k = Inr k'
      \<or> tf_eax ?t = 7 \<and> sem_init_aux (tf_ebx ?t) (sint (tf_ecx ?t)) k = Inr k'
      \<or> tf_eax ?t = 9 \<and> sem_wait_aux (tf_ebx ?t) k = Inr k'
      \<or> tf_eax ?t = 10 \<and> sem_post_aux (tf_ebx ?t) k = Inr k'"
    using e unfolding syscallHandle_def require_eq_Inr Let_def c7 c9 c10
    by (auto simp: exec_Inr_iffs sem_destroy_same split: if_splits
        dest: read_aux_same write_aux_same lseek_aux_same open_aux_same close_aux_same remove_aux_same
          ls_aux_same cat_aux_same)
  then show ?thesis
    using same exit_inv [OF i n] fork_inv [OF i n] sleep_inv [OF i n] sem_init_inv [OF i] sem_wait_inv [OF i n]
      sem_post_inv [OF i] s by blast
qed


lemma bind_r_pair: "bind_r m (\<lambda>(x, y). g x y) = Inr r \<Longrightarrow> \<exists>x y. m = Inr (x, y) \<and> g x y = Inr r"
  by (cases m) auto

lemma trap_inv: "kernel_inv k a \<Longrightarrow> kernel_inv (trap f k) a"
  by (erule kernel_inv_same) (simp add: same_nest_def proc_same_def trap_def)

lemma kernel_step_inv:
  assumes "kernel_step k k'" and i: "kernel_inv k a"
  shows "\<exists>a'. kernel_inv k' a'"
  using assms(1)
proof (rule kernel_stepE)
  fix m assume "k' = k\<lparr>mem := m\<rparr>"
  then show ?thesis using kernel_inv_same [OF i proc_same_field(3)] by blast
next
  fix f port es es'
  assume sane: "sane_call f k" and h: "irqHandle (trap_addr k) (tf_irq f) port es (trap f k) = Inr (k', es')"
  let ?k = "trap f k"
  have i0: "kernel_inv ?k a" by (rule trap_inv [OF i])
  have addr: "trap_addr k = tf_addr ?k (current ?k)"
    using trap_addr_tf kernel_inv_parts(3) [OF i] by (simp add: trap_def tf_addr_def)
  have t: "tf (pcbs ?k (current k)) = f" "psem (pcbs ?k (current k)) = psem (cur k)"
    "current ?k = current k" "nxt ?k = nxt k"
    "sem_list ?k s = sem_list k s" for s
    by (simp_all add: trap_def sem_list_def ref_at_def)
  obtain k1 es1 where m: "(if tf_irq f = -1 then Inr (?k, es)
      else if tf_irq f = 0xd then bind_r (GProtectFaultHandle (trap_addr k) ?k) (\<lambda>k. Inr (k, es))
      else if tf_irq f = 0x20 then bind_r (timerHandle (trap_addr k) ?k) (\<lambda>k. Inr (k, es))
      else if tf_irq f = 0x21 then bind_r (keyboardHandle port ?k) (\<lambda>k. Inr (k, es))
      else if tf_irq f = 0x80 then syscallHandle (trap_addr k) es ?k
      else Inl (AssertFail ''irqHandle.c'' 42)) = Inr (k1, es1)"
    and k': "bind_r (set_stacktop (trap_addr k) k1) (\<lambda>k. Inr (k, es1)) = Inr (k', es')"
    using bind_r_pair [OF h [unfolded irqHandle_def]] by blast
  have k1: "same_nest k1 k'" using k' unfolding set_stacktop_eq by (auto split: if_splits)
  have d: "k1 = ?k \<or> keyboardHandle port ?k = Inr k1 \<or> timerHandle (trap_addr k) ?k = Inr k1
      \<or> tf_irq f = 0x80 \<and> syscallHandle (trap_addr k) es ?k = Inr (k1, es1)"
    using m by (simp add: bind_r_eq_Inr GProtectFaultHandle_def require_eq_Inr split: if_splits)
  have "\<exists>a1. kernel_inv k1 a1"
    using d
  proof (elim disjE)
    assume "k1 = ?k"
    then show ?thesis using i0 by blast
  next
    assume "keyboardHandle port ?k = Inr k1"
    then have "same_nest ?k k1" using keyboardHandle_same by (auto simp: same_nest_def)
    then show ?thesis using kernel_inv_same [OF i0] by blast
  next
    assume tm: "timerHandle (trap_addr k) ?k = Inr k1"
    have ck: "clock_ok ?k a" "\<not> intr_nesting ?k" using i0 by (simp_all add: kernel_inv_def)
    from timer_step [OF ck] tm have "clock_ok k1 (spec_tick ?k a)" "sched_frame ?k k1" "esp_ok ?k \<longrightarrow> esp_ok k1"
      unfolding addr by auto
    then show ?thesis using complete_spec_tick i0 sched_frame_fields(11)
      by (auto simp: kernel_inv_def)
  next
    assume sc: "tf_irq f = 0x80 \<and> syscallHandle (trap_addr k) es ?k = Inr (k1, es1)"
    show ?thesis
    proof (rule syscall_inv [OF i0, of "trap_addr k" es k1 es1])
      show "current ?k \<noteq> IdlePcb" using sane sc unfolding t by (simp add: sane_call_def)
    qed (use sane sc in \<open>auto simp: sane_call_def t\<close>)
  qed
  then show ?thesis using kernel_inv_same [OF _ k1] by blast
qed

lemma reachable_inv: "reachable k \<Longrightarrow> \<exists>a. kernel_inv k a"
proof (induction rule: reachable.induct)
  case (boot k0 k1 entry out s m f k)
  obtain k1' where k1: "initPcb k0 = Inr k1'" "clock_ok k1' boot_sched" "p_num k1' = 1" "\<not> intr_nesting k1'"
    using initPcb_ok [OF boot(1)] by blast
  let ?k = "k1'\<lparr>fs := f, mem := m, scr := s, serial := out, buf_in := 0, buf_out := 0\<rparr>"
  have "sched_rel ?k boot_sched"
    by (rule sched_rel_same [of k1']) (use k1(2) in \<open>simp_all add: clock_ok_def\<close>)
  then have c: "clock_ok ?k boot_sched" "p_num ?k = 1" using k1(2,3) by (simp_all add: clock_ok_def)
  obtain k2 where k2: "preparePCB entry ?k = Inr k2" "clock_ok k2 loaded_sched" "intr_nesting k2 = intr_nesting ?k"
    using preparePCB_ok [OF c] by blast
  have "esp_ok k2" using k2(2) by (simp add: esp_ok_def clock_ok_def sched_rel_def loaded_sched_def)
  then have "kernel_inv k2 loaded_sched" using k1(4) k2(2,3) boot_complete(2) by (simp add: kernel_inv_def)
  then show ?case using k1(1) k2(1) boot(2,3) by auto
next
  case (step k k')
  then show ?case using kernel_step_inv by blast
qed

end
