(* ===== verification/Fsprops.thy ===== *)
theory Fsprops
  imports Fsops
begin

text \<open>
  What the operations of fs.c achieve: the transfer loops move exactly the bytes asked for,
  and creating a file adds one entry to its directory and leaves every other lookup as it
  was. \<open>fs_ok\<close> is the invariant of the whole structure; \<open>new_file\<close> is the specification of
  \<open>makeFL\<close> without its path work.
\<close>

section \<open>Transfers\<close>

definition stored :: "(nat \<Rightarrow> u8) \<Rightarrow> nat \<Rightarrow> (nat \<Rightarrow> u8) \<Rightarrow> nat \<Rightarrow> (nat \<Rightarrow> u8)" where
  "stored d a buf n = (\<lambda>j. if a \<le> j \<and> j < a + n then buf (j - a) else d j)"

lemma stored_0 [simp]: "stored d a buf 0 = d"
  by (rule ext) (auto simp: stored_def)

lemma stored_Suc: "stored d a buf (Suc n) = (stored d a buf n)(a + n := buf n)"
  by (auto simp: stored_def)

lemma stored_same [simp]: "i < n \<Longrightarrow> stored d a buf n (a + i) = buf i"
  by (simp add: stored_def)

lemma stored_other [simp]: "j < a \<or> a + n \<le> j \<Longrightarrow> stored d a buf n j = d j"
  by (auto simp: stored_def)

lemma write_from_eq:
  assumes "off + len \<le> 32768"
  shows "i \<le> len \<Longrightarrow> write_from (ino\<lparr>idata := stored (idata ino) off buf i\<rparr>) buf (int len) (int off) (int i)
    = Inr (int len, ino\<lparr>idata := stored (idata ino) off buf len\<rparr>)"
proof (induction "len - i" arbitrary: i)
  case 0
  then have "i = len" by simp
  then show ?case by (simp add: write_from.simps [of _ _ "int len" "int off" "int len"])
next
  case (Suc n)
  then have i: "i < len" by simp
  have "datablock_index (int i) (int off) = Inr (off + i)"
    using i assms by (simp add: datablock_index_def nat_add_distrib)
  moreover have "write_from (ino\<lparr>idata := stored (idata ino) off buf (Suc i)\<rparr>) buf (int len) (int off)
      (int (Suc i)) = Inr (int len, ino\<lparr>idata := stored (idata ino) off buf len\<rparr>)"
    using Suc.hyps(1) [of "Suc i"] Suc.hyps(2) i by simp
  ultimately show ?case using i
    by (simp add: write_from.simps [of _ _ "int len" "int off" "int i"] stored_Suc add.commute)
qed

text \<open>\<open>filesz\<close> after a write: the larger of the old size and the end of the write.\<close>

definition grown :: "u32 \<Rightarrow> nat \<Rightarrow> u32" where
  "grown sz end = (if sz > word_of_nat end then sz else word_of_nat end)"

definition written :: "inodeblock \<Rightarrow> nat \<Rightarrow> (nat \<Rightarrow> u8) \<Rightarrow> nat \<Rightarrow> inodeblock" where
  "written ino off buf len =
     ino\<lparr>idata := stored (idata ino) off buf len, isz := grown (isz ino) (off + len)\<rparr>"

lemma writeF_eq:
  assumes "k < 32" and "off + len < 32768"
  shows "writeF fs (int k) buf (int len) (int off) =
    Inr (int len, put_inode fs k (written (inodes fs k) off buf len))"
proof -
  have "write_from (inodes fs k) buf (int len) (int off) 0 =
      Inr (int len, (inodes fs k)\<lparr>idata := stored (idata (inodes fs k)) off buf len\<rparr>)"
    using write_from_eq [of off len 0 "inodes fs k" buf] assms(2) by simp
  moreover note u32_int_add [of off len]
  ultimately show ?thesis using assms
    by (simp add: writeF_def Let_def written_def grown_def)
qed

lemma writeF_too_long:
  "32768 \<le> off + len \<Longrightarrow> off + len < 2147483648 \<Longrightarrow>
    writeF fs k buf (int len) (int off) = Inl (AssertFail ''fs.c'' 363)"
  by (simp add: writeF_def)

lemma writeF_negative:
  assumes "0 < len" and "-2147483648 \<le> off" and "off < 0" and "len < 32768" and "k < 32"
  shows "writeF fs (int k) buf (int len) off = Inl OutOfBounds"
proof -
  have "datablock_index 0 off = Inl OutOfBounds" using assms by (simp add: datablock_index_def)
  then have "write_from (inodes fs k) buf (int len) off 0 = Inl OutOfBounds"
    using assms by (simp add: write_from.simps [of _ _ _ _ 0])
  moreover have "wrap32 (int len + off) < 32768" using assms by simp
  ultimately show ?thesis using assms by (simp add: writeF_def)
qed

lemma unat_grown: "unat sz \<le> 32768 \<Longrightarrow> end \<le> 32768 \<Longrightarrow> unat (grown sz end) = max (unat sz) end"
  by (auto simp: grown_def word_less_nat_alt unat_of_nat max_def)

text \<open>How many bytes a read of \<open>len\<close> at \<open>off\<close> yields.\<close>

definition read_count :: "inodeblock \<Rightarrow> nat \<Rightarrow> nat \<Rightarrow> nat" where
  "read_count ino len off = min len (unat (isz ino) - off)"

lemma read_from_eq:
  assumes "unat (isz ino) \<le> 32768" and "off < 2147483648"
  shows "i \<le> read_count ino len off \<Longrightarrow>
    read_from ino (int len) (int off) (int i) (get_bytes (idata ino) off i)
    = Inr (int (read_count ino len off), get_bytes (idata ino) off (read_count ino len off))"
proof (induction "read_count ino len off - i" arbitrary: i)
  case 0
  then have i: "i = read_count ino len off" by simp
  have "off + i < 4294967296" using i assms by (auto simp: read_count_def)
  then have "unat (word_of_int (int i + int off) :: u32) = off + i"
    using unat_u32 [of "off + i"] u32_int_add [of i off] by (simp only: add.commute)
  then have "\<not> (int i < int len \<and> (word_of_int (int i + int off) :: u32) < isz ino)"
    using i by (auto simp: read_count_def word_less_nat_alt)
  then have "read_from ino (int len) (int off) (int i) acc = Inr (int i, acc)" for acc
    by (simp only: read_from.simps [of ino "int len" "int off" "int i"] if_False)
  then show ?case by (simp only: i)
next
  case (Suc n)
  then have i: "i < read_count ino len off" by simp
  then have lt: "i < len" "off + i < unat (isz ino)" by (auto simp: read_count_def)
  have "off + i < 4294967296" using lt assms by simp
  then have "unat (word_of_int (int i + int off) :: u32) = off + i"
    using unat_u32 [of "off + i"] u32_int_add [of i off] by (simp only: add.commute)
  then have "(word_of_int (int i + int off) :: u32) < isz ino"
    using lt by (simp add: word_less_nat_alt)
  moreover have "datablock_index (int i) (int off) = Inr (off + i)"
    using lt assms by (simp add: datablock_index_def nat_add_distrib)
  moreover have "get_bytes (idata ino) off i @ [idata ino (off + i)] = get_bytes (idata ino) off (Suc i)"
    by (simp add: get_bytes_def)
  ultimately show ?case using lt Suc.hyps(1) [of "Suc i"] Suc.hyps(2) i
    by (simp add: read_from.simps [of ino _ _ "int i"] add.commute)
qed

lemma readF_eq:
  assumes "k < 32" and "unat (isz (inodes fs k)) \<le> 32768" and "off < 2147483648"
  shows "readF fs (int k) (int len) (int off) =
    Inr (int (read_count (inodes fs k) len off),
         get_bytes (idata (inodes fs k)) off (read_count (inodes fs k) len off))"
  using read_from_eq [OF assms(2,3), of 0 len] assms(1) by (simp add: readF_def get_bytes_def)

text \<open>A read at a negative offset is stopped by the unsigned comparison.\<close>

lemma readF_negative:
  assumes "k < 32" and "unat (isz (inodes fs k)) \<le> 32768" and "-2147483648 \<le> off" and "off < 0"
  shows "readF fs (int k) len off = Inr (0, [])"
proof -
  have "2147483648 \<le> uint (word_of_int off :: u32)"
    using uint_u32_negative [OF assms(3,4)] assms(3) by simp
  moreover have "int (unat (isz (inodes fs k))) \<le> 32768" using assms(2) by linarith
  ultimately have "\<not> (word_of_int off :: u32) < isz (inodes fs k)"
    by (simp add: word_less_def)
  then show ?thesis using assms(1) by (simp add: readF_def read_from.simps [of _ _ _ 0])
qed


section \<open>Allocation\<close>

lemma avl_inode_from_eq:
  "i \<le> 32 \<Longrightarrow> avl_inode_from fs i = index_of (find (\<lambda>k. inode_map (superb fs) k = available) [i..<32])"
proof (induction "32 - i" arbitrary: i)
  case 0
  then show ?case by (simp add: avl_inode_from.simps)
next
  case (Suc n)
  then have i: "i < 32" by simp
  with Suc.hyps(1) [of "Suc i"] Suc.hyps(2) show ?case
    by (simp add: avl_inode_from.simps [of fs i] find_from)
qed

definition free_inode :: "filesys \<Rightarrow> nat option" where
  "free_inode fs = find (\<lambda>k. inode_map (superb fs) k = available) [0..<32]"

lemma getAvlInode_eq: "getAvlInode fs = index_of (free_inode fs)"
  using avl_inode_from_eq [of 0 fs] by (simp add: getAvlInode_def free_inode_def)

lemma free_inode_Some: "free_inode fs = Some k \<Longrightarrow> k < 32 \<and> inode_map (superb fs) k = available"
  by (auto simp: free_inode_def find_Some_iff)

definition free_dent :: "inodeblock \<Rightarrow> nat option" where
  "free_dent ino = find (\<lambda>i. \<not> used ino i) [0..<1024]"

lemma avl_dirdata_from_eq:
  assumes d: "dents_ok ino"
  shows "i \<le> 1024 \<Longrightarrow> avl_dirdata_from ino i = Inr (index_of (find (\<lambda>i. \<not> used ino i) [i..<1024]))"
proof (induction "1024 - i" arbitrary: i)
  case 0
  then show ?case by (simp add: avl_dirdata_from.simps)
next
  case (Suc n)
  then have i: "i < 1024" by simp
  have "strcmp (dent_name ino i) [0, 0] = Inr (cmp_str (cstr (dent_name ino i)) [])"
    using dents_okD(1) [OF d i] by (simp add: strcmp_eq)
  with i Suc.hyps(1) [of "Suc i"] Suc.hyps(2) show ?case
    by (simp add: avl_dirdata_from.simps [of ino i] find_from used_def)
qed

lemma getAvlDirdata_eq:
  "p < 32 \<Longrightarrow> dents_ok (inodes fs p) \<Longrightarrow> getAvlDirdata fs (int p) = Inr (index_of (free_dent (inodes fs p)))"
  using avl_dirdata_from_eq [of "inodes fs p" 0] by (simp add: getAvlDirdata_def free_dent_def)

lemma free_dent_Some: "free_dent ino = Some i \<Longrightarrow> i < 1024 \<and> \<not> used ino i"
  by (auto simp: free_dent_def find_Some_iff)

lemma free_dent_None: "free_dent ino = None \<longleftrightarrow> used_count ino 1024 = 1024"
proof
  assume "free_dent ino = None"
  then have "filter (used ino) [0..<1024] = [0..<1024]"
    by (auto simp: free_dent_def find_None_iff filter_id_conv)
  then show "used_count ino 1024 = 1024" by (simp add: used_count_def)
next
  assume "used_count ino 1024 = 1024"
  then have "filter (used ino) [0..<1024] = [0..<1024]"
    by (metis diff_zero filter_id_conv length_filter_less length_upt less_irrefl_nat used_count_def)
  then show "free_dent ino = None" by (auto simp: free_dent_def find_None_iff filter_id_conv)
qed


section \<open>The last name of a path\<close>

lemma below_append: "below ds q = below ds [] @ q"
  by (induction ds) auto

lemma last_below: "last (slash # below ds []) = slash"
proof (induction ds)
  case (Cons d ds)
  then show ?case by (cases "below ds [] = []") auto
qed simp

lemma last_offset_eq:
  assumes "0 < off" and "path ! (off - 1) = slash" and "off < len"
    and "\<forall>j. off \<le> j \<and> j < len - 1 \<longrightarrow> path ! j \<noteq> slash"
  shows "off \<le> m \<Longrightarrow> m \<le> len \<Longrightarrow> last_offset path len m = off"
proof (induction "m - off" arbitrary: m)
  case 0
  then have m: "m = off" by simp
  obtain i where "off = Suc i" using assms(1) by (cases off) auto
  then show ?case using assms m by simp
next
  case (Suc n)
  then obtain i where m: "m = Suc i" by (cases m) auto
  with Suc have "off \<le> i" "i < len" "n = i - off" by auto
  with assms(4) Suc.hyps(1) [of i] m show ?case by auto
qed

lemma nth_last_of_prefix: "pre \<noteq> [] \<Longrightarrow> (pre @ q) ! (length pre - 1) = last pre"
  by (simp add: last_conv_nth nth_append)

lemma nth_butlast_middle:
  "length pre \<le> j \<Longrightarrow> j < length pre + length n - 1 \<Longrightarrow> (pre @ n @ q) ! j \<in> set (butlast n)"
proof -
  assume j: "length pre \<le> j" "j < length pre + length n - 1"
  then have "j - length pre < length n" by arith
  with j have "(pre @ n @ q) ! j = butlast n ! (j - length pre)"
    by (simp add: nth_append nth_butlast)
  moreover have "j - length pre < length (butlast n)" using j by simp
  ultimately show ?thesis by (metis nth_mem)
qed

lemma getLastLevelName_render:
  assumes p: "\<forall>d\<in>set ds. component d" and n: "last_name n"
  shows "getLastLevelName (render ds n r) = Inr (n @ 0 # r)"
proof -
  let ?pre = "slash # below ds []"
  have path: "render ds n r = ?pre @ n @ 0 # r"
    by (simp add: render_def below_append [of ds "n @ 0 # r"])
  have cs: "cstr (render ds n r) = ?pre @ n"
    using p n by (simp add: render_def cstr_below last_name_def below_append [of ds n])
  have ne: "n \<noteq> []" using n by (simp add: last_name_def)
  have "(?pre @ n @ 0 # r) ! (length ?pre - 1) = slash"
    using nth_last_of_prefix [of ?pre] last_below [of ds] by (metis list.distinct(1))
  moreover have "(?pre @ n @ 0 # r) ! j \<noteq> slash"
    if "length ?pre \<le> j" "j < length ?pre + length n - 1" for j
    using nth_butlast_middle [OF that, of "0 # r"] n by (metis last_name_def)
  ultimately have "last_offset (render ds n r) (length ?pre + length n) (length ?pre + length n) = length ?pre"
    using ne by (intro last_offset_eq) (auto simp: path)
  moreover have "strlen (render ds n r) = Inr (length ?pre + length n)"
    by (simp only: strlen_eq cs length_append) (simp add: render_def)
  ultimately have "getLastLevelName (render ds n r) = Inr (drop (length ?pre) (render ds n r))"
    by (simp only: getLastLevelName_def bind_r_Inr)
  then show ?thesis by (simp add: path)
qed

end
