(* ===== verification/Fscreate.thy ===== *)
theory Fscreate
  imports Fsprops
begin

text \<open>
  Creating and removing files. \<open>fs_ok\<close> is the invariant: every directory is in good order and
  in use, and refers to inodes in use only. \<open>file_added\<close> states the effect of \<open>makeFL\<close>: one
  new entry, one new inode, nothing else; from it the lookups after a creation follow.
\<close>

section \<open>The invariant\<close>

definition fs_ok :: "filesys \<Rightarrow> bool" where
  "fs_ok fs \<longleftrightarrow> dirs_ok fs
     \<and> (\<forall>k < 32. length (iname (inodes fs k)) = 28)
     \<and> (\<forall>k < 32. itype (inodes fs k) = DIR \<longrightarrow> inode_map (superb fs) k \<noteq> available)
     \<and> (\<forall>k < 32. itype (inodes fs k) = DIR \<longrightarrow> (\<forall>i < 1024. used (inodes fs k) i \<longrightarrow>
          inode_map (superb fs) (unat (dent_ino (inodes fs k) i)) \<noteq> available))"

lemma fs_ok_same: "fs_ok fs \<Longrightarrow> same_files fs fs' \<Longrightarrow> fs_ok fs'"
  using dirs_ok_same by (auto simp: fs_ok_def same_files_def)

lemma fs_ok_dirs: "fs_ok fs \<Longrightarrow> dirs_ok fs"
  by (simp add: fs_ok_def)

section \<open>A new directory entry\<close>

definition new_dent :: "inodeblock \<Rightarrow> nat \<Rightarrow> u32 \<Rightarrow> u8 list \<Rightarrow> inodeblock" where
  "new_dent ino i w bs = (let d = set_dent_name (set_dent_ino ino i w) i bs in d\<lparr>isz := isz d + 1\<rparr>)"

lemma new_dent_simps [simp]:
  "itype (new_dent ino i w bs) = itype ino" "iname (new_dent ino i w bs) = iname ino"
  "isz (new_dent ino i w bs) = isz ino + 1"
  by (simp_all add: new_dent_def Let_def)

lemma new_dent_dents [simp]:
  assumes "length bs = 28"
  shows "dent_ino (new_dent ino i w bs) j = (if j = i then w else dent_ino ino j)"
    and "dent_name (new_dent ino i w bs) j = (if j = i then bs else dent_name ino j)"
    and "used (new_dent ino i w bs) j = (if j = i then cstr bs \<noteq> [] else used ino j)"
  using assms by (simp_all add: new_dent_def Let_def used_def)

lemma used_count_card: "used_count ino n = card {i. i < n \<and> used ino i}"
  by (simp add: used_count_def length_filter_conv_card cong: conj_cong)

lemma used_count_new:
  assumes "length bs = 28" and "cstr bs \<noteq> []" and "i < n" and "\<not> used ino i"
  shows "used_count (new_dent ino i w bs) n = used_count ino n + 1"
proof -
  have "{j. j < n \<and> used (new_dent ino i w bs) j} = insert i {j. j < n \<and> used ino j}"
    using assms by auto
  moreover have "finite {j. j < n \<and> used ino j}" by simp
  ultimately show ?thesis using assms(4) by (simp add: used_count_card)
qed

lemma dir_ok_new:
  assumes d: "dir_ok ino" and bs: "length bs = 28" "cstr bs \<noteq> []" "terminated bs"
    and i: "i < 1024" "\<not> used ino i" and w: "unat w < 32"
  shows "dir_ok (new_dent ino i w bs)"
proof -
  have sz: "unat (isz ino) = used_count ino 1024" and dd: "dents_ok ino"
    using d by (simp_all add: dir_ok_def)
  have "unat (isz ino) \<le> 1024" using sz used_count_le [of ino 1024] by simp
  then have "unat (isz ino + 1) = unat (isz ino) + 1"
    by (simp add: unat_word_ariths)
  then have "unat (isz (new_dent ino i w bs)) = used_count (new_dent ino i w bs) 1024"
    using used_count_new [OF bs(1,2) i] sz by simp
  moreover have "dents_ok (new_dent ino i w bs)"
    using dd bs w by (auto simp: dents_ok_def)
  ultimately show ?thesis by (simp add: dir_ok_def)
qed

lemma enter_dent_eq:
  assumes "terminated name" and "length (cstr name) < 28"
  shows "\<exists>bs. enter_dent fs p i (int k) name = Inr (put_inode fs p (new_dent (inodes fs p) i (word_of_nat k) bs))
    \<and> length bs = 28 \<and> terminated bs \<and> cstr bs = cstr name"
  using strcpy_dent_ok [OF assms, of "set_dent_ino (inodes fs p) i (word_of_nat k)" i]
  by (auto simp: enter_dent_def new_dent_def Let_def)


section \<open>The effect of makeFL\<close>

text \<open>
  \<open>entry_added fs fs' p i k n ino\<close>: \<open>fs'\<close> is \<open>fs\<close> with the inode \<open>k\<close> replaced by \<open>ino\<close> and
  entered as \<open>n\<close> in slot \<open>i\<close> of directory \<open>p\<close>. \<open>file_added\<close>: it is a file; the contents and
  the size of inode \<open>k\<close> stay what they were.
\<close>

definition entry_added :: "filesys \<Rightarrow> filesys \<Rightarrow> nat \<Rightarrow> nat \<Rightarrow> nat \<Rightarrow> u8 list \<Rightarrow> inodeblock \<Rightarrow> bool" where
  "entry_added fs fs' p i k n ino \<longleftrightarrow>
     (\<exists>bs. length bs = 28 \<and> terminated bs \<and> cstr bs = n \<and> length (iname ino) = 28
        \<and> inodes fs' = (inodes fs)(p := new_dent (inodes fs p) i (word_of_nat k) bs, k := ino)
        \<and> superb fs' = (superb fs)\<lparr>inuse_inode_num := inuse_inode_num (superb fs) + 2,
             inode_map := (inode_map (superb fs))(k := inuse)\<rparr>
        \<and> length (top_dir fs') = 28)"

definition file_added :: "filesys \<Rightarrow> filesys \<Rightarrow> nat \<Rightarrow> nat \<Rightarrow> nat \<Rightarrow> u8 list \<Rightarrow> bool" where
  "file_added fs fs' p i k n \<longleftrightarrow>
     (\<exists>nm. length nm = 28 \<and> terminated nm \<and> cstr nm = n
        \<and> entry_added fs fs' p i k n ((inodes fs k)\<lparr>itype := FL, iname := nm\<rparr>))"

text \<open>A file name: no slash, and room for its terminator in 28 bytes.\<close>

definition file_name :: "u8 list \<Rightarrow> bool" where
  "file_name n \<longleftrightarrow> n \<noteq> [] \<and> 0 \<notin> set n \<and> slash \<notin> set n \<and> length n < 28"

lemma file_name_last: "file_name n \<Longrightarrow> last_name n"
  by (auto simp: file_name_def last_name_def dest: in_set_butlastD)

lemma makeFL_spec:
  assumes ok: "fs_ok fs" and p: "\<forall>d\<in>set ds. component d" and n: "file_name n"
    and up: "resolve fs 0 ds = Some p"
    and k: "free_inode fs = Some k" and i: "free_dent (inodes fs p) = Some i"
  shows "\<exists>fs'. makeFL fs (render ds n r) None = Inr fs' \<and> file_added fs fs' p i k n"
proof -
  have ok': "dirs_ok fs" using ok by (rule fs_ok_dirs)
  have p32: "p < 32" "itype (inodes fs p) = DIR"
    using resolve_dir [OF ok' _ _ up] ok' by (auto simp: dirs_ok_def)
  have k32: "k < 32" "k \<noteq> p" using free_inode_Some [OF k] ok p32 by (auto simp: fs_ok_def)
  have dd: "dents_ok (inodes fs p)" using dirs_okD [OF ok' p32] by (simp add: dir_ok_def)
  obtain fs1 where s: "same_files fs fs1"
    and up1: "findUpperDirPos fs (render ds n r) = Inr (int p, fs1)"
    using findUpperDirPos_spec [OF ok' p file_name_last [OF n], of r] up by auto
  note in1 = same_files_inodes [OF s]
  have nn: "0 \<notin> set n" "n \<noteq> []" "length n < 28" using n by (auto simp: file_name_def)
  have last: "getLastLevelName (render ds n r) = Inr (n @ 0 # r)"
    by (rule getLastLevelName_render [OF p file_name_last [OF n]])
  let ?name = "n @ 0 # drop (Suc (length n)) name_buf"
  have name: "strcpy name_buf (n @ 0 # r) = Inr ?name"
    using nn by (simp add: strcpy_eq name_buf_def)
  have tn: "terminated ?name" "cstr ?name = n" using nn by simp_all
  let ?fs2 = "inuse_inc fs1"
  have in2: "inodes ?fs2 = inodes fs" using in1 by (simp add: inuse_inc_def)
  have slot: "getAvlDirdata ?fs2 (int p) = Inr (int i)"
    using getAvlDirdata_eq [OF p32(1), of ?fs2] dd i in2 by simp
  obtain bs where ent: "enter_dent ?fs2 p i (int k) ?name =
      Inr (put_inode ?fs2 p (new_dent (inodes fs p) i (word_of_nat k) bs))"
    and bs: "length bs = 28" "terminated bs" "cstr bs = n"
    using enter_dent_eq [of ?name ?fs2 p i k] tn nn in2 by auto
  let ?nm = "n @ 0 # drop (Suc (length n)) (iname (inodes fs k))"
  have "length (iname (inodes fs k)) = 28" using ok k32(1) by (simp add: fs_ok_def)
  then have nm: "strcpy_iname ((inodes fs k)\<lparr>itype := FL\<rparr>) ?name = Inr ((inodes fs k)\<lparr>itype := FL, iname := ?nm\<rparr>)"
    and nm': "length ?nm = 28" "terminated ?nm" "cstr ?nm = n"
    using nn tn by (simp_all add: strcpy_iname_def strcpy_eq)
  let ?fs3 = "put_inode ?fs2 p (new_dent (inodes fs p) i (word_of_nat k) bs)"
  let ?fs' = "set_inode_map (inuse_inc (put_inode ?fs3 k ((inodes fs k)\<lparr>itype := FL, iname := ?nm\<rparr>))) k inuse"
  have "makeFL fs (render ds n r) None = Inr ?fs'"
    using k k32 slot ent nm in2
    by (simp add: makeFL_def getAvlInode_eq up1 last name store_data_def Let_def)
  moreover have "file_added fs ?fs' p i k n"
    unfolding file_added_def entry_added_def
    by (rule exI [of _ ?nm])
      (use bs nm' s in \<open>auto simp: set_inode_map_def inuse_inc_def put_inode_def same_files_def\<close>)
  ultimately show ?thesis by blast
qed


section \<open>Lookups after a creation\<close>

text \<open>The hypotheses under which a file is added: a good file system, a directory, a free inode and slot.\<close>

definition can_add :: "filesys \<Rightarrow> nat \<Rightarrow> nat \<Rightarrow> nat \<Rightarrow> bool" where
  "can_add fs p i k \<longleftrightarrow> fs_ok fs \<and> p < 32 \<and> itype (inodes fs p) = DIR \<and> i < 1024
     \<and> \<not> used (inodes fs p) i \<and> k < 32 \<and> inode_map (superb fs) k = available"

lemma can_addI:
  assumes "fs_ok fs" and "resolve fs 0 ds = Some p" and "free_inode fs = Some k"
    and "free_dent (inodes fs p) = Some i"
  shows "can_add fs p i k"
  using resolve_dir [OF fs_ok_dirs [OF assms(1)] _ _ assms(2)] fs_ok_dirs [OF assms(1)] assms
    free_inode_Some [OF assms(3)] free_dent_Some [OF assms(4)]
  by (auto simp: can_add_def dirs_ok_def)

lemma can_add_new:
  assumes "can_add fs p i k"
  shows "k \<noteq> p" and "itype (inodes fs k) \<noteq> DIR" and "unat (word_of_nat k :: u32) = k"
    and "j < 32 \<Longrightarrow> itype (inodes fs j) = DIR \<Longrightarrow> a < 1024 \<Longrightarrow> used (inodes fs j) a \<Longrightarrow>
      unat (dent_ino (inodes fs j) a) \<noteq> k"
  using assms by (auto simp: can_add_def fs_ok_def unat_u32)

text \<open>The inode of the new entry is the free one, so no other entry names it.\<close>

lemma entry_added_inodes:
  assumes "entry_added fs fs' p i k n ino" and "can_add fs p i k"
  shows "itype (inodes fs' j) = (if j = k then itype ino else itype (inodes fs j))"
    and "j \<noteq> p \<Longrightarrow> j \<noteq> k \<Longrightarrow> inodes fs' j = inodes fs j" and "inodes fs' k = ino"
  using assms can_add_new(1) [OF assms(2)] by (auto simp: entry_added_def)

lemma entry_added_matches:
  assumes f: "entry_added fs fs' p i k n ino" and c: "can_add fs p i k" and n: "n \<noteq> []"
    and j: "j < 32" "itype (inodes fs j) = DIR" and a: "a < 1024"
  shows "matches fs' j nm t a = (if j = p \<and> a = i then nm = n \<and> t = itype ino else matches fs j nm t a)"
proof -
  note nw = can_add_new [OF c]
  note ty = entry_added_inodes(1) [OF f c]
  have jk: "j \<noteq> k" using nw(2) j(2) by auto
  show ?thesis
  proof (cases "j = p")
    case True
    obtain bs where "inodes fs' p = new_dent (inodes fs p) i (word_of_nat k) bs" "length bs = 28" "cstr bs = n"
      using f jk True by (auto simp: entry_added_def)
    then show ?thesis using n nw(3) nw(4) [OF j a] True
      by (auto simp: matches_def ty)
  next
    case False
    then show ?thesis using entry_added_inodes(2) [OF f c False jk] nw(4) [OF j a]
      by (auto simp: matches_def ty)
  qed
qed

lemma find_changed:
  assumes "\<And>x. x \<in> set xs \<Longrightarrow> x \<noteq> i \<Longrightarrow> P' x = P x" and "\<not> P i"
  shows "\<not> P' i \<Longrightarrow> find P' xs = find P xs"
    and "P' i \<Longrightarrow> i \<in> set xs \<Longrightarrow> find P xs = None \<Longrightarrow> find P' xs = Some i"
  using assms by (induction xs) (auto split: if_splits)

lemma entry_added_lookup:
  assumes f: "entry_added fs fs' p i k n ino" and c: "can_add fs p i k" and n: "n \<noteq> []"
    and new: "dir_lookup fs p n (itype ino) = None" and j: "j < 32" "itype (inodes fs j) = DIR"
  shows "dir_lookup fs' j nm t = (if j = p \<and> nm = n \<and> t = itype ino then Some k else dir_lookup fs j nm t)"
proof (cases "j = p")
  case True
  have jk: "p \<noteq> k" using can_add_new(1) [OF c] by simp
  obtain bs where ino: "inodes fs' p = new_dent (inodes fs p) i (word_of_nat k) bs" and bs: "length bs = 28"
    using f jk by (auto simp: entry_added_def)
  have i: "i < 1024" "\<not> used (inodes fs p) i" using c by (auto simp: can_add_def)
  have m: "matches fs' p nm t a = (if a = i then nm = n \<and> t = itype ino else matches fs p nm t a)" if "a < 1024" for a
    using entry_added_matches [OF f c n j that, of nm t] True by simp
  have old: "\<not> matches fs p nm t i" using i by (simp add: matches_def)
  show ?thesis
  proof (cases "nm = n \<and> t = itype ino")
    case True
    then have "find (matches fs' p nm t) [0..<1024] = Some i"
      using find_changed(2) [of "[0..<1024]" i "matches fs' p nm t" "matches fs p nm t"] m old i new
      by (simp add: dir_lookup_def)
    then show ?thesis using True \<open>j = p\<close> can_add_new(3) [OF c] bs by (simp add: dir_lookup_def ino)
  next
    case False
    then have "find (matches fs' p nm t) [0..<1024] = find (matches fs p nm t) [0..<1024]"
      using find_changed(1) [of "[0..<1024]" i "matches fs' p nm t" "matches fs p nm t"] m old i by auto
    moreover have "a \<noteq> i" if "find (matches fs p nm t) [0..<1024] = Some a" for a
      using that old by (auto simp: find_Some_iff)
    ultimately show ?thesis using False \<open>j = p\<close> bs
      by (auto simp: dir_lookup_def ino cong: map_option_cong)
  qed
next
  case False
  have jk: "j \<noteq> k" using can_add_new(2) [OF c] j by auto
  have "find (matches fs' j nm t) [0..<1024] = find (matches fs j nm t) [0..<1024]"
    using entry_added_matches [OF f c n j, of _ nm t] False by (intro find_cong) auto
  then show ?thesis using False entry_added_inodes(2) [OF f c False jk] by (simp add: dir_lookup_def)
qed

lemma dir_lookup_dir:
  assumes "fs_ok fs" and "j < 32" and "itype (inodes fs j) = DIR" and "dir_lookup fs j d DIR = Some m"
  shows "m < 32 \<and> itype (inodes fs m) = DIR"
  using dir_lookup_Some [OF dirs_okD [OF fs_ok_dirs [OF assms(1)] assms(2,3)] assms(4)] by simp

lemma can_add_ok: "can_add fs p i k \<Longrightarrow> fs_ok fs"
  by (simp add: can_add_def)

text \<open>What could be resolved before still can.\<close>

lemma entry_added_resolve:
  assumes f: "entry_added fs fs' p i k n ino" and c: "can_add fs p i k" and n: "n \<noteq> []"
    and new: "dir_lookup fs p n (itype ino) = None"
  shows "j < 32 \<Longrightarrow> itype (inodes fs j) = DIR \<Longrightarrow> resolve fs j ds = Some m \<Longrightarrow> resolve fs' j ds = Some m"
proof (induction ds arbitrary: j)
  case (Cons d ds)
  obtain l where l: "dir_lookup fs j (d @ [slash]) DIR = Some l" "resolve fs l ds = Some m"
    using Cons.prems(3) by (auto split: option.splits)
  have "dir_lookup fs' j (d @ [slash]) DIR = Some l"
    using entry_added_lookup [OF f c n new Cons.prems(1,2), of "d @ [slash]" DIR] l(1) new by auto
  then show ?case using Cons.IH [OF _ _ l(2)] dir_lookup_dir [OF can_add_ok [OF c] Cons.prems(1,2) l(1)] by simp
qed simp

lemma entry_added_fs_ok:
  assumes f: "entry_added fs fs' p i k n ino" and c: "can_add fs p i k" and n: "n \<noteq> []"
    and d: "itype ino = DIR \<Longrightarrow> dir_ok ino \<and> (\<forall>a < 1024. used ino a \<longrightarrow>
        unat (dent_ino ino a) = k \<or> inode_map (superb fs) (unat (dent_ino ino a)) \<noteq> available)"
  shows "fs_ok fs'"
proof -
  note nw = can_add_new [OF c]
  note ty = entry_added_inodes(1) [OF f c]
  have ok: "fs_ok fs" and p: "p < 32" "itype (inodes fs p) = DIR" and i: "i < 1024" "\<not> used (inodes fs p) i"
    and k: "k < 32" using c by (auto simp: can_add_def)
  obtain bs where bs: "length bs = 28" "terminated bs" "cstr bs = n" and nm: "length (iname ino) = 28"
    and ino: "inodes fs' = (inodes fs)(p := new_dent (inodes fs p) i (word_of_nat k) bs, k := ino)"
    and sb: "inode_map (superb fs') = (inode_map (superb fs))(k := inuse)" "length (top_dir fs') = 28"
    using f by (auto simp: entry_added_def)
  have dp: "dir_ok (inodes fs' p)"
    using dir_ok_new [OF dirs_okD [OF fs_ok_dirs [OF ok] p] bs(1) _ bs(2) i] n bs(3) nw(1,3) k
    by (simp add: ino)
  have "itype (inodes fs 0) = DIR" using fs_ok_dirs [OF ok] by (simp add: dirs_ok_def)
  then have k0: "k \<noteq> 0" using nw(2) by (cases k) auto
  have "dirs_ok fs'"
    using k0 fs_ok_dirs [OF ok] dp sb(2) nw(2) d unfolding dirs_ok_def ty by (auto simp: ino)
  moreover have "\<forall>j < 32. length (iname (inodes fs' j)) = 28"
    using ok nm by (auto simp: fs_ok_def ino)
  moreover have "\<forall>j < 32. itype (inodes fs' j) = DIR \<longrightarrow> inode_map (superb fs') j \<noteq> available"
    using ok unfolding fs_ok_def ty sb by auto
  moreover have "inode_map (superb fs') (unat (dent_ino (inodes fs' j) a)) \<noteq> available"
    if "j < 32" "itype (inodes fs' j) = DIR" "a < 1024" "used (inodes fs' j) a" for j a
  proof (cases "j = k")
    case True
    then show ?thesis using that d by (auto simp: ino sb)
  next
    case False
    then have "itype (inodes fs j) = DIR" using that(2) by (auto simp: ty split: if_splits)
    then show ?thesis using False ok that bs(1) nw(3) by (auto simp: fs_ok_def sb ino split: if_splits)
  qed
  ultimately show ?thesis by (simp add: fs_ok_def)
qed

text \<open>The same for a file; no path of directories changes.\<close>

lemma file_added_inodes:
  assumes "file_added fs fs' p i k n" and "can_add fs p i k"
  shows "itype (inodes fs' j) = (if j = k then FL else itype (inodes fs j))"
    and "j \<noteq> p \<Longrightarrow> j \<noteq> k \<Longrightarrow> inodes fs' j = inodes fs j"
  using assms entry_added_inodes [OF _ assms(2)] by (auto simp: file_added_def)

lemma file_added_lookup:
  assumes "file_added fs fs' p i k n" and "can_add fs p i k" and "n \<noteq> []"
    and "dir_lookup fs p n FL = None" and "j < 32" and "itype (inodes fs j) = DIR"
  shows "dir_lookup fs' j nm t = (if j = p \<and> nm = n \<and> t = FL then Some k else dir_lookup fs j nm t)"
  using assms entry_added_lookup [OF _ assms(2,3) _ assms(5,6), of fs' _ nm t] by (fastforce simp: file_added_def)

lemma file_added_resolve:
  assumes f: "file_added fs fs' p i k n" and c: "can_add fs p i k" and n: "n \<noteq> []"
    and new: "dir_lookup fs p n FL = None"
  shows "j < 32 \<Longrightarrow> itype (inodes fs j) = DIR \<Longrightarrow> resolve fs' j ds = resolve fs j ds"
proof (induction ds arbitrary: j)
  case (Cons d ds)
  have "dir_lookup fs' j (d @ [slash]) DIR = dir_lookup fs j (d @ [slash]) DIR"
    using file_added_lookup [OF f c n new Cons.prems] by simp
  then show ?case using Cons.IH dir_lookup_dir [OF can_add_ok [OF c] Cons.prems] by (auto split: option.splits)
qed simp

lemma file_added_fs_ok:
  assumes "file_added fs fs' p i k n" and "can_add fs p i k" and "n \<noteq> []"
  shows "fs_ok fs'"
  using assms entry_added_fs_ok [OF _ assms(2,3)] by (fastforce simp: file_added_def)


section \<open>The effect of rmFL\<close>

definition named :: "inodeblock \<Rightarrow> u8 list \<Rightarrow> nat \<Rightarrow> bool" where
  "named ino n i \<longleftrightarrow> used ino i \<and> cstr (dent_name ino i) = n"

definition cleared :: "inodeblock \<Rightarrow> nat \<Rightarrow> u8 list \<Rightarrow> inodeblock" where
  "cleared ino i bs = set_dent_name (set_dent_ino ino i 0) i bs"

lemma cleared_simps [simp]:
  "itype (cleared ino i bs) = itype ino" "iname (cleared ino i bs) = iname ino"
  "isz (cleared ino i bs) = isz ino"
  by (simp_all add: cleared_def)

lemma cleared_dents [simp]:
  assumes "length bs = 28"
  shows "dent_ino (cleared ino i bs) j = (if j = i then 0 else dent_ino ino j)"
    and "dent_name (cleared ino i bs) j = (if j = i then bs else dent_name ino j)"
    and "used (cleared ino i bs) j = (if j = i then cstr bs \<noteq> [] else used ino j)"
  using assms by (simp_all add: cleared_def used_def)

lemma used_count_cleared:
  assumes "length bs = 28" and "cstr bs = []" and "i < n" and "used ino i"
  shows "Suc (used_count (cleared ino i bs) n) = used_count ino n"
proof -
  have "{j. j < n \<and> used ino j} = insert i {j. j < n \<and> used (cleared ino i bs) j}"
    and "i \<notin> {j. j < n \<and> used (cleared ino i bs) j}"
    and "finite {j. j < n \<and> used (cleared ino i bs) j}"
    using assms by auto
  then show ?thesis by (simp add: used_count_card)
qed

lemma rm_from_eq:
  assumes d: "dir_ok (inodes fs p)" and nm: "terminated nm" "cstr nm = n" "n \<noteq> []"
    and a: "find (named (inodes fs p) n) [i..<1024] = Some a"
  shows "i \<le> 1024 \<Longrightarrow> \<exists>bs. rm_from fs p nm i (used_count (inodes fs p) i) =
      Inr (put_inode fs p (cleared (inodes fs p) a bs)) \<and> length bs = 28 \<and> terminated bs \<and> cstr bs = []"
  using a
proof (induction "1024 - i" arbitrary: i)
  case (Suc m)
  let ?ino = "inodes fs p" and ?c = "used_count (inodes fs p) i"
  have i: "i < 1024" using Suc.hyps(2) by simp
  have sz: "unat (isz ?ino) = used_count ?ino 1024" and dd: "dents_ok ?ino"
    using d by (simp_all add: dir_ok_def)
  have t: "terminated (dent_name ?ino i)" by (rule dents_okD(1) [OF dd i])
  have a': "i \<le> a" "a < 1024" "used ?ino a"
    using Suc.prems(2) by (auto simp: find_Some_iff named_def)
  have "0 < length (filter (used ?ino) [i..<1024])"
    using a' by (auto simp: length_greater_0_conv filter_empty_conv)
  then have lt: "?c < unat (isz ?ino)" using sz used_count_split [of i 1024 ?ino] i by simp
  have e: "strcmp (dent_name ?ino i) [0, 0] = Inr (cmp_str (cstr (dent_name ?ino i)) [])"
    "strcmp nm (dent_name ?ino i) = Inr (cmp_str n (cstr (dent_name ?ino i)))"
    using t nm by (simp_all add: strcmp_eq)
  show ?case
  proof (cases "named ?ino n i")
    case True
    then have ai: "a = i" using Suc.prems(2) by (simp add: find_from [OF i])
    obtain bs where "strcpy_dent (set_dent_ino ?ino i 0) i [0, 0] = Inr (cleared ?ino i bs)"
      "length bs = 28" "terminated bs" "cstr bs = []"
      using strcpy_dent_ok [of "[0, 0]" "set_dent_ino ?ino i 0" i] by (auto simp: cleared_def)
    then show ?thesis using True lt i
      by (auto simp: rm_from.simps [of fs p nm i] e named_def used_def ai)
  next
    case False
    then have "find (named ?ino n) [Suc i..<1024] = Some a" using Suc.prems(2) by (simp add: find_from [OF i])
    with Suc.hyps(1) [of "Suc i"] Suc.hyps(2) False lt i show ?thesis
      by (cases "used ?ino i") (auto simp: rm_from.simps [of fs p nm i] e named_def used_def)
  qed
qed simp

text \<open>
  \<open>file_removed fs fs' p a k\<close>: slot \<open>a\<close> of directory \<open>p\<close> is emptied and inode \<open>k\<close> is marked
  available; the directory's \<open>filenum\<close> is what it was.
\<close>

definition file_removed :: "filesys \<Rightarrow> filesys \<Rightarrow> nat \<Rightarrow> nat \<Rightarrow> nat \<Rightarrow> bool" where
  "file_removed fs fs' p a k \<longleftrightarrow>
     (\<exists>bs. length bs = 28 \<and> terminated bs \<and> cstr bs = []
        \<and> inodes fs' = (inodes fs)(p := cleared (inodes fs p) a bs)
        \<and> superb fs' = (superb fs)\<lparr>inode_map := (inode_map (superb fs))(k := available)\<rparr>
        \<and> length (top_dir fs') = 28)"

lemma rmFL_spec:
  assumes ok: "dirs_ok fs" and p: "\<forall>d\<in>set ds. component d" and n: "file_name n"
    and up: "resolve fs 0 ds = Some p" and k: "dir_lookup fs p n FL = Some k"
    and own: "terminated (iname (inodes fs k))" "cstr (iname (inodes fs k)) = n"
    and a: "find (named (inodes fs p) n) [0..<1024] = Some a"
  shows "\<exists>fs'. rmFL fs (render ds n r) = Inr fs' \<and> file_removed fs fs' p a k"
proof -
  note ln = file_name_last [OF n]
  have p32: "p < 32" "itype (inodes fs p) = DIR"
    using resolve_dir [OF ok _ _ up] ok by (auto simp: dirs_ok_def)
  have dp: "dir_ok (inodes fs p)" by (rule dirs_okD [OF ok p32])
  have k32: "k < 32" using dir_lookup_Some [OF dp k] by simp
  obtain fs1 where s1: "same_files fs fs1" and f1: "findCurrentFLPos fs (render ds n r) = Inr (int k, fs1)"
    using findCurrentFLPos_spec [OF ok p ln, of r] up k by auto
  note i1 = same_files_inodes [OF s1]
  obtain fs2 where s2: "same_files fs fs2" and f2: "findUpperDirPos fs1 (render ds n r) = Inr (int p, fs2)"
    using findUpperDirPos_spec [OF dirs_ok_same [OF ok s1] p ln, of r] up same_files_trans [OF s1]
    by (auto simp: resolve_same [OF i1])
  note i2 = same_files_inodes [OF s2]
  obtain bs where "rm_from fs2 p (iname (inodes fs k)) 0 0 = Inr (put_inode fs2 p (cleared (inodes fs p) a bs))"
    and bs: "length bs = 28" "terminated bs" "cstr bs = []"
    using rm_from_eq [of fs2 p "iname (inodes fs k)" n 0 a] dp own a n by (auto simp: i2 file_name_def)
  then have "rmFL fs (render ds n r) =
      Inr (set_inode_map (put_inode fs2 p (cleared (inodes fs p) a bs)) k 0)"
    using k32 p32(1) i2 by (simp add: rmFL_def f1 f2)
  moreover have "file_removed fs (set_inode_map (put_inode fs2 p (cleared (inodes fs p) a bs)) k 0) p a k"
    using bs s2 unfolding file_removed_def same_files_def
    by (intro exI [of _ bs]) (simp add: set_inode_map_def put_inode_def)
  ultimately show ?thesis by blast
qed

text \<open>\<open>filenum\<close> now counts an entry that is gone.\<close>

lemma file_removed_count:
  assumes r: "file_removed fs fs' p a k" and d: "dir_ok (inodes fs p)" and a: "a < 1024" "used (inodes fs p) a"
  shows "dents_ok (inodes fs' p)"
    and "unat (isz (inodes fs' p)) = Suc (used_count (inodes fs' p) 1024)"
proof -
  obtain bs where bs: "length bs = 28" "terminated bs" "cstr bs = []"
    and i: "inodes fs' p = cleared (inodes fs p) a bs"
    using r by (auto simp: file_removed_def)
  show "dents_ok (inodes fs' p)" using d bs by (auto simp: i dir_ok_def dents_ok_def)
  show "unat (isz (inodes fs' p)) = Suc (used_count (inodes fs' p) 1024)"
    using used_count_cleared [OF bs(1,3) a] d by (simp add: i dir_ok_def)
qed

text \<open>So a scan for a name that is not there leaves the 1024 entries.\<close>

lemma file_removed_scan:
  assumes "file_removed fs fs' p a k" and "dir_ok (inodes fs p)" and "a < 1024" and "used (inodes fs p) a"
    and "terminated nm" and "cstr nm \<noteq> []" and "dir_lookup fs' p (cstr nm) t = None"
  shows "scan_dir fs' p nm t 0 0 = Inl OutOfBounds"
  using file_removed_count [OF assms(1-4)] by (intro scan_dir_overrun [OF _ _ assms(5-7)]) simp_all

end
