(* ===== verification/Rootfs.thy ===== *)
theory Rootfs
  imports Fscreate
begin

text \<open>
  The empty file system: \<open>makeRootDir\<close> on blank inodes gives a file system in good order with
  one directory, which holds \<open>.\<close> and \<open>..\<close> and nothing else.
\<close>

text \<open>Every inode is unused, and inode 0 has only empty entries.\<close>

definition blank :: "filesys \<Rightarrow> bool" where
  "blank fs \<longleftrightarrow> length (top_dir fs) = 28
     \<and> (\<forall>k < 32. length (iname (inodes fs k)) = 28 \<and> itype (inodes fs k) = UNUSED
          \<and> inode_map (superb fs) k = available)
     \<and> (\<forall>i < 1024. terminated (dent_name (inodes fs 0) i) \<and> \<not> used (inodes fs 0) i)"

definition dot :: "u8 list" where "dot = [46]"
definition dotdot :: "u8 list" where "dotdot = [46, 46]"

text \<open>An inode with the entries \<open>.\<close> and \<open>..\<close>, naming the inodes \<open>self\<close> and \<open>up\<close>; the other entries are those of \<open>old\<close>.\<close>

definition dir_inode :: "nat \<Rightarrow> nat \<Rightarrow> inodeblock \<Rightarrow> inodeblock \<Rightarrow> bool" where
  "dir_inode self up old ino \<longleftrightarrow> itype ino = DIR \<and> isz ino = 2 \<and> length (iname ino) = 28
     \<and> dent_ino ino 0 = word_of_nat self \<and> dent_ino ino 1 = word_of_nat up
     \<and> terminated (dent_name ino 0) \<and> terminated (dent_name ino 1)
     \<and> cstr (dent_name ino 0) = dot \<and> cstr (dent_name ino 1) = dotdot
     \<and> (\<forall>i. 1 < i \<longrightarrow> dent_name ino i = dent_name old i)"

abbreviation root_inode :: "inodeblock \<Rightarrow> inodeblock \<Rightarrow> bool" where
  "root_inode \<equiv> dir_inode 0 0"

lemma dot_literals [simp]: "terminated (c_lit ''.'')" "cstr (c_lit ''.'') = dot"
  "terminated (c_lit ''..'')" "cstr (c_lit ''..'') = dotdot" "terminated (c_lit ''/'')" "cstr (c_lit ''/'') = [slash]"
  by (simp_all add: c_lit_def dot_def dotdot_def)

lemma length_dots [simp]: "length dot = 1" "length dotdot = 2" "dot \<noteq> []" "dotdot \<noteq> []" "dot \<noteq> dotdot"
  by (simp_all add: dot_def dotdot_def)

lemma dot_entries_dir:
  assumes "itype ino = DIR" and "length (iname ino) = 28"
  shows "\<exists>ino'. dot_entries ino (int self) (int up) = Inr ino' \<and> dir_inode self up ino ino' \<and> iname ino' = iname ino"
proof -
  let ?d = "set_dent_ino ino 0 (word_of_nat self)"
  obtain b1 where b1: "strcpy_dent ?d 0 (c_lit ''.'') = Inr (set_dent_name ?d 0 b1)"
    "length b1 = 28" "terminated b1" "cstr b1 = dot"
    using strcpy_dent_ok [of "c_lit ''.''" ?d 0] by auto
  let ?i1 = "set_dent_name ?d 0 b1"
  let ?e = "set_dent_ino ?i1 1 (word_of_nat up)"
  obtain b2 where b2: "strcpy_dent ?e 1 (c_lit ''..'') = Inr (set_dent_name ?e 1 b2)"
    "length b2 = 28" "terminated b2" "cstr b2 = dotdot"
    using strcpy_dent_ok [of "c_lit ''..''" ?e 1] by auto
  let ?i2 = "(set_dent_name ?e 1 b2)\<lparr>isz := 2\<rparr>"
  have "dot_entries ino (int self) (int up) = Inr ?i2" using b1(1) b2(1) by (simp add: dot_entries_def)
  moreover have "dir_inode self up ino ?i2" using b1(2-4) b2(2-4) assms by (simp add: dir_inode_def)
  ultimately show ?thesis by (intro exI [of _ ?i2]) simp
qed

lemma dir_inode_used:
  assumes "dir_inode self up old ino" and "\<forall>i < 1024. 1 < i \<longrightarrow> \<not> used old i"
  shows "i < 1024 \<Longrightarrow> used ino i \<longleftrightarrow> i < 2"
proof -
  assume "i < 1024"
  have "i = 0 \<or> i = 1 \<or> 1 < i" by linarith
  then show ?thesis using assms \<open>i < 1024\<close> by (elim disjE) (auto simp: dir_inode_def used_def)
qed

lemma dir_inode_dir_ok:
  assumes r: "dir_inode self up old ino" and o: "\<forall>i < 1024. 1 < i \<longrightarrow> terminated (dent_name old i) \<and> \<not> used old i"
    and n: "self < 32" "up < 32"
  shows "dir_ok ino"
proof -
  have u: "\<And>i. i < 1024 \<Longrightarrow> used ino i \<longleftrightarrow> i < 2" using dir_inode_used [OF r] o by blast
  have "{i. i < 1024 \<and> used ino i} = {0, 1}" using u by auto
  then have "used_count ino 1024 = 2" by (simp add: used_count_card)
  moreover have "dents_ok ino"
    unfolding dents_ok_def
  proof (intro allI impI conjI)
    fix i :: nat
    assume i: "i < 1024"
    have "i = 0 \<or> i = 1 \<or> 1 < i" by linarith
    then show "terminated (dent_name ino i)" using r o i by (auto simp: dir_inode_def)
    assume "used ino i"
    then have "i = 0 \<or> i = 1" using u [OF i] by auto
    then show "unat (dent_ino ino i) < 32" using r n by (auto simp: dir_inode_def unat_u32)
  qed
  ultimately show ?thesis using r by (simp add: dir_ok_def dir_inode_def)
qed

lemma slots_split: "\<exists>tl. [0..<1024::nat] = [0, 1, 2] @ tl \<and> (\<forall>x\<in>set tl. 2 < x \<and> x < 1024)"
proof (intro exI conjI)
  have "(3::nat) + 1021 = 1024" by simp
  from upt_add_eq_append [of 0 3 1021, unfolded this, OF le0]
  have "[0..<1024::nat] = [0..<3] @ [3..<1024]" .
  also have "[0..<3::nat] = [0, 1, 2]" by (simp add: upt_rec)
  finally show "[0..<1024::nat] = [0, 1, 2] @ [3..<1024]" .
  show "\<forall>x\<in>set [3..<1024::nat]. 2 < x \<and> x < 1024"
    unfolding set_upt by simp
qed

text \<open>Such an inode refers to itself and to the directory above, and to nothing else.\<close>

lemma dir_inode_lookup:
  assumes d: "dir_inode self up old (inodes fs k)" and o: "\<forall>i < 1024. 1 < i \<longrightarrow> \<not> used old i"
    and n: "self < 32" "up < 32" "itype (inodes fs self) = DIR" "itype (inodes fs up) = DIR"
  shows "dir_lookup fs k nm t =
    (if t = DIR \<and> nm = dot then Some self else if t = DIR \<and> nm = dotdot then Some up else None)"
proof -
  have u: "used (inodes fs k) i \<longleftrightarrow> i < 2" if "i < 1024" for i by (rule dir_inode_used [OF d o that])
  have e: "unat (dent_ino (inodes fs k) 0) = self" "unat (dent_ino (inodes fs k) (Suc 0)) = up"
    using d n by (simp_all add: dir_inode_def unat_u32)
  obtain tl where f: "[0..<1024::nat] = [0, 1, 2] @ tl" and tl: "\<forall>x\<in>set tl. 2 < x \<and> x < 1024"
    using slots_split by blast
  have m: "matches fs k nm t j \<longleftrightarrow> t = DIR \<and> (j = 0 \<and> nm = dot \<or> j = 1 \<and> nm = dotdot)" if "j < 1024" for j
    using that u [OF that] e d n less_2_cases [of j] by (auto simp: matches_def dir_inode_def)
  have "find (matches fs k nm t) [0..<1024] =
      find (\<lambda>j. t = DIR \<and> (j = 0 \<and> nm = dot \<or> j = 1 \<and> nm = dotdot)) [0..<1024]"
    using m by (intro find_cong) auto
  also have "\<dots> = (if t = DIR \<and> nm = dot then Some 0 else if t = DIR \<and> nm = dotdot then Some 1 else None)"
    unfolding f using tl by (auto simp: find_None_iff)
  finally show ?thesis using e by (auto simp: dir_lookup_def)
qed

lemma makeRootDir_spec:
  assumes b: "blank fs"
  shows "\<exists>fs' ino. makeRootDir fs = Inr fs' \<and> root_inode (inodes fs 0) ino \<and> inodes fs' = (inodes fs)(0 := ino)
    \<and> inode_map (superb fs') = (inode_map (superb fs))(0 := inuse) \<and> top_dir fs' = top_dir fs
    \<and> sb_id (superb fs') = sb_id (superb fs)"
proof -
  have n: "length (iname (inodes fs 0)) = 28" using b by (simp add: blank_def)
  obtain nm where nm: "strcpy_iname ((inodes fs 0)\<lparr>itype := DIR\<rparr>) (c_lit ''/'') =
      Inr ((inodes fs 0)\<lparr>itype := DIR, iname := nm\<rparr>)" "length nm = 28"
    using n by (simp add: strcpy_iname_def strcpy_eq)
  obtain ino where ino: "dot_entries ((inodes fs 0)\<lparr>itype := DIR, iname := nm, isz := 2\<rparr>) (int 0) (int 0) = Inr ino"
    "root_inode ((inodes fs 0)\<lparr>itype := DIR, iname := nm, isz := 2\<rparr>) ino"
    using dot_entries_dir [of "(inodes fs 0)\<lparr>itype := DIR, iname := nm, isz := 2\<rparr>" 0 0] nm(2) by auto
  have "root_inode (inodes fs 0) ino" using ino(2) by (simp add: dir_inode_def)
  then show ?thesis using nm(1) ino(1)
    by (auto simp: makeRootDir_def set_inode_map_def inuse_inc_def put_inode_def)
qed

lemma makeRootDir_fs_ok:
  assumes b: "blank fs" and m: "makeRootDir fs = Inr fs'"
  shows "fs_ok fs'" and "free_inode fs' = Some 1" and "free_dent (inodes fs' 0) = Some 2"
    and "dir_lookup fs' 0 nm t = (if t = DIR \<and> (nm = dot \<or> nm = dotdot) then Some 0 else None)"
proof -
  obtain ino where r: "root_inode (inodes fs 0) ino" and i: "inodes fs' = (inodes fs)(0 := ino)"
    and s: "inode_map (superb fs') = (inode_map (superb fs))(0 := inuse)" "top_dir fs' = top_dir fs"
    using makeRootDir_spec [OF b] m by auto
  have o: "\<forall>i < 1024. terminated (dent_name (inodes fs 0) i) \<and> \<not> used (inodes fs 0) i"
    and bl: "\<forall>k < 32. length (iname (inodes fs k)) = 28 \<and> itype (inodes fs k) = UNUSED
          \<and> inode_map (superb fs) k = available" "length (top_dir fs) = 28"
    using b by (auto simp: blank_def)
  have d: "dir_ok ino" using dir_inode_dir_ok [OF r] o by simp
  have ty: "itype ino = DIR" "length (iname ino) = 28" using r by (auto simp: dir_inode_def)
  have u: "\<And>i. i < 1024 \<Longrightarrow> used ino i \<longleftrightarrow> i < 2" using dir_inode_used [OF r] o by blast
  have e: "unat (dent_ino ino i) = 0" if "i < 2" for i
    using r that less_2_cases [OF that] by (auto simp: dir_inode_def)
  have z: "itype (inodes fs' k) = DIR \<longleftrightarrow> k = 0" if "k < 32" for k
    using bl that ty by (auto simp: i)
  have "dirs_ok fs'" using z d ty s bl by (auto simp: dirs_ok_def i)
  moreover have "\<forall>k < 32. length (iname (inodes fs' k)) = 28" using bl ty by (auto simp: i)
  moreover have "\<forall>k < 32. itype (inodes fs' k) = DIR \<longrightarrow> inode_map (superb fs') k \<noteq> available"
    using z by (auto simp: s)
  moreover have "\<forall>k < 32. itype (inodes fs' k) = DIR \<longrightarrow> (\<forall>i < 1024. used (inodes fs' k) i \<longrightarrow>
          inode_map (superb fs') (unat (dent_ino (inodes fs' k) i)) \<noteq> available)"
    using z u e by (auto simp: s i)
  ultimately show "fs_ok fs'" by (simp add: fs_ok_def)
  show "free_inode fs' = Some 1"
    using bl(1) upt_conv_Cons [of 0 32] upt_conv_Cons [of 1 32] by (simp add: free_inode_def s)
  obtain tl where f: "[0..<1024::nat] = [0, 1, 2] @ tl" and tl: "\<forall>x\<in>set tl. 2 < x \<and> x < 1024"
    using slots_split by blast
  show "free_dent (inodes fs' 0) = Some 2"
    unfolding free_dent_def f using u by (simp add: i)
  show "dir_lookup fs' 0 nm t = (if t = DIR \<and> (nm = dot \<or> nm = dotdot) then Some 0 else None)"
    using dir_inode_lookup [of 0 0 "inodes fs 0" fs' 0 nm t] r o ty by (auto simp: i)
qed


section \<open>A concrete file system\<close>

definition zero_inode :: inodeblock where
  "zero_inode = \<lparr>itype = 0, isz = 0, iname = replicate 28 0, idata = (\<lambda>i. 0)\<rparr>"

definition zero_fs :: filesys where
  "zero_fs = \<lparr>superb = \<lparr>sb_id = replicate 8 0, fs_sz_mb = 2, nr_node = 32, superblock_sz_b = 60,
       inodeblcok_sz_b = 32804, inuse_inode_num = 0, inode_map = (\<lambda>i. 0)\<rparr>,
     inodes = (\<lambda>i. zero_inode), path_offset = 0, top_dir = replicate 28 0\<rparr>"

lemma zero_dent: "dent_name zero_inode i = replicate 28 0"
  by (rule nth_equalityI) (simp_all add: dent_name_def zero_inode_def)

lemma zero_blank: "blank zero_fs"
proof -
  have "terminated (replicate 28 (0::u8))" "cstr (replicate 28 (0::u8)) = []"
    by (simp_all add: terminated_def numeral_eq_Suc)
  then show ?thesis unfolding blank_def zero_fs_def
    by (simp add: used_def zero_dent) (simp add: zero_inode_def)
qed

definition root_fs :: filesys where
  "root_fs = (case makeRootDir zero_fs of Inl e \<Rightarrow> zero_fs | Inr f \<Rightarrow> f)"

lemma root_fs_ok: "makeRootDir zero_fs = Inr root_fs" "fs_ok root_fs" "free_inode root_fs = Some 1"
  "free_dent (inodes root_fs 0) = Some 2"
  "dir_lookup root_fs 0 nm t = (if t = DIR \<and> (nm = dot \<or> nm = dotdot) then Some 0 else None)"
  "inodes root_fs 1 = zero_inode" "sb_id (superb root_fs) = replicate 8 0"
proof -
  obtain f ino where f: "makeRootDir zero_fs = Inr f" "inodes f = (inodes zero_fs)(0 := ino)"
    "sb_id (superb f) = sb_id (superb zero_fs)"
    using makeRootDir_spec [OF zero_blank] by blast
  then show m: "makeRootDir zero_fs = Inr root_fs" by (simp add: root_fs_def)
  show "fs_ok root_fs" "free_inode root_fs = Some 1" "free_dent (inodes root_fs 0) = Some 2"
    "dir_lookup root_fs 0 nm t = (if t = DIR \<and> (nm = dot \<or> nm = dotdot) then Some 0 else None)"
    by (rule makeRootDir_fs_ok [OF zero_blank m])+
  show "inodes root_fs 1 = zero_inode" "sb_id (superb root_fs) = replicate 8 0"
    using f m by (simp_all add: zero_fs_def)
qed

end
