(* ===== verification/Startup.thy ===== *)
theory Startup
  imports Processprops Rootfs
begin

text \<open>
  Concrete kernels: the globals as the C runtime leaves them, the kernel after \<open>initPcb\<close> and
  \<open>preparePCB\<close>, and the kernel when the first process has the processor. The PCBs are
  \<open>sizeof(PCB)\<close>, 16524 bytes, apart from 0x110000 on. The properties of the kernel are
  applied to these.
\<close>

definition zero_tf :: trapframe where
  "zero_tf = \<lparr>tf_gs = 0, tf_fs = 0, tf_es = 0, tf_ds = 0, tf_edi = 0, tf_esi = 0, tf_ebp = 0, tf_xxx = 0,
     tf_ebx = 0, tf_edx = 0, tf_ecx = 0, tf_eax = 0, tf_irq = 0, tf_error = 0, tf_eip = 0, tf_cs = 0,
     tf_eflags = 0, tf_esp = 0, tf_ss = 0\<rparr>"

definition zero_pcb :: pcb where
  "zero_pcb = \<lparr>tf = zero_tf, pstate = RUNNABLE, timeCount = 0, sleepTime = 0, pid = 0, ppid = 0, fp_num = 0,
     filepointer = replicate 8 0, psem = 0\<rparr>"

definition zero_screen :: screen where
  "zero_screen = \<lparr>vram = (\<lambda>i. 0), cursor_x = 0, cursor_y = 0, crtc_index = 0, crtc_reg = (\<lambda>i. 0)\<rparr>"

fun pcb_addr :: "pcbref \<Rightarrow> u32" where
  "pcb_addr (Pcb i) = word_of_nat (0x110000 + 16524 * i)"
| "pcb_addr IdlePcb = 0x110000 + 16524 * 10"
| "pcb_addr Dummy1 = 0x110000 + 16524 * 11"
| "pcb_addr Dummy2 = 0x110000 + 16524 * 12"
| "pcb_addr Dummy3 = 0x110000 + 16524 * 13"
| "pcb_addr DummySem = 0x110000 + 16524 * 14"

definition bss :: kernel where
  "bss = \<lparr>nxt = (\<lambda>p. None), pcbs = (\<lambda>p. zero_pcb), current = IdlePcb, p_num = 0,
     sysFileTable = replicate 512 \<lparr>inode_index = 0, link_num = 0, offset = 0\<rparr>, sys_file_num = 0,
     fs = zero_fs, disk = (\<lambda>i. 0), mem = (\<lambda>i. 0), scr = zero_screen, serial = [], BUF = replicate 1024 0,
     buf_in = 0, buf_out = 0, intr_nesting = False, tss_esp0 = 0, currentstacktop = 0, kaddr = pcb_addr\<rparr>"

definition result :: "kernel exec \<Rightarrow> kernel" where
  "result m = (case m of Inl e \<Rightarrow> bss | Inr k \<Rightarrow> k)"

lemma result_Inr [simp]: "result (Inr k) = k"
  by (simp add: result_def)

definition booted :: kernel where
  "booted = result (preparePCB 0x200000 (result (initPcb bss)))"

definition user_kernel :: kernel where
  "user_kernel = result (schedule booted)"

definition user_sched :: sched where
  "user_sched = \<lparr>ready = [], sleepers = [], freed = map Pcb [2..<10], waiters = [], running = Pcb 1\<rparr>"

lemma booted_ok: "clock_ok booted loaded_sched \<and> \<not> intr_nesting booted \<and> p_num booted = 2
    \<and> kaddr booted = pcb_addr \<and> pid (pcbs booted (Pcb 1)) = 1
    \<and> filepointer (pcbs booted (Pcb 1)) = replicate 8 (-1) \<and> fs booted = zero_fs \<and> mem booted = (\<lambda>i. 0)
    \<and> disk booted = (\<lambda>i. 0) \<and> BUF booted = replicate 1024 0 \<and> buf_in booted = 0 \<and> buf_out booted = 0
    \<and> sysFileTable booted = replicate 512 \<lparr>inode_index = -1, link_num = 0, offset = 0\<rparr>
    \<and> scr booted = zero_screen"
proof -
  obtain k1 where k1: "initPcb bss = Inr k1" "clock_ok k1 boot_sched" "p_num k1 = 1" "\<not> intr_nesting k1"
    "kaddr k1 = kaddr bss" "fs k1 = fs bss" "mem k1 = mem bss" "disk k1 = disk bss" "BUF k1 = BUF bss"
    "buf_in k1 = buf_in bss" "buf_out k1 = buf_out bss" "scr k1 = scr bss"
    "sysFileTable k1 = map (\<lambda>e. e\<lparr>inode_index := -1\<rparr>) (sysFileTable bss)"
    "\<forall>i. 1 \<le> i \<and> i < 10 \<longrightarrow> pcbs k1 (Pcb i) = free_pcb (pcbs bss (Pcb i))"
    using initPcb_ok [of bss] by (auto simp: bss_def)
  obtain k2 where k2: "preparePCB 0x200000 k1 = Inr k2" "clock_ok k2 loaded_sched" "p_num k2 = 2"
    "pcbs k2 (Pcb 1) = first_pcb 1 0x200000 (pcbs k1 (Pcb 1))" "kaddr k2 = kaddr k1"
    "intr_nesting k2 = intr_nesting k1" "fs k2 = fs k1" "mem k2 = mem k1" "disk k2 = disk k1"
    "BUF k2 = BUF k1" "buf_in k2 = buf_in k1" "buf_out k2 = buf_out k1" "scr k2 = scr k1"
    "sysFileTable k2 = sysFileTable k1"
    using preparePCB_ok [OF k1(2,3)] by blast
  have "booted = k2" by (simp add: booted_def k1(1) k2(1))
  moreover have "pcbs k1 (Pcb 1) = free_pcb (pcbs bss (Pcb 1))" using k1(14) by simp
  ultimately show ?thesis using k1 k2 by (simp add: bss_def first_pcb_def free_pcb_def)
qed

text \<open>The first process gets the processor.\<close>

lemma user_kernel_ok: "schedule booted = Inr user_kernel \<and> calling user_kernel user_sched
    \<and> clock_ok user_kernel user_sched \<and> current user_kernel = Pcb 1 \<and> sched_frame booted user_kernel"
proof -
  have r: "sched_rel booted loaded_sched" "pstate (cur booted) = RUNNING"
    using booted_ok by (simp_all add: clock_ok_def)
  have s: "spec_schedule RUNNING loaded_sched = user_sched"
    by (simp add: spec_schedule_def loaded_sched_def user_sched_def)
  obtain k where k: "schedule booted = Inr k" "sched_rel k user_sched" "pstate (cur k) = RUNNING"
    "timeCount (cur k) = 10" "sched_frame booted k"
    using schedule_ok [OF r(1) can_switch_running [OF r(2)]] unfolding r(2) s by blast
  have "user_kernel = k" by (simp add: user_kernel_def k(1))
  moreover have "current k = Pcb 1" using k(2) by (simp add: sched_rel_def user_sched_def)
  ultimately show ?thesis using k by (simp add: calling_def clock_ok_def)
qed

lemma user_kernel_fields: "p_num user_kernel = 2" "kaddr user_kernel = pcb_addr" "\<not> intr_nesting user_kernel"
  "fs user_kernel = zero_fs" "mem user_kernel = (\<lambda>i. 0)" "disk user_kernel = (\<lambda>i. 0)"
  "BUF user_kernel = replicate 1024 0" "buf_in user_kernel = 0" "buf_out user_kernel = 0"
  "sysFileTable user_kernel = replicate 512 \<lparr>inode_index = -1, link_num = 0, offset = 0\<rparr>"
  "pid (cur user_kernel) = 1" "filepointer (cur user_kernel) = replicate 8 (-1)"
  "scr user_kernel = zero_screen"
proof -
  have f: "sched_frame booted user_kernel" and c: "current user_kernel = Pcb 1"
    using user_kernel_ok by blast+
  show "p_num user_kernel = 2" "kaddr user_kernel = pcb_addr" "\<not> intr_nesting user_kernel"
    "fs user_kernel = zero_fs" "mem user_kernel = (\<lambda>i. 0)" "disk user_kernel = (\<lambda>i. 0)"
    "BUF user_kernel = replicate 1024 0" "buf_in user_kernel = 0" "buf_out user_kernel = 0"
    "sysFileTable user_kernel = replicate 512 \<lparr>inode_index = -1, link_num = 0, offset = 0\<rparr>"
    "scr user_kernel = zero_screen"
    using booted_ok by (simp_all add: sched_frame_fields [OF f])
  show "pid (cur user_kernel) = 1" "filepointer (cur user_kernel) = replicate 8 (-1)"
    using booted_ok by (simp_all add: sched_frame_pcb [OF f] c)
qed

lemma user_linked: "linked user_kernel"
  by (simp add: linked_def user_kernel_fields all_refs_def upt_rec)

text \<open>The kernel after the first process makes a semaphore at 0x250000.\<close>

definition sem_kernel :: "int \<Rightarrow> kernel" where
  "sem_kernel v = result (sem_init_aux 0x250000 v user_kernel)"

lemma sem_kernel_ok:
  assumes "0 \<le> v" and "v < 2147483648"
  shows "sem_init_aux 0x250000 v user_kernel = Inr (sem_kernel v) \<and> calling (sem_kernel v) user_sched
    \<and> sem_rel (sem_kernel v) user_sched 0x250000 \<and> sem_value (sem_kernel v) 0x250000 = v
    \<and> psem (cur (sem_kernel v)) = 0x250000 \<and> p_num (sem_kernel v) = 2 \<and> kaddr (sem_kernel v) = pcb_addr
    \<and> filepointer (cur (sem_kernel v)) = replicate 8 (-1) \<and> current (sem_kernel v) = Pcb 1
    \<and> sysFileTable (sem_kernel v) = sysFileTable user_kernel \<and> pid (cur (sem_kernel v)) = 1"
proof -
  have a: "user_sched\<lparr>waiters := []\<rparr> = user_sched" by (simp add: user_sched_def)
  have c: "calling user_kernel user_sched" using user_kernel_ok by simp
  have s: "sem_at 0x250000" by (simp add: sem_at_def user_area_def)
  have v: "-2147483648 \<le> v" "v < 2147483648" using assms by simp_all
  have e: "(0x250000 :: u32) = (if pid (cur user_kernel) = 2 then 0x250000 + 0x200000 else 0x250000)"
    by (simp add: user_kernel_fields)
  have u: "current user_kernel = Pcb 1" using user_kernel_ok by simp
  then have "pid (pcbs user_kernel (Pcb 1)) = 1" "filepointer (pcbs user_kernel (Pcb 1)) = replicate 8 (-1)"
    using user_kernel_fields(11,12) by simp_all
  with u sem_init_ok [OF c user_linked s v e] assms show ?thesis
    unfolding a sem_kernel_def by (auto simp: user_kernel_fields)
qed

end
