(* ===== verification/Scheduling.thy ===== *)
theory Scheduling
  imports Irqprops Startup
begin

text \<open>
  The properties of the kernel's processes: the invariant over all interrupts, the timer and
  the scheduler against the abstract scheduler, its fairness, semaphores, fork and exit.
  Each is applied to a kernel of Startup.
\<close>

lemma booted_reachable: "reachable booted"
proof -
  obtain k1 where k1: "initPcb bss = Inr k1" "clock_ok k1 boot_sched" "p_num k1 = 1" "buf_in k1 = 0" "buf_out k1 = 0"
    using initPcb_ok [of bss] by (auto simp: bss_def)
  obtain k2 where k2: "preparePCB 0x200000 k1 = Inr k2"
    using preparePCB_ok [OF k1(2,3)] by blast
  have "booted = k2" by (simp add: booted_def k1(1) k2)
  moreover have "k1\<lparr>fs := fs k1, mem := mem k1, scr := scr k1, serial := serial k1, buf_in := 0, buf_out := 0\<rparr> = k1"
    using k1(4,5) by (cases k1) simp
  ultimately show ?thesis
    using reachable.boot [OF _ k1(1), of "0x200000" "serial k1" "scr k1" "mem k1" "fs k1" k2] k2 by (simp add: bss_def)
qed

lemma user_inv: "kernel_inv user_kernel user_sched"
proof -
  have "esp_ok booted" using booted_ok by (simp add: clock_ok_def sched_rel_def loaded_sched_def esp_ok_def)
  moreover have r: "sched_rel booted loaded_sched" "pstate (cur booted) = RUNNING"
    using booted_ok by (simp_all add: clock_ok_def)
  ultimately have "esp_ok user_kernel"
    using schedule_ok [OF r(1) can_switch_running [OF r(2)]] user_kernel_ok
    by (auto simp: switch_keeps_def)
  moreover have "complete user_sched"
    by (auto simp: complete_def user_sched_def queued_def procs_def)
  ultimately show ?thesis using user_kernel_ok user_kernel_fields(3) by (simp add: kernel_inv_def)
qed


section \<open>All interrupts\<close>

text \<open>C1: From power on, over every sequence of interrupts and system calls of programs that use
  semaphores as \<open>sane_call\<close> says, the linked lists and process states represent an abstract
  scheduler in which each of the nine processes is in exactly one queue or runs, the running
  process has between 1 and 10 ticks left, and the stack pointer in the TSS fits it.\<close>

theorem kernel_invariant:
  assumes "reachable k"
  shows "\<exists>a. sched_rel k a \<and> complete a \<and> pstate (cur k) = RUNNING \<and> 1 \<le> timeCount (cur k)
    \<and> timeCount (cur k) \<le> 10 \<and> esp_ok k \<and> \<not> intr_nesting k"
  using reachable_inv [OF assms] by (auto simp: kernel_inv_def clock_ok_def)

theorem kernel_invariant_witness: "\<exists>a. sched_rel booted a \<and> complete a \<and> esp_ok booted"
  using kernel_invariant [OF booted_reachable] by blast

text \<open>C5: In every reachable kernel the frame of an interrupt lands in \<open>tf\<close> of the current process,
  so the assertion of \<open>timerHandle\<close> holds, and a timer interrupt returns: it neither stops the
  machine nor runs for ever.\<close>

theorem timer_never_stops:
  assumes "reachable k"
  shows "trap_addr k = tf_addr k (current k) \<and> (\<exists>k'. irqHandle (trap_addr k) 0x20 port es (trap f k) = Inr (k', es))"
proof -
  obtain a where a: "kernel_inv k a" using reachable_inv [OF assms] by blast
  have t: "trap_addr k = tf_addr k (current k)" using trap_addr_tf kernel_inv_parts(3) [OF a] .
  have "kernel_inv (trap f k) a" by (rule trap_inv [OF a])
  then have c: "clock_ok (trap f k) a" "\<not> intr_nesting (trap f k)" by (simp_all add: kernel_inv_def)
  have "trap_addr k = tf_addr (trap f k) (current (trap f k))" by (simp add: t trap_def tf_addr_def)
  with timer_step [OF c] t show ?thesis by (auto simp: irqHandle_def set_stacktop_eq)
qed

theorem timer_never_stops_witness:
  "trap_addr booted = tf_addr booted IdlePcb
    \<and> (\<exists>k'. irqHandle (trap_addr booted) 0x20 0 [] (trap zero_tf booted) = Inr (k', []))"
proof -
  have "current booted = IdlePcb" using booted_ok by (simp add: clock_ok_def sched_rel_def loaded_sched_def)
  with timer_never_stops [OF booted_reachable, of 0 "[]" zero_tf] show ?thesis by auto
qed


section \<open>The scheduler\<close>

text \<open>C6: \<open>schedule\<close> on the linked lists does what the abstract scheduler does: the current
  process goes to the end of the queue its state names, the first ready process runs, the idle process
  runs only if nobody is ready. The new process has 10 ticks, its PID is printed, and
  nothing but the scheduling fields changes.\<close>

theorem schedule_refines:
  assumes "sched_rel k a" and "can_switch k"
  shows "\<exists>k'. schedule k = Inr k' \<and> sched_rel k' (spec_schedule (pstate (cur k)) a)
    \<and> pstate (cur k') = RUNNING \<and> timeCount (cur k') = 10 \<and> sched_frame k k'
    \<and> serial k' = serial k @ dec_text (wrap32 (pid (cur k')))"
  using schedule_ok [OF assms] by blast

theorem schedule_refines_witness:
  "\<exists>k'. schedule booted = Inr k' \<and> sched_rel k' (spec_schedule RUNNING loaded_sched) \<and> current k' = Pcb 1"
proof -
  have r: "sched_rel booted loaded_sched" "pstate (cur booted) = RUNNING"
    using booted_ok by (simp_all add: clock_ok_def)
  from schedule_refines [OF r(1) can_switch_running [OF r(2)]] r(2) show ?thesis
    by (auto simp: sched_rel_def spec_schedule_def loaded_sched_def)
qed

text \<open>C7: A timer interrupt takes one tick from the current process, moves the sleepers whose time
  is over to the ready queue, and switches processes when the ticks are used up.\<close>

theorem timer_refines:
  assumes "clock_ok k a" and "\<not> intr_nesting k"
  shows "\<exists>k'. timerHandle (tf_addr k (current k)) k = Inr k' \<and> clock_ok k' (spec_tick k a) \<and> sched_frame k k'
    \<and> timeCount (cur k') = (if timeCount (cur k) = 1 then 10 else timeCount (cur k) - 1)
    \<and> (\<forall>q\<in>set (sleepers a). \<not> due k q \<longrightarrow> sleepTime (pcbs k' q) = wrap32 (sleepTime (pcbs k q) - 1))"
  using timer_step [OF assms] by blast

theorem timer_refines_witness:
  "\<exists>k'. timerHandle (tf_addr booted (current booted)) booted = Inr k' \<and> clock_ok k' (spec_tick booted loaded_sched)"
  using timer_refines [of booted loaded_sched] booted_ok by blast

text \<open>C8: Round robin: a process with \<open>n\<close> others before it in the ready queue runs after the ticks
  left to the current process and 10 for each of the \<open>n\<close>, exactly.\<close>

theorem round_robin:
  assumes "clock_ok k a" and "\<not> intr_nesting k" and "ready a = us @ p # vs" and "timeCount (cur k) = int t"
  shows "\<exists>k'. ticks (t + 10 * length us) k = Inr k' \<and> current k' = p"
  using turn_comes [OF assms] by blast

theorem round_robin_witness: "\<exists>k'. ticks (nat (timeCount (cur booted))) booted = Inr k' \<and> current k' = Pcb 1"
proof -
  have c: "clock_ok booted loaded_sched" "\<not> intr_nesting booted" using booted_ok by simp_all
  then have t: "timeCount (cur booted) = int (nat (timeCount (cur booted)))" by (simp add: clock_ok_def)
  have "ready loaded_sched = [] @ Pcb 1 # []" by (simp add: loaded_sched_def)
  from round_robin [OF c this t] show ?thesis by simp
qed

text \<open>C10: A sleeping process whose \<open>sleepTime\<close> is \<open>n > 0\<close> is awake after \<open>n\<close> timer interrupts: it is no longer
  among the sleepers, and is ready or runs.\<close>

theorem sleeper_wakes:
  assumes "clock_ok k a" and "\<not> intr_nesting k" and "p \<in> set (sleepers a)"
    and "sleepTime (pcbs k p) = int (Suc n)" and "Suc n < 2147483648"
  shows "\<exists>k' a'. ticks (Suc n) k = Inr k' \<and> sched_rel k' a' \<and> p \<notin> set (sleepers a')
    \<and> (p \<in> set (ready a') \<or> current k' = p)"
  using wakes_in_time [OF assms] by (auto simp: clock_ok_def)

text \<open>The first process sleeps for 3 ticks.\<close>

lemma asleep_kernel: "\<exists>k. sleep_aux 3 user_kernel = Inr k \<and> clock_ok k (spec_schedule BLOCKED user_sched)
    \<and> \<not> intr_nesting k \<and> sleepTime (pcbs k (Pcb 1)) = 3"
proof -
  let ?m = "upd_pcb (current user_kernel) (\<lambda>b. b\<lparr>pstate := BLOCKED, sleepTime := 3\<rparr>) user_kernel"
  have c: "current user_kernel = Pcb 1" "sched_rel user_kernel user_sched" "nxt user_kernel Dummy1 = None"
    using user_kernel_ok queues_nonempty [of "nxt user_kernel" user_sched]
    by (auto simp: calling_def sched_rel_def user_sched_def)
  obtain k where k: "sleep_aux 3 user_kernel = Inr k" "sched_rel k (spec_schedule BLOCKED user_sched)"
    "pstate (cur k) = RUNNING" "timeCount (cur k) = 10" "sched_frame ?m k"
    using sleep_aux_ok [of user_kernel user_sched 3] user_kernel_ok by blast
  have r: "sched_rel ?m user_sched" using c sched_rel_cur_upd by blast
  have "can_switch ?m" using c by (simp add: can_switch_def)
  then obtain n where n: "queue_current ?m = Inr ((parked ?m)\<lparr>nxt := n\<rparr>)"
    using queue_current_ok [OF r] by blast
  have "switch_process ?m = Inr (run_idle ((parked ?m)\<lparr>nxt := n\<rparr>))"
    using n c by (simp add: switch_process_def)
  then have "sleepTime (pcbs k (Pcb 1)) = 3"
    using k(1) c by (auto simp: sleep_aux_def schedule_def print_pid run_idle_def parked_pcbs)
  moreover have "\<not> intr_nesting k" using sched_frame_fields(11) [OF k(5)] user_kernel_fields(3) by simp
  ultimately show ?thesis using k by (simp add: clock_ok_def)
qed

theorem sleeper_wakes_witness: "\<exists>k k' a'. sleep_aux 3 user_kernel = Inr k \<and> ticks 3 k = Inr k'
    \<and> sched_rel k' a' \<and> (Pcb 1 \<in> set (ready a') \<or> current k' = Pcb 1)"
proof -
  obtain k where k: "sleep_aux 3 user_kernel = Inr k" "clock_ok k (spec_schedule BLOCKED user_sched)"
    "\<not> intr_nesting k" "sleepTime (pcbs k (Pcb 1)) = int (Suc 2)"
    using asleep_kernel by auto
  have "Pcb 1 \<in> set (sleepers (spec_schedule BLOCKED user_sched))"
    by (simp add: spec_schedule_def user_sched_def)
  from sleeper_wakes [OF k(2,3) this k(4)] k(1) show ?thesis by (auto simp: numeral_3_eq_3)
qed



section \<open>Semaphores\<close>

text \<open>C13: \<open>sem_wait\<close> on the semaphore at \<open>s\<close>, whose value counts the processes waiting when negative and is above C's least
  \<open>int\<close>: a positive value is decremented and the caller goes on; otherwise, if \<open>s\<close> is also the semaphore the caller initialised
  last (its \<open>psem\<close>, through which \<open>schedule\<close> queues it), the caller joins the end of the waiting queue and another process runs.
  Either way the count stays right. A caller that must wait but has no semaphore of its own, its \<open>psem\<close> being \<open>NULL\<close> or
  outside the memory of the programs, makes \<open>schedule\<close> follow that pointer, which is \<open>OutOfBounds\<close> in the model.\<close>

theorem sem_P_correct:
  assumes "calling k a" and "sem_rel k a s" and "-2147483648 < sem_value k s"
  shows "if 0 < sem_value k s \<or> psem (cur k) = s
    then \<exists>k'. sem_P s k = Inr k' \<and> sem_value k' s = sem_value k s - 1
      \<and> (let a' = if 0 < sem_value k s then a else spec_schedule SEM_BLOCKED a
         in sched_rel k' a' \<and> sem_rel k' a' s
           \<and> waiters a' = (if 0 < sem_value k s then waiters a else waiters a @ [current k]))
    else \<not> sem_at (psem (cur k)) \<longrightarrow> sem_P s k = Inl OutOfBounds"
proof (cases "0 < sem_value k s")
  case True
  then show ?thesis using sem_P_go [OF assms(1,2) True] sem_value_range [of k s]
    by (simp add: calling_def)
next
  case False
  then have v: "sem_value k s \<le> 0" by simp
  have "sem_at s" using assms(2) by (simp add: sem_rel_def)
  then show ?thesis using sem_P_wait [OF assms(1,2) v assms(3)] sem_P_stray [OF assms(1) _ v assms(3)] False assms(1)
    by (auto simp: spec_schedule_block calling_def sched_rel_def)
qed

theorem sem_P_correct_witness:
  "(\<exists>k'. sem_P 0x250000 (sem_kernel 0) = Inr k' \<and> sem_value k' 0x250000 = -1
    \<and> sched_rel k' (spec_schedule SEM_BLOCKED user_sched))
    \<and> sem_P 0x250000 (set_psem 0 (sem_kernel 0)) = Inl OutOfBounds"
proof
  show "\<exists>k'. sem_P 0x250000 (sem_kernel 0) = Inr k' \<and> sem_value k' 0x250000 = -1
      \<and> sched_rel k' (spec_schedule SEM_BLOCKED user_sched)"
    using sem_P_correct [of "sem_kernel 0" user_sched "0x250000"] sem_kernel_ok [of 0]
    by (auto simp: Let_def)
  let ?k = "set_psem 0 (sem_kernel 0)"
  have s0: "calling (sem_kernel 0) user_sched" using sem_kernel_ok [of 0] by simp
  have m: "mem ?k = mem (sem_kernel 0)" "kaddr ?k = kaddr (sem_kernel 0)" by (simp_all add: set_psem_def)
  have "sched_rel ?k user_sched"
    by (rule sched_rel_same [of "sem_kernel 0"]) (use s0 in \<open>simp_all add: calling_def set_psem_def\<close>)
  then have c: "calling ?k user_sched" using s0 by (simp add: calling_def set_psem_def)
  have "sem_rel ?k user_sched 0x250000" "sem_value ?k 0x250000 = 0"
    using sem_kernel_ok [of 0] sem_value_frame [OF m(1)] sem_list_frame [OF m] by (simp_all add: sem_rel_def)
  from sem_P_correct [OF c this(1)] this(2) show "sem_P 0x250000 ?k = Inl OutOfBounds"
    by (simp add: set_psem_def sem_at_def user_area_def)
qed

text \<open>C14: \<open>sem_post\<close>: if processes wait, the one that waited longest becomes ready; the value grows
  by one. The waiting queue never loses and never duplicates a process.\<close>

theorem sem_V_correct:
  assumes "sched_rel k a" and "sem_rel k a s" and "sem_value k s < 2147483647"
  shows "\<exists>k'. sem_V s k = Inr k' \<and> sem_value k' s = sem_value k s + 1
    \<and> sched_rel k' (spec_wake a) \<and> sem_rel k' (spec_wake a) s"
proof (cases "sem_value k s < 0")
  case True
  then show ?thesis using sem_V_wake [OF assms(1,2)] by blast
next
  case False
  then show ?thesis using sem_V_count [OF assms(1,2)] assms sem_value_range [of k s] by simp
qed

theorem sem_V_correct_witness:
  "\<exists>k'. sem_V 0x250000 (sem_kernel 1) = Inr k' \<and> sem_value k' 0x250000 = 2"
proof -
  have "sched_rel (sem_kernel 1) user_sched" "sem_rel (sem_kernel 1) user_sched 0x250000"
    "sem_value (sem_kernel 1) 0x250000 = 1"
    using sem_kernel_ok [of 1] by (simp_all add: calling_def)
  from sem_V_correct [OF this(1,2)] this(3) show ?thesis by auto
qed

text \<open>All semaphores share the one list head \<open>dummysem\<close>, and \<open>sem_init\<close> empties it: a process
  that waits when another semaphore is initialised is in no list any more, so it never runs
  again.\<close>

lemma sem_init_drops_waiters:
  assumes "calling k a" and "linked k" and "waiters a = w # ws"
    and "sem_at (if pid (cur k) = 2 then s + Child_Data_Offst else s)" and "0 \<le> v" and "v < 2147483648"
  shows "\<exists>k' a'. sem_init_aux s v k = Inr k' \<and> sched_rel k' a' \<and> \<not> complete a'
    \<and> (\<forall>h\<in>heads. w \<notin> set (queue_of a' h)) \<and> current k' \<noteq> w \<and> pstate (pcbs k' w) = SEM_BLOCKED"
proof -
  have v: "-2147483648 \<le> v" using assms(5) by simp
  let ?a = "a\<lparr>waiters := []\<rparr>"
  obtain k' where k': "sem_init_aux s v k = Inr k'" "calling k' ?a"
    using sem_init_ok [OF assms(1,2,4) v assms(6) refl] by blast
  have r: "sched_rel k a" "sched_rel k' ?a" using assms(1) k'(2) by (simp_all add: calling_def)
  have w: "w \<in> procs" "w \<notin> set (queued ?a)" "w \<noteq> current k" "pstate (pcbs k w) = SEM_BLOCKED"
    using r(1) assms(3) by (auto simp: sched_rel_def placed_def queued_def states_ok_def)
  have "pcbs k' w = pcbs k w \<and> current k' = current k"
    using k'(1) w(3) by (auto simp: sem_init_aux_def Let_def require_eq_Inr set_eax_def set_sem_list_def
        set_sem_value_def set_psem_def split: if_splits)
  moreover have "\<not> complete ?a" using w r(1) by (auto simp: complete_def sched_rel_def)
  moreover have "\<forall>h\<in>heads. w \<notin> set (queue_of ?a h)" using w(2) by (auto simp: heads_def queued_def)
  ultimately show ?thesis using k'(1) r(2) w by (intro exI [of _ k'] exI [of _ ?a]) auto
qed

text \<open>The first process makes a semaphore, forks and waits; the child has the processor.\<close>

lemma fork_sem_kernel: "\<exists>k. fork_aux (sem_kernel 0) = Inr k
    \<and> calling k (user_sched\<lparr>freed := map Pcb [3..<10], ready := [Pcb 2]\<rparr>) \<and> current k = Pcb 1
    \<and> sem_rel k (user_sched\<lparr>freed := map Pcb [3..<10], ready := [Pcb 2]\<rparr>) 0x250000 \<and> sem_value k 0x250000 = 0
    \<and> psem (cur k) = 0x250000 \<and> kaddr k = pcb_addr \<and> pid (pcbs k (Pcb 2)) = 2 \<and> p_num k = 3"
proof -
  have z: "(0::int) \<le> 0" "(0::int) < 2147483648" by simp_all
  note s = sem_kernel_ok [OF z]
  let ?k = "sem_kernel 0"
  let ?a = "user_sched\<lparr>freed := map Pcb [3..<10], ready := [Pcb 2]\<rparr>"
  have a: "user_sched\<lparr>freed := remove1 (Pcb 2) (freed user_sched), ready := ready user_sched @ [Pcb 2]\<rparr> = ?a"
    by (simp add: user_sched_def upt_rec)
  have pre: "calling ?k user_sched" "0 \<le> p_num ?k" "p_num ?k < 10" "Pcb (nat (p_num ?k)) \<in> set (freed user_sched)"
    using s by (simp_all add: user_sched_def)
  have fp: "filepointer (cur ?k) = replicate 8 (-1)" using s by blast
  have o: "open_files_ok (cur ?k) (sysFileTable ?k)" unfolding open_files_ok_def fp by simp
  have n2: "Pcb (nat (p_num ?k)) = Pcb 2" using s by simp
  from fork_aux_ok [OF pre o] obtain k where k: "fork_aux ?k = Inr k" "calling k ?a" "current k = current ?k"
    "mem k = copy_image 0x200000 (mem ?k)" "kaddr k = kaddr ?k" "p_num k = p_num ?k + 1"
    "cur k = (cur ?k)\<lparr>tf := (tf (cur ?k))\<lparr>tf_eax := word_of_int (p_num ?k)\<rparr>\<rparr>"
    "pcbs k (Pcb 2) = child_pcb (p_num ?k) (cur ?k) (pcbs ?k (Pcb 2))"
    unfolding n2 a by blast
  have g: "get32 (mem k) 0x250000 = get32 (mem ?k) 0x250000" "get32 (mem k) 0x250004 = get32 (mem ?k) 0x250004"
    unfolding k(4) by (rule get32_cong, simp add: copy_image_eq)+
  have "sem_value k 0x250000 = 0" using g s by (simp add: sem_value_def)
  moreover have "sem_list k 0x250000 = sem_list ?k 0x250000"
    using g by (simp add: sem_list_def ref_at_def k(5))
  ultimately have "sem_rel k ?a 0x250000"
    using s by (simp add: sem_rel_def user_sched_def)
  moreover have "psem (cur ?k) = 0x250000" using s by blast
  then have "psem (cur k) = 0x250000" unfolding k(7) by simp
  ultimately show ?thesis using k s \<open>sem_value k 0x250000 = 0\<close>
    by (intro exI [of _ k]) (simp add: child_pcb_def)
qed

lemma sem_init_drops_waiters_witness:
  "\<exists>k k' a'. sem_init_aux 0x260000 1 k = Inr k' \<and> sched_rel k' a' \<and> \<not> complete a' \<and> current k' \<noteq> Pcb 1
    \<and> pstate (pcbs k' (Pcb 1)) = SEM_BLOCKED"
proof -
  let ?a = "user_sched\<lparr>freed := map Pcb [3..<10], ready := [Pcb 2]\<rparr>"
  obtain k where k: "calling k ?a" "sem_rel k ?a 0x250000" "sem_value k 0x250000 = 0" "psem (cur k) = 0x250000"
    "kaddr k = pcb_addr" "current k = Pcb 1"
    using fork_sem_kernel by blast
  obtain k1 where k1: "sched_rel k1 (spec_schedule SEM_BLOCKED ?a)" "pstate (cur k1) = RUNNING" "kaddr k1 = pcb_addr"
    using sem_P_wait [OF k(1,2) _ _ k(4)] k(3,5) by auto
  have s: "spec_schedule SEM_BLOCKED ?a = user_sched\<lparr>freed := map Pcb [3..<10], waiters := [Pcb 1], running := Pcb 2\<rparr>"
    by (simp add: spec_schedule_def user_sched_def)
  have c: "calling k1 (spec_schedule SEM_BLOCKED ?a)"
    using k1(1,2) unfolding calling_def s by (auto simp: sched_rel_def)
  have l: "linked k1" by (simp add: linked_def k1(3) all_refs_def upt_rec)
  have "sem_at (if pid (cur k1) = 2 then 0x260000 + 0x200000 else 0x260000)"
    by (simp add: sem_at_def user_area_def)
  moreover have "waiters (spec_schedule SEM_BLOCKED ?a) = Pcb 1 # []"
    unfolding s by (simp add: user_sched_def)
  ultimately show ?thesis
    using sem_init_drops_waiters [OF c l, of "Pcb 1" "[]" "0x260000" 1] by auto
qed



section \<open>Processes\<close>

text \<open>\<open>initPcb\<close> and \<open>preparePCB\<close> give a consistent table: the idle process runs, process 1 is ready at
  its entry point with the user segments, the eight others are free, nobody is lost.\<close>

lemma boot_correct:
  assumes "nxt k DummySem = None"
  shows "\<exists>k1 k2. initPcb k = Inr k1 \<and> preparePCB entry k1 = Inr k2 \<and> sched_rel k2 loaded_sched
    \<and> complete loaded_sched \<and> p_num k2 = 2 \<and> pid (pcbs k2 (Pcb 1)) = 1
    \<and> tf_eip (tf (pcbs k2 (Pcb 1))) = entry \<and> tf_cs (tf (pcbs k2 (Pcb 1))) = USEL 3
    \<and> filepointer (pcbs k2 (Pcb 1)) = replicate 8 (-1)
    \<and> (\<forall>e\<in>set (sysFileTable k2). inode_index e = -1)"
proof -
  obtain k1 where k1: "initPcb k = Inr k1" "clock_ok k1 boot_sched" "p_num k1 = 1"
    "sysFileTable k1 = map (\<lambda>e. e\<lparr>inode_index := -1\<rparr>) (sysFileTable k)"
    "\<forall>i. 1 \<le> i \<and> i < 10 \<longrightarrow> pcbs k1 (Pcb i) = free_pcb (pcbs k (Pcb i))"
    using initPcb_ok [OF assms] by blast
  obtain k2 where k2: "preparePCB entry k1 = Inr k2" "clock_ok k2 loaded_sched" "p_num k2 = 2"
    "pcbs k2 (Pcb 1) = first_pcb 1 entry (pcbs k1 (Pcb 1))" "sysFileTable k2 = sysFileTable k1"
    using preparePCB_ok [OF k1(2,3)] by blast
  have "pcbs k1 (Pcb 1) = free_pcb (pcbs k (Pcb 1))" using k1(5) by simp
  then show ?thesis using k1 k2 boot_complete(2)
    by (intro exI [of _ k1] exI [of _ k2]) (auto simp: clock_ok_def first_pcb_def free_pcb_def)
qed

lemma boot_correct_witness: "\<exists>k1 k2. initPcb bss = Inr k1 \<and> preparePCB 0x200000 k1 = Inr k2
    \<and> tf_eip (tf (pcbs k2 (Pcb 1))) = 0x200000"
  using boot_correct [of bss "0x200000"] by (auto simp: bss_def)

text \<open>C15: a running process whose open files are entries of the table forks while \<open>pcb[p_num]\<close> is a free entry: the entry becomes
  ready. The child has the parent's registers but 0 in \<open>eax\<close> and the second user segments, and the parent's open files with one
  more link each; the parent gets the child's number, and no other process changes. Whoever forks, the 2 MB from 0x200000 on, the
  memory of the first process, are copied to those from 0x400000 on, and no other memory changes; so a child that forks has its
  own memory overwritten with the first process's.\<close>

theorem fork_correct:
  assumes "calling k a" and "0 \<le> p_num k" "p_num k < 10" and "Pcb (nat (p_num k)) \<in> set (freed a)"
    and "open_files_ok (cur k) (sysFileTable k)"
  defines "c \<equiv> Pcb (nat (p_num k))"
  shows "\<exists>k'. fork_aux k = Inr k' \<and> sched_rel k' (a\<lparr>freed := remove1 c (freed a), ready := ready a @ [c]\<rparr>)
    \<and> p_num k' = p_num k + 1 \<and> pid (pcbs k' c) = p_num k
    \<and> tf (pcbs k' c) = (tf (cur k))\<lparr>tf_eax := 0, tf_cs := USEL 5, tf_ds := USEL 6, tf_es := USEL 6, tf_fs := USEL 6,
        tf_ss := USEL 6, tf_gs := KSEL 8\<rparr>
    \<and> ppid (pcbs k' c) = pid (cur k) \<and> filepointer (pcbs k' c) = filepointer (cur k)
    \<and> sysFileTable k' = more_links (filepointer (cur k)) (sysFileTable k)
    \<and> tf_eax (tf (cur k')) = word_of_int (p_num k) \<and> current k' = current k
    \<and> (\<forall>p. p \<noteq> c \<and> p \<noteq> current k \<longrightarrow> pcbs k' p = pcbs k p)
    \<and> (\<forall>x. mem k' x = (if 0x400000 \<le> x \<and> x < 0x600000 then mem k (x - 0x200000) else mem k x))"
proof -
  obtain k' where k': "fork_aux k = Inr k'"
    "calling k' (a\<lparr>freed := remove1 c (freed a), ready := ready a @ [c]\<rparr>)" "current k' = current k"
    "p_num k' = p_num k + 1" "sysFileTable k' = more_links (filepointer (cur k)) (sysFileTable k)"
    "mem k' = copy_image 0x200000 (mem k)" "pcbs k' c = child_pcb (p_num k) (cur k) (pcbs k c)"
    "cur k' = (cur k)\<lparr>tf := (tf (cur k))\<lparr>tf_eax := word_of_int (p_num k)\<rparr>\<rparr>"
    "\<forall>p. p \<noteq> c \<and> p \<noteq> current k \<longrightarrow> pcbs k' p = pcbs k p"
    using fork_aux_ok [OF assms(1-5)] unfolding c_def by blast
  have "mem k' x = (if 0x400000 \<le> x \<and> x < 0x600000 then mem k (x - 0x200000) else mem k x)" for x
    by (simp add: k'(6) copy_image_eq)
  moreover have "tf_eax (tf (cur k')) = word_of_int (p_num k)" unfolding k'(8) by simp
  moreover have "child_tf t = t\<lparr>tf_eax := 0, tf_cs := USEL 5, tf_ds := USEL 6, tf_es := USEL 6, tf_fs := USEL 6,
      tf_ss := USEL 6, tf_gs := KSEL 8\<rparr>" for t by (cases t) (simp add: child_tf_def)
  ultimately show ?thesis using k'(1-5,7,9) by (intro exI [of _ k']) (simp add: calling_def child_pcb_def)
qed

theorem fork_correct_witness: "\<exists>k'. fork_aux user_kernel = Inr k' \<and> p_num k' = 3 \<and> pid (pcbs k' (Pcb 2)) = 2
    \<and> ppid (pcbs k' (Pcb 2)) = 1 \<and> tf_eax (tf (pcbs k' (Pcb 2))) = 0"
proof -
  have fp: "filepointer (cur user_kernel) = replicate 8 (-1)" by (rule user_kernel_fields)
  have o: "open_files_ok (cur user_kernel) (sysFileTable user_kernel)" unfolding open_files_ok_def fp by simp
  have c: "calling user_kernel user_sched" using user_kernel_ok by simp
  have n: "0 \<le> p_num user_kernel" "p_num user_kernel < 10" "Pcb (nat (p_num user_kernel)) \<in> set (freed user_sched)"
    by (simp_all add: user_kernel_fields user_sched_def)
  from fork_correct [OF c n o] show ?thesis
    using user_kernel_fields(1,11) by (simp only:) auto
qed

text \<open>C25: \<open>p_num\<close> is the number of processes and also the index of the next free entry. When a process
  exits before one with a higher number, the two disagree, and the next fork stops the machine.\<close>

theorem exit_then_fork_aborts:
  assumes "calling k a" and "1 < p_num k" "p_num k \<le> 10" and "Pcb (nat (p_num k - 1)) \<notin> set (freed a)"
    and "current k \<noteq> Pcb (nat (p_num k - 1))"
  shows "\<exists>k'. exit_aux k = Inr k' \<and> fork_aux k' = Inl (AssertFail ''list.c'' 19)"
proof -
  obtain k' where k': "exit_aux k = Inr k'" "sched_rel k' (spec_schedule DEAD a)" "p_num k' = wrap32 (p_num k - 1)"
    using exit_aux_ok [OF assms(1)] by blast
  have n: "p_num k' = p_num k - 1" using k'(3) assms(2,3) by simp
  have "freed (spec_schedule DEAD a) = freed a @ [running a]"
    by (auto simp: spec_schedule_def split: list.splits)
  moreover have "running a = current k" using assms(1) by (simp add: calling_def sched_rel_def)
  ultimately have "Pcb (nat (p_num k')) \<notin> set (freed (spec_schedule DEAD a))" using assms(4,5) n by auto
  from fork_aux_busy [OF k'(2) _ _ this] n assms(2,3) k'(1) show ?thesis by auto
qed

theorem exit_then_fork_aborts_witness:
  "\<exists>k k'. fork_aux (sem_kernel 0) = Inr k \<and> exit_aux k = Inr k' \<and> fork_aux k' = Inl (AssertFail ''list.c'' 19)"
proof -
  let ?a = "user_sched\<lparr>freed := map Pcb [3..<10], ready := [Pcb 2]\<rparr>"
  obtain k where k: "fork_aux (sem_kernel 0) = Inr k" "calling k ?a" "current k = Pcb 1" "p_num k = 3"
    using fork_sem_kernel by blast
  have n: "1 < p_num k" "p_num k \<le> 10" "Pcb (nat (p_num k - 1)) \<notin> set (freed ?a)" "current k \<noteq> Pcb (nat (p_num k - 1))"
    using k(3,4) by simp_all
  from exit_then_fork_aborts [OF k(2) n] k(1) show ?thesis by blast
qed

end
