(* ===== verification/Filing.thy ===== *)
theory Filing
  imports Rootfs Fsimage Startup
begin

text \<open>
  The properties of the file system: path lookup against component-by-component resolution,
  creation, removal, reading and writing, and the image on the disk. They are applied to the
  empty file system of Rootfs.
\<close>

section \<open>Paths\<close>

text \<open>C16: \<open>findCurrentFLPos\<close> walks a path as its components say: it stops the machine if a directory on
  the way is missing, returns -1 if the last directory has no such file, and otherwise the
  inode number of the file; only the globals of the walk change.\<close>

theorem path_lookup_correct:
  assumes "fs_ok f" and "\<forall>d\<in>set ds. component d" and "last_name n"
  shows "case resolve f 0 ds of
      None \<Rightarrow> findCurrentFLPos f (render ds n r) = Inl (AssertFail ''fs.c'' 195)
    | Some j \<Rightarrow> \<exists>f'. same_files f f' \<and>
        findCurrentFLPos f (render ds n r) = Inr (index_of (dir_lookup f j n FL), f')"
  using findCurrentFLPos_spec [OF fs_ok_dirs [OF assms(1)] assms(2,3)] .

theorem path_lookup_correct_witness: "\<exists>f'. findCurrentFLPos root_fs (slash # 97 # [0]) = Inr (-1, f')"
proof -
  have "\<forall>d\<in>set []. component d" "last_name [97]" by (simp_all add: last_name_def)
  from path_lookup_correct [OF root_fs_ok(2) this, of "[]"] show ?thesis
    by (auto simp: render_def root_fs_ok(5))
qed


section \<open>Creating and removing files\<close>

text \<open>C17: \<open>makeFL\<close> in an existing directory, with a free inode and a free entry, keeps the file system in
  good order; the new path then leads to the new inode, and every other lookup gives what it gave
  before.\<close>

theorem create_then_find:
  assumes "fs_ok f" and "\<forall>d\<in>set ds. component d" and "file_name n" and "resolve f 0 ds = Some p"
    and "dir_lookup f p n FL = None" and "free_inode f = Some k" and "free_dent (inodes f p) = Some i"
  shows "\<exists>f' f''. makeFL f (render ds n r) None = Inr f' \<and> fs_ok f'
    \<and> findCurrentFLPos f' (render ds n r) = Inr (int k, f'')
    \<and> (\<forall>es. resolve f' 0 es = resolve f 0 es)
    \<and> (\<forall>j m t. j < 32 \<longrightarrow> itype (inodes f j) = DIR \<longrightarrow> (j, m, t) \<noteq> (p, n, FL) \<longrightarrow>
          dir_lookup f' j m t = dir_lookup f j m t)"
proof -
  have c: "can_add f p i k" by (rule can_addI [OF assms(1,4,6,7)])
  have n: "n \<noteq> []" "last_name n" using assms(3) file_name_last by (auto simp: file_name_def)
  obtain f' where m: "makeFL f (render ds n r) None = Inr f'" and a: "file_added f f' p i k n"
    using makeFL_spec [OF assms(1-4,6,7)] by blast
  have ok: "fs_ok f'" by (rule file_added_fs_ok [OF a c n(1)])
  have d0: "(0::nat) < 32" "itype (inodes f 0) = DIR"
    using fs_ok_dirs [OF assms(1)] by (simp_all add: dirs_ok_def)
  have rs: "resolve f' 0 es = resolve f 0 es" for es
    by (rule file_added_resolve [OF a c n(1) assms(5) d0])
  have p: "p < 32" "itype (inodes f p) = DIR" using c by (simp_all add: can_add_def)
  note lk = file_added_lookup [OF a c n(1) assms(5)]
  obtain f'' where "findCurrentFLPos f' (render ds n r) = Inr (int k, f'')"
    using findCurrentFLPos_spec [OF fs_ok_dirs [OF ok] assms(2) n(2), of r] lk [OF p, of n FL]
    by (auto simp: rs assms(4))
  then show ?thesis using m ok rs lk by auto
qed

text \<open>The empty file system with the file \<open>/a\<close>.\<close>

lemma name_a: "file_name [97]" "render [] [97] [] = [slash, 97, 0]" "last_name [97]"
  by (simp_all add: file_name_def render_def last_name_def)

lemma root_a_free: "\<forall>d\<in>set []. component d" "resolve root_fs 0 [] = Some 0"
  "dir_lookup root_fs 0 [97] FL = None" "free_inode root_fs = Some 1" "free_dent (inodes root_fs 0) = Some 2"
  by (simp_all add: root_fs_ok)

theorem create_then_find_witness:
  "\<exists>f' f''. makeFL root_fs [slash, 97, 0] None = Inr f' \<and> findCurrentFLPos f' [slash, 97, 0] = Inr (1, f'')"
  using create_then_find [OF root_fs_ok(2) root_a_free(1) name_a(1) root_a_free(2-5), of "[]"]
  by (auto simp: name_a)

text \<open>C27: \<open>makeFL\<close> without data does not touch the inode's size and contents: a file created in an inode that
  a removed file used reads as the removed file.\<close>

theorem new_file_shows_old_data:
  assumes "fs_ok f" and "\<forall>d\<in>set ds. component d" and "file_name n" and "resolve f 0 ds = Some p"
    and "free_inode f = Some k" and "free_dent (inodes f p) = Some i"
    and "unat (isz (inodes f k)) \<le> 32768"
  shows "\<exists>f'. makeFL f (render ds n r) None = Inr f'
    \<and> readF f' (int k) (int (unat (isz (inodes f k)))) 0 =
        Inr (int (unat (isz (inodes f k))), get_bytes (idata (inodes f k)) 0 (unat (isz (inodes f k))))"
proof -
  obtain f' where m: "makeFL f (render ds n r) None = Inr f'" and a: "file_added f f' p i k n"
    using makeFL_spec [OF assms(1-4,5,6)] by blast
  have k: "k < 32" using free_inode_Some [OF assms(5)] by simp
  have "isz (inodes f' k) = isz (inodes f k)" "idata (inodes f' k) = idata (inodes f k)"
    using a by (auto simp: file_added_def entry_added_def)
  then show ?thesis using m readF_eq [OF k, of f' 0 "unat (isz (inodes f k))"] assms(7)
    by (simp add: read_count_def)
qed

text \<open>An unused inode with five bytes of a removed file.\<close>

definition stale_fs :: filesys where
  "stale_fs = put_inode root_fs 1 (zero_inode\<lparr>isz := 5, idata := (\<lambda>i. 120)\<rparr>)"

lemma stale_fs_ok: "fs_ok stale_fs" "resolve stale_fs 0 [] = Some 0" "free_inode stale_fs = Some 1"
  "free_dent (inodes stale_fs 0) = Some 2" "isz (inodes stale_fs 1) = 5" "idata (inodes stale_fs 1) = (\<lambda>i. 120)"
proof -
  have z: "inodes root_fs (Suc 0) = zero_inode" using root_fs_ok(6) by simp
  have t: "itype zero_inode \<noteq> DIR" "length (iname zero_inode) = 28" by (simp_all add: zero_inode_def)
  show "fs_ok stale_fs"
    using root_fs_ok(2) z t unfolding fs_ok_def dirs_ok_def
    by (auto simp: stale_fs_def put_inode_def)
  show "free_inode stale_fs = Some 1" "free_dent (inodes stale_fs 0) = Some 2"
    using root_fs_ok(3,4) by (simp_all add: stale_fs_def free_inode_def)
qed (simp_all add: stale_fs_def)

theorem new_file_shows_old_data_witness:
  "\<exists>f'. makeFL stale_fs [slash, 97, 0] None = Inr f' \<and> readF f' 1 5 0 = Inr (5, [120, 120, 120, 120, 120])"
proof -
  have "unat (isz (inodes stale_fs 1)) = 5" unfolding stale_fs_ok(5) by simp
  moreover have "get_bytes (\<lambda>i. 120) 0 5 = [120, 120, 120, 120, 120]" by (simp add: get_bytes_def upt_rec)
  ultimately show ?thesis
    using new_file_shows_old_data [OF stale_fs_ok(1) root_a_free(1) name_a(1) stale_fs_ok(2,3,4), of "[]"]
    unfolding name_a stale_fs_ok(6) by simp
qed

text \<open>C26: \<open>rmFL\<close> empties the entry and frees the inode but leaves \<open>filenum\<close>: the directory then counts one
  entry too many, and looking for a name it does not hold runs past its 1024 entries.\<close>

theorem remove_breaks_lookup:
  assumes "fs_ok f" and "\<forall>d\<in>set ds. component d" and "file_name n" and "resolve f 0 ds = Some p"
    and "dir_lookup f p n FL = Some k" and "terminated (iname (inodes f k))" "cstr (iname (inodes f k)) = n"
    and "find (named (inodes f p) n) [0..<1024] = Some a"
  shows "\<exists>f'. rmFL f (render ds n r) = Inr f'
    \<and> unat (isz (inodes f' p)) = Suc (used_count (inodes f' p) 1024)
    \<and> (\<forall>nm t. terminated nm \<longrightarrow> cstr nm \<noteq> [] \<longrightarrow> dir_lookup f' p (cstr nm) t = None \<longrightarrow>
          scan_at f' (int p) nm t = Inl OutOfBounds)"
proof -
  have ok: "dirs_ok f" by (rule fs_ok_dirs [OF assms(1)])
  obtain f' where m: "rmFL f (render ds n r) = Inr f'" and x: "file_removed f f' p a k"
    using rmFL_spec [OF ok assms(2-8)] by blast
  have p: "p < 32" "itype (inodes f p) = DIR" using resolve_dir [OF ok _ _ assms(4)] ok by (auto simp: dirs_ok_def)
  have d: "dir_ok (inodes f p)" by (rule dirs_okD [OF ok p])
  have a: "a < 1024" "used (inodes f p) a" using assms(8) by (auto simp: find_Some_iff named_def)
  have "scan_at f' (int p) nm t = Inl OutOfBounds"
    if "terminated nm" "cstr nm \<noteq> []" "dir_lookup f' p (cstr nm) t = None" for nm t
    using file_removed_scan [OF x d a that] p(1) by (simp add: scan_at_def)
  then show ?thesis using m file_removed_count(2) [OF x d a] by blast
qed

text \<open>The empty file system with the file \<open>/a\<close> in inode 1.\<close>

definition one_fs :: filesys where
  "one_fs = (case makeFL root_fs [slash, 97, 0] None of Inl e \<Rightarrow> root_fs | Inr f \<Rightarrow> f)"

lemma one_fs_ok: "makeFL root_fs [slash, 97, 0] None = Inr one_fs" "fs_ok one_fs" "resolve one_fs 0 [] = Some 0"
  "dir_lookup one_fs 0 [97] FL = Some 1" "terminated (iname (inodes one_fs 1))" "cstr (iname (inodes one_fs 1)) = [97]"
  "find (named (inodes one_fs 0) [97]) [0..<1024] = Some 2" "isz (inodes one_fs 1) = 0"
  "idata (inodes one_fs 1) = (\<lambda>i. 0)"
proof -
  have c: "can_add root_fs 0 2 1" by (rule can_addI [OF root_fs_ok(2) root_a_free(2,4,5)])
  obtain f where m: "makeFL root_fs [slash, 97, 0] None = Inr f" and a: "file_added root_fs f 0 2 1 [97]"
    using makeFL_spec [OF root_fs_ok(2) root_a_free(1) name_a(1) root_a_free(2,4,5), of "[]"]
    unfolding name_a by blast
  have e: "one_fs = f" by (simp add: one_fs_def m)
  show "makeFL root_fs [slash, 97, 0] None = Inr one_fs" by (simp add: m e)
  show "fs_ok one_fs" using file_added_fs_ok [OF a c] by (simp add: e)
  show "resolve one_fs 0 [] = Some 0" by simp
  have r: "itype (inodes root_fs 0) = DIR" using c by (simp add: can_add_def)
  show "dir_lookup one_fs 0 [97] FL = Some 1"
    using file_added_lookup [OF a c _ root_a_free(3) _ r] by (simp add: e)
  have z: "inodes root_fs (Suc 0) = zero_inode" using root_fs_ok(6) by simp
  show "terminated (iname (inodes one_fs 1))" "cstr (iname (inodes one_fs 1)) = [97]"
    "isz (inodes one_fs 1) = 0" "idata (inodes one_fs 1) = (\<lambda>i. 0)"
    using a by (auto simp: e file_added_def entry_added_def z zero_inode_def)
  have "\<not> matches root_fs 0 [97] FL i" if "i < 1024" for i
    using root_a_free(3) that by (simp add: dir_lookup_def find_None_iff)
  obtain bs where i: "inodes f 0 = new_dent (inodes root_fs 0) 2 1 bs" and bs: "length bs = 28" "cstr bs = [97]"
    using a by (auto simp: file_added_def entry_added_def)
  obtain tl where t: "[0..<1024::nat] = [0, 1, 2] @ tl" using slots_split by blast
  obtain g ino where g: "makeRootDir zero_fs = Inr g" "inodes g = (inodes zero_fs)(0 := ino)"
    "root_inode (inodes zero_fs 0) ino" using makeRootDir_spec [OF zero_blank] by blast
  have "g = root_fs" using g(1) root_fs_ok(1) by simp
  then have n: "cstr (dent_name (inodes root_fs 0) 0) = dot" "cstr (dent_name (inodes root_fs 0) (Suc 0)) = dotdot"
    using g(2,3) by (auto simp: dir_inode_def)
  show "find (named (inodes one_fs 0) [97]) [0..<1024] = Some 2"
    unfolding t using bs n by (simp add: e i named_def used_def) (simp add: dot_def dotdot_def)
qed

theorem remove_breaks_lookup_witness:
  "\<exists>f'. rmFL one_fs [slash, 97, 0] = Inr f' \<and> unat (isz (inodes f' 0)) = Suc (used_count (inodes f' 0) 1024)"
  using remove_breaks_lookup [OF one_fs_ok(2) root_a_free(1) name_a(1) one_fs_ok(3-7), of "[]"]
  unfolding name_a by blast

lemma index_of_find: "index_of (find P [0..<n]) = -1 \<longleftrightarrow> (\<forall>i<n. \<not> P i)"
  "index_of (find P [0..<n]) = int i \<longleftrightarrow> i < n \<and> P i \<and> (\<forall>j<i. \<not> P j)"
proof -
  have n: "find P [0..<n] = None \<longleftrightarrow> (\<forall>i<n. \<not> P i)"
    by (auto simp: find_None_iff)
  have s: "find P [0..<n] = Some i \<longleftrightarrow> i < n \<and> P i \<and> (\<forall>j<i. \<not> P j)" for i
    by (auto simp: find_Some_iff)
  show "index_of (find P [0..<n]) = -1 \<longleftrightarrow> (\<forall>i<n. \<not> P i)"
    unfolding n [symmetric] by (cases "find P [0..<n]") auto
  show "index_of (find P [0..<n]) = int i \<longleftrightarrow> i < n \<and> P i \<and> (\<forall>j<i. \<not> P j)"
    unfolding s [symmetric] by (cases "find P [0..<n]") auto
qed

text \<open>\<open>getAvlInode\<close> and \<open>getAvlDirdata\<close> give the first inode marked available and the first empty entry
  of a directory, and -1 exactly when all 32 inodes or all 1024 entries are taken.\<close>

lemma allocation_correct:
  assumes "p < 32" and "dents_ok (inodes f p)"
  shows "(getAvlInode f = -1 \<longleftrightarrow> (\<forall>k<32. inode_map (superb f) k \<noteq> available))
    \<and> (\<forall>k. getAvlInode f = int k \<longleftrightarrow> k < 32 \<and> inode_map (superb f) k = available
          \<and> (\<forall>j<k. inode_map (superb f) j \<noteq> available))
    \<and> (getAvlDirdata f (int p) = Inr (-1) \<longleftrightarrow> (\<forall>i<1024. used (inodes f p) i))
    \<and> (\<forall>i. getAvlDirdata f (int p) = Inr (int i) \<longleftrightarrow> i < 1024 \<and> \<not> used (inodes f p) i
          \<and> (\<forall>j<i. used (inodes f p) j))"
  using getAvlDirdata_eq [OF assms]
  by (simp add: getAvlInode_eq free_inode_def free_dent_def index_of_find find_None_iff)

lemma allocation_correct_example: "getAvlInode root_fs = 1 \<and> getAvlDirdata root_fs 0 = Inr 2"
proof -
  have d: "dents_ok (inodes root_fs 0)"
    using dirs_okD [OF fs_ok_dirs [OF root_fs_ok(2)], of 0] fs_ok_dirs [OF root_fs_ok(2)]
    by (simp add: dirs_ok_def dir_ok_def)
  have "index_of (free_dent (inodes root_fs 0)) = int 2" "index_of (free_inode root_fs) = int 1"
    by (simp_all add: root_fs_ok(3,4))
  note f = this [unfolded free_dent_def free_inode_def index_of_find]
  have "(0::nat) < 32" by simp
  note a = allocation_correct [OF this d]
  have "getAvlInode root_fs = int 1" using a f(2) by blast
  moreover have "getAvlDirdata root_fs (int 0) = Inr (int 2)" using a f(1) by blast
  ultimately show ?thesis by simp
qed

end
