(* ===== verification/Storing.thy ===== *)
theory Storing
  imports Filing
begin

text \<open>
  The properties of reading and writing: files against byte sequences, the guards of
  \<open>writeF\<close>, sector transfers, and the file system on the disk across a restart.
\<close>

section \<open>Files as bytes\<close>

text \<open>C19: after \<open>writeF\<close> of \<open>len\<close> bytes at \<open>off\<close>, within the size of a file, \<open>readF\<close> of \<open>m\<close> bytes at \<open>o1\<close> gives
  the bytes written where the ranges meet and the old bytes elsewhere, up to the new end of the file; the size is
  the larger of the old one and the end of the write; no other inode and nothing of the superblock changes.\<close>

theorem write_then_read:
  assumes "k < 32" and "off + len < 32768" and "unat (isz (inodes f k)) \<le> 32768"
  shows "\<exists>f'. writeF f (int k) buf (int len) (int off) = Inr (int len, f')
    \<and> unat (isz (inodes f' k)) = max (unat (isz (inodes f k))) (off + len)
    \<and> (\<forall>o1 m. o1 < 2147483648 \<longrightarrow>
        (let n = min m (max (unat (isz (inodes f k))) (off + len) - o1)
         in readF f' (int k) (int m) (int o1) = Inr (int n,
              map (\<lambda>i. if off \<le> i \<and> i < off + len then buf (i - off) else idata (inodes f k) i) [o1..<o1 + n])))
    \<and> superb f' = superb f \<and> (\<forall>j. j \<noteq> k \<longrightarrow> inodes f' j = inodes f j)"
proof (intro exI conjI allI impI)
  let ?f = "put_inode f k (written (inodes f k) off buf len)"
  show "writeF f (int k) buf (int len) (int off) = Inr (int len, ?f)" by (rule writeF_eq [OF assms(1,2)])
  have sz: "unat (isz (inodes ?f k)) = max (unat (isz (inodes f k))) (off + len)"
    using unat_grown [OF assms(3), of "off + len"] assms(2) by (simp add: written_def)
  then show "unat (isz (inodes ?f k)) = max (unat (isz (inodes f k))) (off + len)" .
  fix o1 m :: nat
  assume o1: "o1 < 2147483648"
  let ?n = "min m (max (unat (isz (inodes f k))) (off + len) - o1)"
  have "unat (isz (inodes ?f k)) \<le> 32768" using sz assms(2,3) by simp
  from readF_eq [OF assms(1) this o1, of m] sz
  have "readF ?f (int k) (int m) (int o1) = Inr (int ?n, get_bytes (idata (inodes ?f k)) o1 ?n)"
    by (simp add: read_count_def)
  moreover have "get_bytes (idata (inodes ?f k)) o1 ?n =
      map (\<lambda>i. if off \<le> i \<and> i < off + len then buf (i - off) else idata (inodes f k) i) [o1..<o1 + ?n]"
    by (rule nth_equalityI) (simp_all add: get_bytes_def written_def stored_def)
  ultimately show "let n = ?n in readF ?f (int k) (int m) (int o1) = Inr (int n,
      map (\<lambda>i. if off \<le> i \<and> i < off + len then buf (i - off) else idata (inodes f k) i) [o1..<o1 + n])"
    by (simp only: Let_def)
qed (simp_all add: put_inode_def)

theorem write_then_read_witness:
  "\<exists>f'. writeF one_fs 1 (\<lambda>i. word_of_nat (65 + i)) 3 0 = Inr (3, f') \<and> readF f' 1 10 1 = Inr (2, [66, 67])"
proof -
  have s: "unat (isz (inodes one_fs 1)) = 0" unfolding one_fs_ok(8) by simp
  obtain f' where f: "writeF one_fs 1 (\<lambda>i. word_of_nat (65 + i)) 3 0 = Inr (3, f')"
    and r: "\<forall>o1 m. o1 < 2147483648 \<longrightarrow> (let n = min m (max (unat (isz (inodes one_fs 1))) (0 + 3) - o1)
         in readF f' (int 1) (int m) (int o1) = Inr (int n,
              map (\<lambda>i. if 0 \<le> i \<and> i < 0 + 3 then word_of_nat (65 + (i - 0)) else idata (inodes one_fs 1) i) [o1..<o1 + n]))"
    using write_then_read [of 1 0 3 one_fs "\<lambda>i. word_of_nat (65 + i)"] s by auto
  have "readF f' 1 10 1 = Inr (2, [66, 67])"
    using r [rule_format, of 1 10] unfolding s by (simp add: upt_rec Let_def)
  then show ?thesis using f by blast
qed

text \<open>What \<open>writeF\<close> refuses: a write past byte 32767 stops the machine; one that starts at a negative
  offset and passes the assertion runs out of the inode's bytes; every other write returns its length. So the
  assertion alone does not keep a write inside the inode, and the last of the 32768 bytes is never written.\<close>

lemma write_guards:
  assumes "k < 32" and "0 \<le> len" and "len < 1073741824" and "-1073741824 \<le> off" and "off < 1073741824"
  shows "if 32768 \<le> len + off then writeF f (int k) buf len off = Inl (AssertFail ''fs.c'' 363)
    else if off < 0 \<and> 0 < len then writeF f (int k) buf len off = Inl OutOfBounds
    else \<exists>f'. writeF f (int k) buf len off = Inr (len, f')"
proof -
  have w: "wrap32 (len + off) = len + off" by (rule wrap32_id) (use assms in auto)
  consider (long) "32768 \<le> len + off" | (neg) "len + off < 32768" "off < 0" "0 < len"
    | (none) "len + off < 32768" "len = 0" | (good) "len + off < 32768" "0 \<le> off" using assms by linarith
  then show ?thesis
  proof cases
    case long
    then show ?thesis by (simp add: writeF_def w)
  next
    case neg
    have d: "datablock_index 0 off = Inl OutOfBounds"
      using neg assms by (simp add: datablock_index_def)
    have "writeF f (int k) buf len off = Inl OutOfBounds"
      using neg assms d by (simp add: writeF_def w write_from.simps [of _ _ len off 0])
    then show ?thesis using neg by simp
  next
    case none
    then show ?thesis using assms by (simp add: writeF_def w write_from.simps [of _ _ 0 off 0] Let_def)
  next
    case good
    then have "writeF f (int k) buf (int (nat len)) (int (nat off)) =
        Inr (int (nat len), put_inode f k (written (inodes f k) (nat off) buf (nat len)))"
      using assms by (intro writeF_eq) auto
    then show ?thesis using good assms by simp
  qed
qed

lemma write_guards_witness: "writeF one_fs 1 (\<lambda>i. 0) 2 (-1) = Inl OutOfBounds
    \<and> writeF one_fs 1 (\<lambda>i. 0) 32768 0 = Inl (AssertFail ''fs.c'' 363)"
  using write_guards [of 1 2 "-1" one_fs "\<lambda>i. 0"] write_guards [of 1 32768 0 one_fs "\<lambda>i. 0"] by simp


section \<open>The disk\<close>

text \<open>C23: \<open>readBytes\<close> puts the bytes of the disk from \<open>off\<close> on at \<open>addr\<close>, and all it changes of memory lies in the whole
  sectors around them: up to 511 bytes before \<open>addr\<close> and up to 511 bytes behind its end. This holds for transfers of not negative offset and
  size whose sectors lie on the 128 GB a drive can address and, with 512 bytes to spare, in the 32-bit address space.\<close>

theorem readBytes_correct:
  assumes "off mod 512 \<le> addr" and "off + cont + 511 < 137438953472" and "addr + cont + 512 \<le> 4294967296"
  shows "\<exists>m'. readBytes addr (int off) (int cont) hd0 m = Inr m'
    \<and> (\<forall>j<cont. m' (addr + j) = hd0 (off + j))
    \<and> (\<forall>a. a < addr - off mod 512 \<or> addr + cont + 511 \<le> a \<longrightarrow> m' a = m a)
    \<and> (\<forall>a. addr - off mod 512 \<le> a \<and> a < addr \<longrightarrow> cont \<noteq> 0 \<longrightarrow> m' a = hd0 (off - (addr - a)))"
proof (intro exI conjI allI impI)
  let ?d = "addr - off mod 512" and ?n = "512 * sectors (cont + off mod 512)"
  let ?m = "blit ?d (512 * (off div 512)) ?n hd0 m"
  show "readBytes addr (int off) (int cont) hd0 m = Inr ?m" by (rule readBytes_eq [OF assms])
  have n: "cont + off mod 512 \<le> ?n" "?n \<le> cont + off mod 512 + 511"
    using sectors_bounds [of "cont + off mod 512"] by simp_all
  have o: "512 * (off div 512) + off mod 512 = off" by simp
  show "?m (addr + j) = hd0 (off + j)" if "j < cont" for j
  proof -
    have "addr + j = ?d + (off mod 512 + j)" using assms(1) by simp
    moreover have "off mod 512 + j < ?n" using n(1) that by linarith
    ultimately have "?m (addr + j) = hd0 (512 * (off div 512) + (off mod 512 + j))"
      by (simp only: blit_same)
    also have "512 * (off div 512) + (off mod 512 + j) = off + j" using o by linarith
    finally show ?thesis .
  qed
  show "?m a = m a" if "a < ?d \<or> addr + cont + 511 \<le> a" for a
    by (rule blit_other) (use that n(2) assms(1) in linarith)
  show "?m a = hd0 (off - (addr - a))" if a: "?d \<le> a \<and> a < addr" and c: "cont \<noteq> 0" for a
  proof -
    obtain i where i: "a = ?d + i" using a le_Suc_ex by blast
    then have l: "i < off mod 512" using a assms(1) by linarith
    then have "?m a = hd0 (512 * (off div 512) + i)" unfolding i using n(1) by (intro blit_same) linarith
    moreover have "addr - a = off mod 512 - i" using i l assms(1) by linarith
    moreover have "off - (off mod 512 - i) = 512 * (off div 512) + i" using o l by linarith
    ultimately show ?thesis by metis
  qed
qed

theorem readBytes_correct_witness:
  "\<exists>m'. readBytes 0x8000 516 4096 (\<lambda>i. word_of_nat i) (\<lambda>i. 0) = Inr m' \<and> m' 0x8000 = 4 \<and> m' (0x8000 - 1) = 3"
proof -
  obtain m' where m: "readBytes 0x8000 516 4096 (\<lambda>i. word_of_nat i) (\<lambda>i. 0) = Inr m'"
    "\<forall>j<4096. m' (0x8000 + j) = word_of_nat (516 + j)"
    "\<forall>a. 0x8000 - 516 mod 512 \<le> a \<and> a < 0x8000 \<longrightarrow> (4096::nat) \<noteq> 0 \<longrightarrow> m' a = word_of_nat (516 - (0x8000 - a))"
    using readBytes_correct [of 516 "0x8000" 4096 "\<lambda>i. word_of_nat i" "\<lambda>i. 0"] by auto
  have "m' (0x8000 + 0) = word_of_nat (516 + 0)" using m(2) by (elim allE [of _ 0]) simp
  then have "m' 0x8000 = word_of_nat 516" by simp
  moreover have "m' (0x8000 - 1) = word_of_nat 515" using m(3) by (elim allE [of _ "0x8000 - 1"]) simp
  moreover have "(word_of_nat 516 :: u8) = 4" "(word_of_nat 515 :: u8) = 3" by simp_all
  ultimately show ?thesis using m(1) by metis
qed

text \<open>C24: \<open>writeBytes\<close> at a sector boundary copies the bytes to the disk and changes nothing but whole sectors
  from there on; anywhere else its assertion stops the machine. This holds for transfers of not negative
  offset and size that lie on the 128 GB a drive can address and, with 512 bytes to spare, in the 32-bit address space.\<close>

theorem writeBytes_correct:
  assumes "off + cont + 511 < 137438953472" and "addr + cont + 512 \<le> 4294967296"
  shows "if off mod 512 \<noteq> 0 then writeBytes addr (int off) (int cont) m hd0 = Inl (AssertFail ''disk.c'' 60)
    else \<exists>d. writeBytes addr (int off) (int cont) m hd0 = Inr d \<and> (\<forall>j<cont. d (off + j) = m (addr + j))
      \<and> (\<forall>a. a < off \<or> off + cont + 511 \<le> a \<longrightarrow> d a = hd0 a)"
proof (cases "off mod 512 = 0")
  case True
  let ?d = "blit off addr (512 * sectors cont) m hd0"
  have "512 * sectors cont \<le> cont + 511" "cont \<le> 512 * sectors cont" using sectors_bounds [of cont] by simp_all
  then have "(\<forall>j<cont. ?d (off + j) = m (addr + j)) \<and> (\<forall>a. a < off \<or> off + cont + 511 \<le> a \<longrightarrow> ?d a = hd0 a)"
    by (simp add: blit_def)
  then show ?thesis using writeBytes_eq [OF True assms, of m hd0] True by auto
next
  case False
  then show ?thesis by (simp add: writeBytes_unaligned)
qed

theorem writeBytes_correct_witness:
  "writeBytes 0 5 8 (\<lambda>i. 1) (\<lambda>i. 0) = Inl (AssertFail ''disk.c'' 60)
    \<and> (\<exists>d. writeBytes 0 512 8 (\<lambda>i. 1) (\<lambda>i. 0) = Inr d \<and> d 519 = 1 \<and> d 511 = 0)"
proof -
  obtain d where d: "writeBytes 0 512 8 (\<lambda>i. 1) (\<lambda>i. 0) = Inr d" "\<forall>j<8. d (512 + j) = 1" "\<forall>a. a < 512 \<or> 1031 \<le> a \<longrightarrow> d a = 0"
    using writeBytes_correct [of 512 8 0 "\<lambda>i. 1" "\<lambda>i. 0"] by auto
  then have "d 519 = 1 \<and> d 511 = 0" using d(2) [rule_format, of 7] by simp
  then show ?thesis using d(1) writeBytes_correct [of 5 8 0 "\<lambda>i. 1" "\<lambda>i. 0"] by auto
qed


section \<open>Across a restart\<close>

text \<open>C20: the files survive: whatever was in memory and on the disk, loading the file system from a disk that
  \<open>writeBack\<close> has written gives the superblock and the 32 inodes that were in memory, byte for byte; outside its
  2 MB the disk is as it was.\<close>

theorem write_back_then_load:
  assumes "fs_wf f"
  shows "\<exists>d m1. write_back f m hd0 = Inr d \<and> load_fs d m2 = Inr m1 \<and> same_fs (get_fs fs_addr m1 g) f
    \<and> (\<forall>a. a < FS_OFFSET_IN_DISK \<or> FS_OFFSET_IN_DISK + FS_SIZE \<le> a \<longrightarrow> d a = hd0 a)"
  using write_back_load [OF assms, of m hd0 m2 g] write_back_frame [of f m hd0] by metis

lemma fs_ok_wf: "fs_ok f \<Longrightarrow> length (sb_id (superb f)) = 8 \<Longrightarrow> fs_wf f"
  by (simp add: fs_ok_def fs_wf_def super_wf_def inode_wf_def)

theorem write_back_then_load_witness:
  "\<exists>d m1. write_back root_fs (\<lambda>i. 0) (\<lambda>i. 7) = Inr d \<and> load_fs d (\<lambda>i. 9) = Inr m1
    \<and> same_fs (get_fs fs_addr m1 zero_fs) root_fs"
proof -
  have "fs_wf root_fs" by (rule fs_ok_wf [OF root_fs_ok(2)]) (simp add: root_fs_ok(7))
  from write_back_then_load [OF this] show ?thesis by blast
qed

text \<open>C21: when a process exits, its PCB leaves the processor for good, the next process gets it, and the file system it leaves
  in memory is on the disk: a restart finds it there.\<close>

theorem exit_saves_files:
  assumes "calling k a" and "fs_wf (fs k)"
  shows "\<exists>k' m1. exit_aux k = Inr k' \<and> sched_rel k' (spec_schedule DEAD a) \<and> pstate (cur k') = RUNNING
    \<and> p_num k' = wrap32 (p_num k - 1) \<and> fs k' = fs k
    \<and> load_fs (disk k') m2 = Inr m1 \<and> same_fs (get_fs fs_addr m1 g) (fs k)"
proof -
  obtain k' where "exit_aux k = Inr k'" "sched_rel k' (spec_schedule DEAD a)" "pstate (cur k') = RUNNING"
    "p_num k' = wrap32 (p_num k - 1)" "fs k' = fs k" and w: "write_back (fs k) (mem k) (disk k) = Inr (disk k')"
    using exit_aux_ok [OF assms(1)] by blast
  moreover obtain d m1 where "write_back (fs k) (mem k) (disk k) = Inr d" "load_fs d m2 = Inr m1"
    "same_fs (get_fs fs_addr m1 g) (fs k)"
    using write_back_load [OF assms(2)] by blast
  ultimately show ?thesis by auto
qed

theorem exit_saves_files_witness:
  "\<exists>k' m1. exit_aux user_kernel = Inr k' \<and> pstate (cur k') = RUNNING
    \<and> load_fs (disk k') (\<lambda>i. 0) = Inr m1 \<and> same_fs (get_fs fs_addr m1 zero_fs) zero_fs"
proof -
  have "fs_wf (fs user_kernel)"
    by (simp add: user_kernel_fields fs_wf_def super_wf_def inode_wf_def zero_fs_def zero_inode_def)
  moreover have "calling user_kernel user_sched" using user_kernel_ok by blast
  ultimately show ?thesis using exit_saves_files [of user_kernel user_sched] by (metis user_kernel_fields(4))
qed

end
