(* ===== verification/Console.thy ===== *)
theory Console
  imports Printing Startup Files
begin

text \<open>
  The properties of the shared routines and the console: the process lists, the C strings,
  formatted output on its two devices, the screen, and the keyboard up to the bytes a
  program gets.
\<close>

section \<open>Lists\<close>

text \<open>On disjoint lists, \<open>list_delete\<close> then \<open>list_add\<close> moves a process from wherever it stands in one list
  to the end of another and leaves every other list, and the order of the rest, as it was; \<open>list_head\<close> is the
  process queued first; deleting a process from a list that does not hold it stops the machine.\<close>

lemma list_move:
  assumes "queues chain nx H Q" and "h \<in> H" "g \<in> H" "g \<noteq> h" and "x \<in> set (Q h)" and "y \<in> set (Q g)"
  shows "\<exists>nx'. bind_r (list_delete nx h x) (\<lambda>n. list_add n g x) = Inr nx'
    \<and> queues chain nx' H (Q(h := remove1 x (Q h), g := Q g @ [x]))
    \<and> list_head nx' g = Inr (hd (Q g)) \<and> list_delete nx h y = Inl (AssertFail ''list.c'' 19)"
proof -
  obtain nx' where n: "bind_r (list_delete nx h x) (\<lambda>n. list_add n g x) = Inr nx'"
    "queues chain nx' H (Q(h := remove1 x (Q h), g := Q g @ [x]))"
    using pl.queues_move [OF assms(1-5)] by blast
  then have "chain nx' g (Q g @ [x])" using assms(3,4) by (auto simp: queues_def)
  moreover obtain z zs where "Q g = z # zs" using assms(6) by (cases "Q g") auto
  ultimately have "list_head nx' g = Inr (hd (Q g))" using list_head_chain by simp
  moreover have "chain nx h (Q h)" "y \<notin> set (Q h)" using assms by (auto simp: queues_def)
  ultimately show ?thesis using n list_delete_absent by blast
qed

text \<open>Two sleepers, a process ready.\<close>

definition three_links :: links where
  "three_links = (\<lambda>p. None)(Dummy1 := Some (Pcb 3), Dummy2 := Some (Pcb 1), Pcb 1 := Some (Pcb 2))"

lemma list_move_witness:
  "\<exists>nx'. bind_r (list_delete three_links Dummy2 (Pcb 1)) (\<lambda>n. list_add n Dummy1 (Pcb 1)) = Inr nx'
    \<and> list_head nx' Dummy1 = Inr (Pcb 3) \<and> list_delete three_links Dummy2 (Pcb 3) = Inl (AssertFail ''list.c'' 19)"
proof -
  let ?Q = "(\<lambda>h. [])(Dummy1 := [Pcb 3], Dummy2 := [Pcb 1, Pcb 2])"
  have "queues chain three_links {Dummy1, Dummy2} ?Q" by (simp add: queues_def three_links_def)
  from list_move [OF this, of Dummy2 Dummy1 "Pcb 1" "Pcb 3"] show ?thesis by auto
qed


section \<open>Strings\<close>

text \<open>\<open>strcmp\<close> is a total order on C strings: 0 for equal strings only, 1 and -1 swap with the arguments,
  and it is transitive; without a terminator it reads past the object.\<close>

lemma strcmp_total_order:
  assumes "terminated a" and "terminated b" and "terminated c"
  shows "\<exists>x y z. strcmp a b = Inr x \<and> strcmp b a = Inr (- x) \<and> strcmp b c = Inr y \<and> strcmp a c = Inr z
    \<and> x \<in> {-1, 0, 1} \<and> (x = 0 \<longleftrightarrow> cstr a = cstr b) \<and> (x < 0 \<longrightarrow> y < 0 \<longrightarrow> z < 0)
    \<and> strcmp a (cstr b) = Inl OutOfBounds"
proof -
  have r: "cmp_str u v \<in> {-1, 0, 1}" for u v by (induction u v rule: cmp_str.induct) auto
  have n: "\<not> terminated (cstr b)" by (simp add: terminated_def)
  show ?thesis
    using assms r [of "cstr a" "cstr b"] n cmp_str_antisym [of "cstr b" "cstr a"] cmp_str_trans [of "cstr a" "cstr b" "cstr c"]
    by (auto simp: strcmp_eq)
qed

lemma strcmp_total_order_example: "\<exists>x y. strcmp (c_lit ''boot'') (c_lit ''dev'') = Inr x
    \<and> strcmp (c_lit ''dev'') (c_lit ''usr'') = Inr y \<and> x = -1 \<and> y = -1"
proof -
  have t: "terminated (c_lit ''boot'')" "terminated (c_lit ''dev'')" "terminated (c_lit ''usr'')"
    by (simp_all add: c_lit_def)
  have "cstr (c_lit ''boot'') \<noteq> cstr (c_lit ''dev'')" by (simp add: c_lit_def)
  with strcmp_total_order [OF t] show ?thesis by (auto simp: strcmp_eq c_lit_def)
qed

text \<open>\<open>strcpy\<close> returns exactly when the string ends and fits with its terminator; then the destination compares
  equal to the source, keeps its length, and keeps every byte behind the terminator. Otherwise it leaves an object.\<close>

lemma strcpy_fits:
  shows "if terminated src \<and> length (cstr src) < length dst
    then \<exists>d. strcpy dst src = Inr d \<and> strcmp d src = Inr 0 \<and> length d = length dst
      \<and> drop (length (cstr src) + 1) d = drop (length (cstr src) + 1) dst
    else strcpy dst src = Inl OutOfBounds"
  by (auto simp: strcpy_eq strcmp_eq)


section \<open>Formatted output\<close>

text \<open>\<open>printk\<close> and \<open>printQ\<close>, with their separate helpers, print the same text: whenever the format
  and its arguments have a text, \<open>format_text\<close>, the first sends its bytes to the serial port and the second puts
  them on the screen one after the other.\<close>

lemma printers_agree:
  assumes "format_text format args = Some t"
  shows "printk format args out = Inr (out @ t) \<and> printQ format args s = Inr (put_text t s)"
  using printk_text [OF assms] printQ_text [OF assms] by simp

lemma printers_agree_example:
  "printk (c_lit ''%d%%'') [Word 42] [] = Inr [52, 50, 37]
    \<and> printQ (c_lit ''%d%%'') [Word 42] zero_screen = Inr (put_text [52, 50, 37] zero_screen)"
proof -
  have "format_text (c_lit ''%d%%'') [Word 42] = Some [52, 50, 37]"
    by (simp add: c_lit_def arg_text_def dec_text_def dec_digits.simps)
  from printers_agree [OF this] show ?thesis by auto
qed

text \<open>What \<open>%d\<close> prints is a minus sign for negative numbers and then digits, and reads as the number
  printed, also for -2147483648; different numbers print differently.\<close>

lemma print_dec_reads_back:
  shows "\<exists>t. print_dec w out = Inr (out @ t) \<and> print_dec_Q w s = Inr (put_text t s) \<and> text_value t = sint w
    \<and> (\<forall>i < length t. is_digit (t ! i) \<or> i = 0 \<and> t ! i = 45)
    \<and> (\<forall>v. print_dec v out = print_dec w out \<longleftrightarrow> v = w)"
proof (intro exI conjI allI impI)
  let ?t = "dec_text (sint w)"
  show "print_dec w out = Inr (out @ ?t)" by (simp add: serial.pdec_emit emit_serial)
  show "print_dec_Q w s = Inr (put_text ?t s)" by (simp add: display.pdec_emit emit_display)
  show "text_value ?t = sint w" by (rule dec_text_value)
  show "is_digit (?t ! i) \<or> i = 0 \<and> ?t ! i = 45" if "i < length ?t" for i
    using that nth_mem [of _ "dec_digits (nat \<bar>sint w\<bar>)"] dec_digits_are_digits [of "nat \<bar>sint w\<bar>"]
    by (cases i) (auto simp: dec_text_def split: if_splits)
  show "print_dec v out = print_dec w out \<longleftrightarrow> v = w" for v
    by (auto simp: serial.pdec_emit emit_serial dec_text_inj intro: signed_word_eqI)
qed

lemma print_dec_reads_back_example:
  "\<exists>t. print_dec 0x80000000 [] = Inr ([] @ t) \<and> text_value t = -2147483648"
proof -
  have "sint (0x80000000 :: u32) = -2147483648" by simp
  with print_dec_reads_back [of "0x80000000" "[]" zero_screen] show ?thesis by metis
qed


section \<open>The screen\<close>

text \<open>A printable text of \<open>n\<close> characters that fits behind the cursor fills the next \<open>n\<close> cells with them, white on
  black, wrapping at column 80, changes no other cell, and moves the cursor and the cursor of the display
  controller behind them.\<close>

lemma text_on_screen:
  assumes "\<forall>c\<in>set t. printable c" and "cursor_x s < 80" and "cursor_pos s + length t < 65536" and "t \<noteq> []"
  shows "cursor_pos (put_text t s) = cursor_pos s + length t \<and> cursor_x (put_text t s) < 80
    \<and> unat (crtc_cursor (put_text t s)) = cursor_pos s + length t
    \<and> (\<forall>i<length t. vram (put_text t s) (cursor_pos s + i) = cell_of (t ! i))
    \<and> (\<forall>a. a < cursor_pos s \<or> cursor_pos s + length t \<le> a \<longrightarrow> vram (put_text t s) a = vram s a)"
proof -
  have A: "cursor_pos (put_text t s) = cursor_pos s + length t \<and> cursor_x (put_text t s) < 80
    \<and> (\<forall>i<length t. vram (put_text t s) (cursor_pos s + i) = cell_of (t ! i))
    \<and> (\<forall>a. a < cursor_pos s \<or> cursor_pos s + length t \<le> a \<longrightarrow> vram (put_text t s) a = vram s a)"
    using assms(1-3)
  proof (induction t rule: rev_induct)
    case Nil
    then show ?case by (simp add: put_text_def)
  next
    case (snoc c t)
    let ?s = "put_text t s"
    have IH: "cursor_pos ?s = cursor_pos s + length t" "cursor_x ?s < 80"
      "\<forall>i<length t. vram ?s (cursor_pos s + i) = cell_of (t ! i)"
      "\<forall>a. a < cursor_pos s \<or> cursor_pos s + length t \<le> a \<longrightarrow> vram ?s a = vram s a"
      using snoc by auto
    have e: "put_text (t @ [c]) s = screen_put ?s c white black" by (simp add: put_text_def)
    have p: "vram (screen_put ?s c white black) = (vram ?s)(cursor_pos ?s := cell_of c)
        \<and> cursor_pos (screen_put ?s c white black) = Suc (cursor_pos ?s)"
      using snoc.prems IH(1,2) by (intro screen_put_printable) auto
    show ?case unfolding e
      using p IH screen_put_column by (auto simp: nth_append less_Suc_eq)
  qed
  moreover have "unat (crtc_cursor (put_text t s)) = cursor_pos (put_text t s)"
  proof -
    obtain u c where t: "t = u @ [c]" using assms(4) by (cases t rule: rev_exhaust) auto
    let ?p = "put_text t s"
    have "crtc_cursor ?p = cursor_y ?p * 80 + cursor_x ?p" by (simp add: t put_text_def screen_put_crtc)
    moreover have "80 * unat (cursor_y ?p) + unat (cursor_x ?p) < 65536"
      using A assms(3) unfolding cursor_pos_def by linarith
    ultimately show ?thesis by (simp add: cursor_pos_def unat_word_ariths unat_mult_lem)
  qed
  ultimately show ?thesis using A by simp
qed

lemma text_on_screen_witness:
  "vram (put_text [104, 105] zero_screen) 1 = cell_of 105 \<and> cursor_pos (put_text [104, 105] zero_screen) = 2"
proof -
  have z: "cursor_x zero_screen < 80" "cursor_pos zero_screen = 0"
    by (simp_all add: zero_screen_def cursor_pos_def)
  have p: "\<forall>c\<in>set [104, 105]. printable c" by (simp add: printable_def)
  have f: "cursor_pos zero_screen + length [104::u8, 105] < 65536" "[104::u8, 105] \<noteq> []" by (simp_all add: z(2))
  from text_on_screen [OF p z(1) f] have
    "\<forall>i<2. vram (put_text [104, 105] zero_screen) i = cell_of ([104, 105] ! i)"
    "cursor_pos (put_text [104, 105] zero_screen) = 2" by (simp_all add: z(2))
  then show ?thesis by auto
qed


section \<open>The keyboard\<close>

text \<open>Every scan code gives at most one character: the 26 letter codes the letters, the 10 digit codes
  the digits, 28 the end of line, 57 the space, every other code 0; no two codes give the same character.\<close>

lemma press_key_codes:
  shows "map press_key letter_code = map of_char ''abcdefghijklmnopqrstuvwxyz''
    \<and> map press_key num_code = map of_char ''0123456789'' \<and> press_key 28 = 10 \<and> press_key 57 = 32
    \<and> (\<forall>c. c \<notin> set letter_code \<union> set num_code \<union> {28, 57} \<longrightarrow> press_key c = 0)
    \<and> (\<forall>c d. press_key c = press_key d \<longrightarrow> c = d \<or> press_key c = 0)"
proof -
  have a: "map press_key letter_code = map of_char ''abcdefghijklmnopqrstuvwxyz''"
    "map press_key num_code = map of_char ''0123456789''" "press_key 28 = 10" "press_key 57 = 32"
    by (simp_all add: press_key_def letter_code_def num_code_def)
  have n: "index_code xs c i = None \<longleftrightarrow> c \<notin> set xs" for xs c i
    by (induction xs arbitrary: i) auto
  have b: "press_key c = 0" if "c \<notin> set letter_code \<union> set num_code \<union> {28, 57}" for c
    using that n [of letter_code c 0] n [of num_code c 0] by (simp add: press_key_def)
  let ?cs = "letter_code @ num_code @ [28, 57]"
  have "distinct (map press_key ?cs)"
    by (simp add: a) 
  then have i: "inj_on press_key (set ?cs)" by (simp only: distinct_map)
  have cs: "set ?cs = set letter_code \<union> set num_code \<union> {28, 57}" by simp
  have "press_key c = press_key d \<longrightarrow> c = d \<or> press_key c = 0" for c d
    using b [of c] b [of d] inj_onD [OF i, of c d] unfolding cs by metis
  with a b show ?thesis by blast
qed

lemma press_key_codes_example: "press_key 30 = 97 \<and> press_key 42 = 0"
proof -
  have "42 \<notin> set letter_code \<union> set num_code \<union> {28, 57}" by (simp add: letter_code_def num_code_def)
  with press_key_codes show ?thesis by (auto simp: letter_code_def)
qed

lemma keyboardHandle_key:
  assumes "keyboard_event c \<noteq> 0" and "0 \<le> buf_in k" and "buf_in k < 1024"
  shows "keyboardHandle c k = Inr (k\<lparr>scr := screen_put (scr k) (keyboard_event c) white black,
      BUF := (BUF k)[nat (buf_in k) := keyboard_event c], buf_in := buf_in k + 1\<rparr>)"
  using assms by (simp add: keyboardHandle_def Let_def)

text \<open>What the wait leaves alone.\<close>

definition same_but_keys :: "kernel \<Rightarrow> kernel \<Rightarrow> bool" where
  "same_but_keys k k' \<longleftrightarrow> nxt k' = nxt k \<and> pcbs k' = pcbs k \<and> current k' = current k \<and> p_num k' = p_num k
     \<and> sysFileTable k' = sysFileTable k \<and> fs k' = fs k \<and> disk k' = disk k \<and> mem k' = mem k \<and> kaddr k' = kaddr k"

text \<open>The characters that the interrupts bring: the timer and other lines bring none, nor do codes without a character, as
  the code of a key that is released.\<close>

fun typed_text :: "event list \<Rightarrow> u8 list" where
  "typed_text [] = []"
| "typed_text (e # es) = (case e of Key c \<Rightarrow> if keyboard_event c \<noteq> 0 then [keyboard_event c] else [] | _ \<Rightarrow> []) @ typed_text es"

lemma typed_append [simp]: "typed_text (es @ es') = typed_text es @ typed_text es'"
  by (induction es) simp_all

lemma typed_keys [simp]: "\<forall>c\<in>set cs. keyboard_event c \<noteq> 0 \<Longrightarrow> typed_text (map Key cs) = map keyboard_event cs"
  by (induction cs) simp_all

lemma typed_last: "es \<noteq> [] \<Longrightarrow> typed_text [last es] \<noteq> [] \<Longrightarrow> typed_text es \<noteq> []"
  by (metis append_butlast_last_id append_is_Nil_conv typed_append)

text \<open>One interrupt of the wait: it moves at most the keys and the screen, whatever it is, the timer too.\<close>

lemma nested_step:
  assumes "length (BUF k) = 1024" and "buf_in k = int b" and "b < 1024"
  shows "\<exists>k1. nested_irq tfp e (k\<lparr>intr_nesting := True\<rparr>) = Inr k1 \<and> same_but_keys k k1 \<and> buf_out k1 = buf_out k
    \<and> buf_in k1 = int (b + length (typed_text [e])) \<and> scr k1 = put_text (typed_text [e]) (scr k)
    \<and> BUF k1 = take b (BUF k) @ typed_text [e] @ drop (b + length (typed_text [e])) (BUF k)"
proof (cases "typed_text [e] = []")
  case True
  then have "nested_irq tfp e (k\<lparr>intr_nesting := True\<rparr>) = Inr (k\<lparr>intr_nesting := True, currentstacktop := tfp\<rparr>)"
    by (cases e) (simp_all add: nested_irq_def timerHandle_def keyboardHandle_def split: if_splits)
  then show ?thesis using True assms(2) by (simp add: same_but_keys_def put_text_def)
next
  case False
  then obtain c where e: "e = Key c" "keyboard_event c \<noteq> 0" by (cases e) (auto split: if_splits)
  have "(BUF k)[b := keyboard_event c] = take b (BUF k) @ keyboard_event c # drop (Suc b) (BUF k)"
    using assms(1,3) by (simp add: upd_conv_take_nth_drop)
  then show ?thesis using assms e by (simp add: nested_irq_def keyboardHandle_key same_but_keys_def put_text_def)
qed

lemma wait_for_events:
  assumes "es1 \<noteq> [] \<longrightarrow> typed_text [last es1] \<noteq> []" and "length (BUF k) = 1024" and "0 \<le> buf_out k" and "buf_in k = int b"
    and "b + length (typed_text es1) \<le> 1024" and "int b + int (length (typed_text es1)) = buf_out k + n + 1"
  shows "\<exists>k'. wait_for_keyboard tfp n (es1 @ es) k = Inr (k', es) \<and> same_but_keys k k'
    \<and> \<not> intr_nesting k' \<and> buf_out k' = buf_out k \<and> buf_in k' = buf_in k + int (length (typed_text es1))
    \<and> scr k' = put_text (typed_text es1) (scr k)
    \<and> BUF k' = take b (BUF k) @ typed_text es1 @ drop (b + length (typed_text es1)) (BUF k)"
  using assms
proof (induction es1 arbitrary: k b)
  case Nil
  have "wrap32 (buf_out k + n) = buf_out k + n" by (rule wrap32_id) (use Nil in auto)
  then show ?case using Nil by (simp add: wait_for_keyboard.simps [of _ _ es] same_but_keys_def put_text_def)
next
  case (Cons e es1)
  define t where "t = typed_text [e]"
  have split: "typed_text (e # es1) = t @ typed_text es1" by (simp add: t_def)
  have ne: "typed_text (e # es1) \<noteq> []" using typed_last [of "e # es1"] Cons.prems(1) by blast
  then have len: "0 < length (typed_text (e # es1))" by simp
  then have b: "b < 1024" and go: "buf_in k \<le> buf_out k + n" using Cons.prems(4-6) by linarith+
  have w: "wrap32 (buf_out k + n) = buf_out k + n"
    by (rule wrap32_id) (use Cons.prems(3,5,6) len in linarith)+
  obtain k1 where k1: "nested_irq tfp e (k\<lparr>intr_nesting := True\<rparr>) = Inr k1" "same_but_keys k k1" "buf_out k1 = buf_out k"
    "buf_in k1 = int (b + length t)" "scr k1 = put_text t (scr k)"
    "BUF k1 = take b (BUF k) @ t @ drop (b + length t) (BUF k)"
    using nested_step [OF Cons.prems(2,4) b, of tfp e, folded t_def] by blast
  have bl: "b + length t \<le> 1024" using Cons.prems(5) unfolding split by simp
  then have l1: "length (BUF k1) = 1024" using Cons.prems(2) by (simp add: k1(6))
  have "es1 \<noteq> [] \<longrightarrow> typed_text [last es1] \<noteq> []" using Cons.prems(1) by auto
  from Cons.IH [OF this l1 _ k1(4)] obtain k' where k': "wait_for_keyboard tfp n (es1 @ es) k1 = Inr (k', es)" "same_but_keys k1 k'"
    "\<not> intr_nesting k'" "buf_out k' = buf_out k1" "buf_in k' = buf_in k1 + int (length (typed_text es1))"
    "scr k' = put_text (typed_text es1) (scr k1)"
    "BUF k' = take (b + length t) (BUF k1) @ typed_text es1 @ drop (b + length t + length (typed_text es1)) (BUF k1)"
    using Cons.prems(3,5,6) k1(3) unfolding split by auto
  have "wait_for_keyboard tfp n ((e # es1) @ es) k = Inr (k', es)"
    using k'(1) k1(1) w go by (simp add: wait_for_keyboard.simps [of _ _ _ k])
  moreover have "same_but_keys k k'" using k1(2) k'(2) by (simp add: same_but_keys_def)
  moreover have "take (b + length t) (BUF k1) = take b (BUF k) @ t"
    "drop (b + length t + length (typed_text es1)) (BUF k1) = drop (b + length (typed_text (e # es1))) (BUF k)"
    unfolding k1(6) split using bl Cons.prems(2) by (simp_all add: ac_simps)
  moreover have "scr k' = put_text (typed_text (e # es1)) (scr k)"
    unfolding k'(6) k1(5) split by (simp add: put_text_def)
  ultimately show ?case using k'(3,4,5,7) k1(3,4) Cons.prems(4) unfolding split by simp
qed

lemma wait_for_keys:
  assumes "\<forall>c\<in>set cs. keyboard_event c \<noteq> 0" and "length (BUF k) = 1024" and "0 \<le> buf_out k"
    and "buf_in k = int b" and "b + length cs \<le> 1024" and "int b + int (length cs) = buf_out k + n + 1"
  shows "\<exists>k'. wait_for_keyboard tfp n (map Key cs @ es) k = Inr (k', es) \<and> same_but_keys k k'
    \<and> \<not> intr_nesting k' \<and> buf_out k' = buf_out k \<and> buf_in k' = buf_in k + int (length cs)
    \<and> scr k' = put_text (map keyboard_event cs) (scr k)
    \<and> BUF k' = take b (BUF k) @ map keyboard_event cs @ drop (b + length cs) (BUF k)"
proof -
  have "typed_text [last (map Key cs)] \<noteq> []" if "cs \<noteq> []" using assms(1) that by (simp add: last_map)
  then show ?thesis using wait_for_events [of "map Key cs" k b n tfp es] assms by simp
qed

lemma take_keys_eq:
  assumes "user_area buf len" and "out + len \<le> 1024"
  shows "i \<le> len \<Longrightarrow> take_keys keys (int out) buf (int len) (int i) m =
    Inr (put_bytes m (buf + i) (map (\<lambda>j. keys ! (out + j)) [i..<len]))"
proof (induction "len - i" arbitrary: i m)
  case 0
  then show ?case by (auto simp: take_keys.simps put_bytes_def fun_eq_iff)
next
  case (Suc d)
  then have i: "i < len" by simp
  have u: "user_area (buf + i) 1" using assms(1) i by (simp add: user_area_def)
  have "take_keys keys (int out) buf (int len) (int (Suc i)) (m(buf + i := keys ! (out + i))) =
      Inr (put_bytes (m(buf + i := keys ! (out + i))) (buf + Suc i) (map (\<lambda>j. keys ! (out + j)) [Suc i..<len]))"
    using Suc i by (intro Suc.hyps) auto
  moreover have "put_bytes (m(buf + i := keys ! (out + i))) (buf + Suc i) (map (\<lambda>j. keys ! (out + j)) [Suc i..<len])
      = put_bytes m (buf + i) (map (\<lambda>j. keys ! (out + j)) [i..<len])"
  proof (rule ext)
    fix a
    show "put_bytes (m(buf + i := keys ! (out + i))) (buf + Suc i) (map (\<lambda>j. keys ! (out + j)) [Suc i..<len]) a
      = put_bytes m (buf + i) (map (\<lambda>j. keys ! (out + j)) [i..<len]) a"
      using i by (auto simp: put_bytes_def upt_conv_Cons [OF i] nth_Cons' not_less_eq_eq intro!: arg_cong [of _ _ "nth keys"])
  qed
  ultimately show ?case using i u assms(2)
    by (simp add: take_keys.simps [of keys "int out" buf "int len" "int i"] add.commute nat_add_distrib)
qed

text \<open>C38: reading \<open>len\<close> characters from the keyboard, of which \<open>b - o1\<close> are typed already, into the program's memory, while they fit the
  1024 bytes of the key buffer, which is never emptied: whatever interrupts come, the call
  waits until the last of the missing characters is typed, echoes and buffers the characters, and gives them to the program in the order
  they were typed. Timer interrupts, released keys, keys without a character and spurious interrupts during the wait (all of \<open>es1\<close>) change
  nothing: no time slice and no sleeper advances, no other process runs. Interrupts that come later (\<open>es\<close>) stay
  pending, and the files, the disk and the processes are untouched.\<close>

theorem read_from_keyboard:
  assumes "es1 = [] \<or> typed_text [last es1] \<noteq> []" and "length (BUF k) = 1024" and "buf_out k = int o1" and "buf_in k = int b"
    and "o1 \<le> b" and "b + length (typed_text es1) = o1 + len" and "o1 + len \<le> 1024" and "1 \<le> len" and "user_area (user_ptr k p) len"
  shows "\<exists>k'. read_aux tfp 0 p (int len) (es1 @ es) k = Inr (k', es)
    \<and> get_bytes (mem k') (user_ptr k p) len = drop o1 (take b (BUF k)) @ typed_text es1
    \<and> buf_out k' = buf_in k' \<and> buf_out k' = int (o1 + len) \<and> \<not> intr_nesting k'
    \<and> scr k' = put_text (typed_text es1) (scr k)
    \<and> (\<forall>a. a < user_ptr k p \<or> user_ptr k p + len \<le> a \<longrightarrow> mem k' a = mem k a)
    \<and> nxt k' = nxt k \<and> pcbs k' = pcbs k \<and> current k' = current k \<and> p_num k' = p_num k
    \<and> sysFileTable k' = sysFileTable k \<and> fs k' = fs k \<and> disk k' = disk k"
proof -
  let ?buf = "user_ptr k p"
  have w: "wrap32 (int len - 1) = int len - 1" using assms by (intro wrap32_id) auto
  obtain k1 where k1: "wait_for_keyboard tfp (int len - 1) (es1 @ es) k = Inr (k1, es)" "same_but_keys k k1"
    "\<not> intr_nesting k1" "buf_out k1 = buf_out k" "buf_in k1 = buf_in k + int (length (typed_text es1))"
    "scr k1 = put_text (typed_text es1) (scr k)"
    "BUF k1 = take b (BUF k) @ typed_text es1 @ drop (b + length (typed_text es1)) (BUF k)"
    using wait_for_events [of es1 k b "int len - 1" tfp es] assms by auto
  have l: "length (BUF k1) = 1024" using assms by (simp add: k1(7))
  define bs where "bs = map (\<lambda>j. BUF k1 ! (o1 + j)) [0..<len]"
  have t: "take_keys (BUF k1) (buf_out k1) ?buf (int len) 0 (mem k1) = Inr (put_bytes (mem k1) ?buf bs)"
    using take_keys_eq [of ?buf len o1 0 "BUF k1" "mem k1"] assms l k1(4) by (simp add: bs_def)
  have bs: "bs = drop o1 (take b (BUF k)) @ typed_text es1" unfolding bs_def
    using assms by (intro nth_equalityI) (auto simp: k1(7) nth_append min_def add.commute [of o1])
  have n: "wrap32 (buf_out k1 + int len) = int (o1 + len)"
    using assms k1(4) by (subst wrap32_id) auto
  let ?k' = "k1\<lparr>mem := put_bytes (mem k1) ?buf bs, buf_out := int (o1 + len)\<rparr>"
  have "read_aux tfp 0 p (int len) (es1 @ es) k = Inr (?k', es)"
    using k1(1) w t n by (simp add: read_aux_def Let_def)
  moreover have "length bs = len" by (simp add: bs_def)
  then have "get_bytes (mem ?k') ?buf len = bs" by simp
  moreover have "\<forall>a. a < ?buf \<or> ?buf + len \<le> a \<longrightarrow> mem ?k' a = mem k a"
    using k1(2) \<open>length bs = len\<close> by (auto simp: same_but_keys_def put_bytes_def)
  moreover have "int (o1 + len) = buf_in k1" using k1(5) assms(4,6) by simp
  ultimately show ?thesis using k1(2,3,6) bs unfolding same_but_keys_def by (intro exI [of _ ?k']) simp
qed

text \<open>Two keys are pressed and the first is released, with timer interrupts in between.\<close>

theorem read_from_keyboard_witness:
  "\<exists>k'. read_aux 0 0 0x250000 2 [Tick, Key 35, Key 0xA3, Tick, Key 23, Tick] user_kernel = Inr (k', [Tick])
    \<and> get_bytes (mem k') 0x250000 2 = [104, 105] \<and> pcbs k' = pcbs user_kernel"
proof -
  let ?es = "[Tick, Key 35, Key 0xA3, Tick, Key 23]"
  have e: "keyboard_event 35 = 104" "keyboard_event 23 = 105" "keyboard_event 0xA3 = 0"
    by (simp_all add: keyboard_event_def press_key_def letter_code_def num_code_def)
  have t: "typed_text ?es = [104, 105]" "typed_text [last ?es] \<noteq> []" by (simp_all add: e)
  have u: "user_ptr user_kernel 0x250000 = 0x250000" by (simp add: user_ptr_def user_kernel_fields)
  have a: "user_area 0x250000 2" by (simp add: user_area_def)
  show ?thesis
    using read_from_keyboard [of ?es user_kernel 0 0 2 "0x250000" 0 "[Tick]"] t a
    by (simp add: user_kernel_fields u e) blast
qed

end
