(* ===== verification/Filecalls.thy ===== *)
theory Filecalls
  imports Storing Files
begin

text \<open>
  The properties of the file system calls: what a program sees through a descriptor when it
  opens, writes, seeks, reads and closes.
\<close>

section \<open>Descriptors\<close>

lemma fd_slot_SomeD: "fd_slot k fd = Inr i \<Longrightarrow> 0 \<le> fd \<and> fd < 8 \<and> i < 512 \<and> filepointer (cur k) ! nat fd = int i"
  by (auto simp: fd_slot_def Let_def exec_Inr_iffs)

lemma fd_slot_cong: "filepointer (cur k') = filepointer (cur k) \<Longrightarrow> fd_slot k' fd = fd_slot k fd"
  by (simp add: fd_slot_def)

lemma set_entry_simps [simp]:
  "pcbs (set_entry i f k) = pcbs k" "current (set_entry i f k) = current k" "fs (set_entry i f k) = fs k"
  "mem (set_entry i f k) = mem k" "nxt (set_entry i f k) = nxt k" "disk (set_entry i f k) = disk k"
  "sys_file_num (set_entry i f k) = sys_file_num k"
  "sysFileTable (set_entry i f k) = (sysFileTable k)[i := f (sysFileTable k ! i)]" "scr (set_entry i f k) = scr k"
  by (simp_all add: set_entry_def)

lemma set_offset_simps [simp]:
  "pcbs (set_offset i v k) = pcbs k" "current (set_offset i v k) = current k" "fs (set_offset i v k) = fs k"
  "mem (set_offset i v k) = mem k" "nxt (set_offset i v k) = nxt k" "disk (set_offset i v k) = disk k"
  "sysFileTable (set_offset i v k) = (sysFileTable k)[i := (sysFileTable k ! i)\<lparr>offset := wrap32 v\<rparr>]" "scr (set_offset i v k) = scr k"
  by (simp_all add: set_offset_def)

lemma set_eax_fields [simp]:
  "fs (set_eax v k) = fs k" "disk (set_eax v k) = disk k" "sysFileTable (set_eax v k) = sysFileTable k"
  "sys_file_num (set_eax v k) = sys_file_num k" "scr (set_eax v k) = scr k" "pid (pcbs (set_eax v k) p) = pid (pcbs k p)"
  "filepointer (pcbs (set_eax v k) p) = filepointer (pcbs k p)" "fp_num (pcbs (set_eax v k) p) = fp_num (pcbs k p)"
  "tf_eax (tf (pcbs (set_eax v k) (current k))) = v"
  by (auto simp: set_eax_def)

text \<open>A descriptor of an open file: slot \<open>i\<close> of the table, inode \<open>j\<close>, position \<open>n\<close>.\<close>

definition opened :: "kernel \<Rightarrow> int \<Rightarrow> nat \<Rightarrow> nat \<Rightarrow> nat \<Rightarrow> bool" where
  "opened k fd i j n \<longleftrightarrow> fd_slot k fd = Inr i \<and> i < length (sysFileTable k)
     \<and> inode_index (sysFileTable k ! i) = int j \<and> j < 32 \<and> offset (sysFileTable k ! i) = int n"

lemma write_aux_ok:
  assumes "opened k fd i j n" and "fd \<noteq> 1" and "n + len < 32768" and "user_area (user_ptr k p) len"
  shows "write_aux fd p (int len) k = Inr (set_offset i (int (n + len)) (set_eax (word_of_nat len)
    (k\<lparr>fs := put_inode (fs k) j (written (inodes (fs k) j) n (\<lambda>b. mem k (user_ptr k p + b)) len)\<rparr>)))"
  using assms writeF_eq [of j n len "fs k" "\<lambda>b. mem k (user_ptr k p + b)"]
  by (simp add: write_aux_def opened_def Let_def)

lemma lseek_set_ok: "opened k fd i j n \<Longrightarrow> lseek_aux fd v 0 k = Inr (set_offset i v k)"
  by (simp add: lseek_aux_def opened_def)

lemma sint_small:
  assumes "unat (w :: u32) < 2147483648"
  shows "sint w = int (unat w)"
proof -
  have u: "uint w = int (unat w)" by simp
  have "sint w = wrap32 (uint w)" using sint_word_of_int32 [of "uint w"] by simp
  also have "\<dots> = uint w" by (rule wrap32_id) (use u assms in linarith)+
  finally show ?thesis by (simp only: u)
qed

lemma read_aux_ok:
  assumes o: "opened k fd i j n" and fd: "fd \<noteq> 0" and sz: "unat (isz (inodes (fs k) j)) \<le> 32768"
    and n: "n + len \<le> unat (isz (inodes (fs k) j))" and u: "user_area (user_ptr k p) len"
  shows "read_aux tfp fd p (int len) es k = Inr (set_offset i (int (n + len)) (set_eax (word_of_nat len)
    (k\<lparr>mem := put_bytes (mem k) (user_ptr k p) (get_bytes (idata (inodes (fs k) j)) n len)\<rparr>)), es)"
proof -
  let ?z = "isz (inodes (fs k) j)"
  have "read_count (inodes (fs k) j) len n = len" using n by (simp add: read_count_def)
  then have r: "readF (fs k) (int j) (int len) (int n) = Inr (int len, get_bytes (idata (inodes (fs k) j)) n len)"
    using readF_eq [of j "fs k" n len] o sz n by (simp add: opened_def)
  have "sint ?z = int (unat ?z)" using sz by (intro sint_small) simp
  moreover have "wrap32 (int n + int len) = int n + int len" using n sz by (intro wrap32_id) auto
  ultimately have "\<not> sint ?z < wrap32 (int n + int len)" using n by linarith
  then show ?thesis using o fd r u by (simp add: read_aux_def opened_def Let_def)
qed

text \<open>C33: what a program writes through a descriptor it reads back: \<open>write\<close> of \<open>len\<close> bytes at the position
  of the descriptor, \<open>lseek\<close> back, \<open>read\<close> into another buffer. The position is behind the bytes in the end, \<open>read\<close> returns
  the count, the old bytes of the file before and behind stay, and no other open file moves.\<close>

theorem write_seek_read:
  assumes "opened k fd i j n" and "fd \<noteq> 0" and "fd \<noteq> 1" and "n + len < 32768"
    and "unat (isz (inodes (fs k) j)) \<le> 32768" and "user_area (user_ptr k p) len" and "user_area (user_ptr k q) len"
  shows "\<exists>k1 k2 k3. write_aux fd p (int len) k = Inr k1 \<and> lseek_aux fd (int n) 0 k1 = Inr k2
    \<and> read_aux tfp fd q (int len) es k2 = Inr (k3, es)
    \<and> get_bytes (mem k3) (user_ptr k q) len = get_bytes (mem k) (user_ptr k p) len
    \<and> tf_eax (tf (cur k3)) = word_of_nat len \<and> opened k3 fd i j (n + len)
    \<and> (\<forall>b. b < n \<or> n + len \<le> b \<longrightarrow> idata (inodes (fs k3) j) b = idata (inodes (fs k) j) b)
    \<and> (\<forall>m. m \<noteq> i \<longrightarrow> sysFileTable k3 ! m = sysFileTable k ! m)"
proof -
  let ?src = "\<lambda>b. mem k (user_ptr k p + b)"
  let ?ino = "written (inodes (fs k) j) n ?src len"
  let ?k1 = "set_offset i (int (n + len)) (set_eax (word_of_nat len) (k\<lparr>fs := put_inode (fs k) j ?ino\<rparr>))"
  let ?k2 = "set_offset i (int n) ?k1"
  have w: "write_aux fd p (int len) k = Inr ?k1" by (rule write_aux_ok [OF assms(1,3,4,6)])
  have o: "i < length (sysFileTable k)" "inode_index (sysFileTable k ! i) = int j" "j < 32" "fd_slot k fd = Inr i"
    using assms(1) by (simp_all add: opened_def)
  have o1: "opened ?k1 fd i j (n + len)" using o assms(4) fd_slot_cong [of ?k1 k fd] by (simp add: opened_def)
  have o2: "opened ?k2 fd i j n" using o assms(4) fd_slot_cong [of ?k2 k fd] by (simp add: opened_def)
  have s: "lseek_aux fd (int n) 0 ?k1 = Inr ?k2" by (rule lseek_set_ok [OF o1])
  have f2: "inodes (fs ?k2) j = ?ino" "user_ptr ?k2 q = user_ptr k q" by (simp_all add: user_ptr_def)
  have "unat (isz ?ino) = max (unat (isz (inodes (fs k) j))) (n + len)"
    using unat_grown [OF assms(5), of "n + len"] assms(4) by (simp add: written_def)
  then have z: "unat (isz (inodes (fs ?k2) j)) \<le> 32768" "n + len \<le> unat (isz (inodes (fs ?k2) j))"
    unfolding f2 using assms(4,5) by simp_all
  define bs where "bs = get_bytes (idata ?ino) n len"
  have bs: "bs = get_bytes (mem k) (user_ptr k p) len"
    unfolding bs_def by (rule nth_equalityI) (simp_all add: get_bytes_def written_def stored_def)
  define k3 where "k3 = set_offset i (int (n + len)) (set_eax (word_of_nat len)
      (?k2\<lparr>mem := put_bytes (mem ?k2) (user_ptr k q) bs\<rparr>))"
  have "user_area (user_ptr ?k2 q) len" using assms(7) by (simp only: f2)
  from read_aux_ok [OF o2 assms(2) z this, of tfp es]
  have r: "read_aux tfp fd q (int len) es ?k2 = Inr (k3, es)" unfolding f2 bs_def k3_def .
  have "length bs = len" by (simp add: bs_def)
  then have "get_bytes (mem k3) (user_ptr k q) len = bs" by (simp add: k3_def)
  moreover have "opened k3 fd i j (n + len)"
    using o assms(4) fd_slot_cong [of k3 k fd] by (simp add: opened_def k3_def)
  moreover have "tf_eax (tf (cur k3)) = word_of_nat len" by (simp add: k3_def set_eax_def)
  moreover have "inodes (fs k3) j = ?ino" by (simp add: k3_def)
  moreover have "sysFileTable k3 ! m = sysFileTable k ! m" if "m \<noteq> i" for m using that by (simp add: k3_def)
  ultimately show ?thesis using w s r bs by (auto simp: written_def)
qed


section \<open>Opening and closing\<close>

text \<open>The first free entry of the open file table, and the lowest free descriptor of the process from 3 on.\<close>

definition lowest_entry :: "kernel \<Rightarrow> nat \<Rightarrow> bool" where
  "lowest_entry k s \<longleftrightarrow> s < 512 \<and> inode_index (sysFileTable k ! s) = -1 \<and> (\<forall>m < s. inode_index (sysFileTable k ! m) \<noteq> -1)"

definition lowest_fd :: "kernel \<Rightarrow> nat \<Rightarrow> bool" where
  "lowest_fd k d \<longleftrightarrow> 3 \<le> d \<and> d < 8 \<and> filepointer (cur k) ! d = -1 \<and> (\<forall>e. 3 \<le> e \<and> e < d \<longrightarrow> filepointer (cur k) ! e \<noteq> -1)"

lemma find_range: "find P [a..<b] = Some i \<longleftrightarrow> a \<le> i \<and> i < b \<and> P i \<and> (\<forall>j. a \<le> j \<and> j < i \<longrightarrow> \<not> P j)"
proof -
  have "find P [a..<b] = Some i \<longleftrightarrow> (\<exists>n < b - a. i = a + n \<and> P (a + n) \<and> (\<forall>j<n. \<not> P (a + j)))"
    by (auto simp: find_Some_iff)
  also have "\<dots> \<longleftrightarrow> a \<le> i \<and> i < b \<and> P i \<and> (\<forall>j. a \<le> j \<and> j < i \<longrightarrow> \<not> P j)" (is "?l \<longleftrightarrow> ?r")
  proof
    assume ?l
    then obtain n where n: "n < b - a" "i = a + n" "P (a + n)" "\<forall>j<n. \<not> P (a + j)" by blast
    have "\<not> P j" if "a \<le> j" "j < i" for j using n(4) [rule_format, of "j - a"] that n(2) by simp
    then show ?r using n by simp
  next
    assume r: ?r
    then show ?l by (intro exI [of _ "i - a"]) auto
  qed
  finally show ?thesis .
qed

text \<open>A search for the first index, -1 when there is none.\<close>

lemma first_index:
  "(case find P [a..<b] of None \<Rightarrow> -1 | Some i \<Rightarrow> int i) = int s \<longleftrightarrow> a \<le> s \<and> s < b \<and> P s \<and> (\<forall>j. a \<le> j \<and> j < s \<longrightarrow> \<not> P j)"
  "(case find P [a..<b] of None \<Rightarrow> -1 | Some i \<Rightarrow> int i) = -1 \<longleftrightarrow> (\<forall>j. a \<le> j \<and> j < b \<longrightarrow> \<not> P j)"
  "(case find P [a..<b] of None \<Rightarrow> -1 | Some i \<Rightarrow> int i) = -1 \<or> (\<exists>s. (case find P [a..<b] of None \<Rightarrow> -1 | Some i \<Rightarrow> int i) = int s)"
  using find_range [of P a b s] by (auto simp: find_None_iff split: option.splits) (auto simp: find_range)

lemma getAvl_lowest: "getAvlSystemFile k = int s \<longleftrightarrow> lowest_entry k s" "getAvlFilepointer k = int d \<longleftrightarrow> lowest_fd k d"
  unfolding getAvlSystemFile_def getAvlFilepointer_def first_index lowest_entry_def lowest_fd_def by blast+

lemma getAvl_none:
  "getAvlSystemFile k = -1 \<longleftrightarrow> (\<forall>s<512. inode_index (sysFileTable k ! s) \<noteq> -1)"
  "getAvlFilepointer k = -1 \<longleftrightarrow> (\<forall>d. 3 \<le> d \<and> d < 8 \<longrightarrow> filepointer (cur k) ! d \<noteq> -1)"
  unfolding getAvlSystemFile_def getAvlFilepointer_def first_index by blast+

lemma getAvl_cases:
  "getAvlSystemFile k = -1 \<or> (\<exists>s. getAvlSystemFile k = int s)" "getAvlFilepointer k = -1 \<or> (\<exists>d. getAvlFilepointer k = int d)"
  unfolding getAvlSystemFile_def getAvlFilepointer_def by (rule first_index(3))+

lemma install_file_fields:
  assumes "s < length (sysFileTable k)" and "s < 512" and "d < 8" and "length (filepointer (cur k)) = 8" and "j < 32"
  shows "tf_eax (tf (cur (install_file (int j) s d k))) = word_of_nat d"
    and "opened (install_file (int j) s d k) (int d) s j 0"
    and "link_num (sysFileTable (install_file (int j) s d k) ! s) = 1"
    and "fs (install_file (int j) s d k) = fs k"
    and "filepointer (cur (install_file (int j) s d k)) = (filepointer (cur k))[d := int s]"
    and "m \<noteq> s \<Longrightarrow> sysFileTable (install_file (int j) s d k) ! m = sysFileTable k ! m"
    and "p \<noteq> current k \<Longrightarrow> pcbs (install_file (int j) s d k) p = pcbs k p"
    and "mem (install_file (int j) s d k) = mem k" and "scr (install_file (int j) s d k) = scr k"
    and "current (install_file (int j) s d k) = current k"
  using assms by (simp_all add: install_file_def Let_def opened_def fd_slot_def set_eax_def)

text \<open>The file of an open: found, or made in a free inode.\<close>

definition openable :: "filesys \<Rightarrow> nat \<Rightarrow> u8 list \<Rightarrow> nat \<Rightarrow> bool" where
  "openable f p n j \<longleftrightarrow> dir_lookup f p n FL = Some j
     \<or> dir_lookup f p n FL = None \<and> free_inode f = Some j \<and> free_dent (inodes f p) \<noteq> None"

text \<open>What opening the file \<open>n\<close> of directory \<open>p\<close> as inode \<open>j\<close> leaves as it was: the bytes of the file, every directory.\<close>

definition found_file :: "filesys \<Rightarrow> filesys \<Rightarrow> nat \<Rightarrow> u8 list \<Rightarrow> nat \<Rightarrow> bool" where
  "found_file f f' p n j \<longleftrightarrow> fs_ok f' \<and> dir_lookup f' p n FL = Some j \<and> j < 32 \<and> itype (inodes f' j) = FL
     \<and> isz (inodes f' j) = isz (inodes f j) \<and> idata (inodes f' j) = idata (inodes f j)
     \<and> sb_id (superb f') = sb_id (superb f)
     \<and> (\<forall>q < 32. itype (inodes f q) = DIR \<longrightarrow> itype (inodes f' q) = DIR
          \<and> (\<forall>a. used (inodes f q) a \<longrightarrow> used (inodes f' q) a)
          \<and> (\<forall>nm. dir_lookup f' q nm DIR = dir_lookup f q nm DIR))"

lemma found_file_same:
  assumes "fs_ok f" and "p < 32" and "itype (inodes f p) = DIR" and "dir_lookup f p n FL = Some j" and "same_files f f'"
  shows "found_file f f' p n j"
  using assms dir_lookup_Some [OF dirs_okD [OF fs_ok_dirs [OF assms(1)] assms(2,3)] assms(4)]
    dir_lookup_same [OF same_files_inodes [OF assms(5)]] fs_ok_same [OF assms(1,5)]
  by (auto simp: found_file_def same_files_def)

lemma found_file_added:
  assumes a: "file_added f f' p i j n" and c: "can_add f p i j" and n: "n \<noteq> []" and new: "dir_lookup f p n FL = None"
  shows "found_file f f' p n j"
proof -
  have p: "p < 32" "itype (inodes f p) = DIR" "j < 32" using c by (auto simp: can_add_def)
  have jp: "j \<noteq> p" "itype (inodes f j) \<noteq> DIR" using can_add_new [OF c] by blast+
  obtain bs nm where b: "length bs = 28" "cstr bs = n" "sb_id (superb f') = sb_id (superb f)"
    and i: "inodes f' = (inodes f)(p := new_dent (inodes f p) i (word_of_nat j) bs, j := (inodes f j)\<lparr>itype := FL, iname := nm\<rparr>)"
    using a by (auto simp: file_added_def entry_added_def)
  note lk = file_added_lookup [OF a c n new]
  show ?thesis
    using file_added_fs_ok [OF a c n] p jp b n lk [OF p(1,2), of n FL] lk
    unfolding found_file_def by (auto simp: i)
qed

lemma found_file_trans:
  assumes "same_files f f1" and "found_file f1 f2 p n j" and "same_files f2 f3"
  shows "found_file f f3 p n j"
  using assms fs_ok_same [OF _ assms(3)] dir_lookup_same [OF same_files_inodes [OF assms(1)]]
    dir_lookup_same [OF same_files_inodes [OF assms(3)]]
  by (auto simp: found_file_def same_files_def)

lemma open_finds:
  assumes ok: "fs_ok f" and d: "\<forall>d\<in>set ds. component d" and n: "file_name n" and up: "resolve f 0 ds = Some p"
    and o: "openable f p n j"
  shows "\<exists>there f1 f2 f3. isFLExist f (render ds n r) = Inr (there, f1)
    \<and> (if \<not> there then makeFL f1 (render ds n r) None else Inr f1) = Inr f2
    \<and> findCurrentFLPos f2 (render ds n r) = Inr (int j, f3) \<and> found_file f f3 p n j"
proof -
  note ln = file_name_last [OF n]
  have p: "p < 32" "itype (inodes f p) = DIR"
    using resolve_dir [OF fs_ok_dirs [OF ok] _ _ up] fs_ok_dirs [OF ok] by (auto simp: dirs_ok_def)
  obtain f1 where s1: "same_files f f1" and i1: "findCurrentFLPos f (render ds n r) = Inr (index_of (dir_lookup f p n FL), f1)"
    using findCurrentFLPos_spec [OF fs_ok_dirs [OF ok] d ln, of r] up by auto
  have ok1: "fs_ok f1" by (rule fs_ok_same [OF ok s1])
  have e1: "inodes f1 = inodes f" "superb f1 = superb f" using s1 by (simp_all add: same_files_def)
  have up1: "resolve f1 0 ds = Some p" using up by (simp add: resolve_same [OF e1(1)])
  have lk: "dir_lookup f' p n FL = dir_lookup f p n FL" if "inodes f' = inodes f" for f'
    by (rule dir_lookup_same [OF that])
  have fin: "\<exists>f3. findCurrentFLPos f2 (render ds n r) = Inr (int j, f3) \<and> found_file f f3 p n j"
    if a: "found_file f1 f2 p n j" "resolve f2 0 ds = Some p" for f2
  proof -
    have "fs_ok f2" "dir_lookup f2 p n FL = Some j" using a(1) by (simp_all add: found_file_def)
    then obtain f3 where "same_files f2 f3" "findCurrentFLPos f2 (render ds n r) = Inr (int j, f3)"
      using findCurrentFLPos_spec [OF fs_ok_dirs d ln, of f2 r] a(2) by auto
    then show ?thesis using found_file_trans [OF s1 a(1)] by blast
  qed
  show ?thesis
  proof (cases "dir_lookup f p n FL")
    case (Some m)
    then have m: "m = j" using o by (simp add: openable_def)
    have "found_file f1 f1 p n j"
      using found_file_same [OF ok1] p e1 lk [OF e1(1)] Some m ok1 by (simp add: same_files_def fs_ok_def dirs_ok_def)
    moreover have "isFLExist f (render ds n r) = Inr (True, f1)" using i1 Some by (simp add: isFLExist_def)
    ultimately show ?thesis using fin [OF _ up1] by auto
  next
    case None
    then have k: "free_inode f1 = Some j" and "\<exists>i. free_dent (inodes f1 p) = Some i"
      using o by (auto simp: openable_def e1 free_inode_def)
    then obtain i where i: "free_dent (inodes f1 p) = Some i" by blast
    have c: "can_add f1 p i j" by (rule can_addI [OF ok1 up1 k i])
    have nn: "n \<noteq> []" using n by (simp add: file_name_def)
    have none1: "dir_lookup f1 p n FL = None" using None lk [OF e1(1)] by simp
    obtain f2 where m: "makeFL f1 (render ds n r) None = Inr f2" and a: "file_added f1 f2 p i j n"
      using makeFL_spec [OF ok1 d n up1 k i] by blast
    have d0: "(0::nat) < 32" "itype (inodes f1 0) = DIR" using fs_ok_dirs [OF ok1] by (simp_all add: dirs_ok_def)
    have "resolve f2 0 ds = Some p" using file_added_resolve [OF a c nn none1 d0] up1 by simp
    moreover have "found_file f1 f2 p n j" by (rule found_file_added [OF a c nn none1])
    moreover have "isFLExist f (render ds n r) = Inr (False, f1)" using i1 None by (simp add: isFLExist_def)
    ultimately show ?thesis using fin m by auto
  qed
qed

lemma open_aux_ok:
  assumes "fs_ok (fs k)" and "\<forall>d\<in>set ds. component d" and "file_name n" and "resolve (fs k) 0 ds = Some p"
    and "openable (fs k) p n j"
  shows "\<exists>f. found_file (fs k) f p n j \<and> open_aux (render ds n r) flags k =
    require (\<not> (getAvlSystemFile k = -1 \<or> getAvlFilepointer k = -1)) (AssertFail ''irqHandle.c'' 111)
      (Inr (install_file (int j) (nat (getAvlSystemFile k)) (nat (getAvlFilepointer k)) (k\<lparr>fs := f\<rparr>)))"
proof -
  obtain there f1 f2 f3 where f: "isFLExist (fs k) (render ds n r) = Inr (there, f1)"
    "(if \<not> there then makeFL f1 (render ds n r) None else Inr f1) = Inr f2"
    "findCurrentFLPos f2 (render ds n r) = Inr (int j, f3)" "found_file (fs k) f3 p n j"
    using open_finds [OF assms] by blast
  have "open_aux (render ds n r) flags k = require (\<not> (getAvlSystemFile k = -1 \<or> getAvlFilepointer k = -1))
      (AssertFail ''irqHandle.c'' 111)
      (Inr (install_file (int j) (nat (getAvlSystemFile k)) (nat (getAvlFilepointer k)) (k\<lparr>fs := f3\<rparr>)))"
    unfolding open_aux_def by (simp only: f(1-3) bind_r_Inr prod.case Let_def)
  then show ?thesis using f(4) by blast
qed

text \<open>C32: \<open>open\<close> of a path whose directories exist finds the file, or makes it where an inode and a directory entry are free, keeping the
  bytes of the inode either way, and gives the program the lowest free descriptor from 3 on, standing at position 0 of the first free entry of the open file table with one link; all other descriptors and
  entries, the other processes, memory and the screen stay. If the 5 descriptors of the process or the 512 entries are
  used up, it stops the machine instead of failing.\<close>

theorem open_correct:
  assumes "fs_ok (fs k)" and "\<forall>d\<in>set ds. component d" and "file_name n" and "resolve (fs k) 0 ds = Some p"
    and "openable (fs k) p n j" and "length (sysFileTable k) = 512" and "length (filepointer (cur k)) = 8"
  shows "if (\<forall>s<512. inode_index (sysFileTable k ! s) \<noteq> -1) \<or> (\<forall>d. 3 \<le> d \<and> d < 8 \<longrightarrow> filepointer (cur k) ! d \<noteq> -1)
    then open_aux (render ds n r) flags k = Inl (AssertFail ''irqHandle.c'' 111)
    else \<exists>k' s d. open_aux (render ds n r) flags k = Inr k' \<and> tf_eax (tf (cur k')) = word_of_nat d
      \<and> 3 \<le> d \<and> d < 8 \<and> filepointer (cur k) ! d = -1 \<and> (\<forall>e. 3 \<le> e \<and> e < d \<longrightarrow> filepointer (cur k) ! e \<noteq> -1)
      \<and> s < 512 \<and> inode_index (sysFileTable k ! s) = -1 \<and> (\<forall>m < s. inode_index (sysFileTable k ! m) \<noteq> -1)
      \<and> opened k' (int d) s j 0 \<and> link_num (sysFileTable k' ! s) = 1
      \<and> fs_ok (fs k') \<and> dir_lookup (fs k') p n FL = Some j \<and> found_file (fs k) (fs k') p n j
      \<and> filepointer (cur k') = (filepointer (cur k))[d := int s]
      \<and> (\<forall>m. m \<noteq> s \<longrightarrow> sysFileTable k' ! m = sysFileTable k ! m)
      \<and> current k' = current k \<and> (\<forall>q. q \<noteq> current k \<longrightarrow> pcbs k' q = pcbs k q) \<and> mem k' = mem k \<and> scr k' = scr k"
proof -
  obtain f3 where ff: "found_file (fs k) f3 p n j"
    and e: "open_aux (render ds n r) flags k = require (\<not> (getAvlSystemFile k = -1 \<or> getAvlFilepointer k = -1))
      (AssertFail ''irqHandle.c'' 111)
      (Inr (install_file (int j) (nat (getAvlSystemFile k)) (nat (getAvlFilepointer k)) (k\<lparr>fs := f3\<rparr>)))"
    using open_aux_ok [OF assms(1-5)] by blast
  have f: "fs_ok f3" "dir_lookup f3 p n FL = Some j" "j < 32" using ff by (simp_all add: found_file_def)
  show ?thesis
  proof (cases "getAvlSystemFile k = -1 \<or> getAvlFilepointer k = -1")
    case True
    then show ?thesis by (simp add: e getAvl_none [symmetric])
  next
    case False
    then obtain s d where sd: "getAvlSystemFile k = int s" "getAvlFilepointer k = int d" using getAvl_cases [of k] by blast
    then have s: "s < 512" "inode_index (sysFileTable k ! s) = -1" "\<forall>m < s. inode_index (sysFileTable k ! m) \<noteq> -1"
      and d: "3 \<le> d" "d < 8" "filepointer (cur k) ! d = -1" "\<forall>e. 3 \<le> e \<and> e < d \<longrightarrow> filepointer (cur k) ! e \<noteq> -1"
      by (simp_all add: getAvl_lowest lowest_entry_def lowest_fd_def)
    let ?k = "k\<lparr>fs := f3\<rparr>"
    have o: "open_aux (render ds n r) flags k = Inr (install_file (int j) s d ?k)"
      using False by (simp add: e sd)
    have l: "s < length (sysFileTable ?k)" "length (filepointer (cur ?k)) = 8" using assms s by simp_all
    note i = install_file_fields [OF l(1) s(1) d(2) l(2) f(3)]
    show ?thesis unfolding getAvl_none [symmetric] if_not_P [OF False]
      by (intro exI [of _ "install_file (int j) s d ?k"] exI [of _ s] exI [of _ d] conjI)
        (use o i f(1,2) ff s d in simp_all)
  qed
qed

text \<open>The first process with the empty file system, and when it has opened \<open>/a\<close>.\<close>

definition fs_kernel :: kernel where
  "fs_kernel = user_kernel\<lparr>fs := root_fs\<rparr>"

lemma fs_kernel_ok: "fs fs_kernel = root_fs" "length (sysFileTable fs_kernel) = 512"
  "filepointer (cur fs_kernel) = replicate 8 (-1)" "getAvlSystemFile fs_kernel = 0" "getAvlFilepointer fs_kernel = 3"
  "openable (fs fs_kernel) 0 [97] 1" "pid (cur fs_kernel) = 1" "mem fs_kernel = (\<lambda>i. 0)"
proof -
  have t: "sysFileTable fs_kernel = replicate 512 \<lparr>inode_index = -1, link_num = 0, offset = 0\<rparr>"
    and fp: "filepointer (cur fs_kernel) = replicate 8 (-1)" and p: "pid (cur fs_kernel) = 1"
    using user_kernel_fields user_kernel_ok by (simp_all add: fs_kernel_def)
  then show "length (sysFileTable fs_kernel) = 512" "filepointer (cur fs_kernel) = replicate 8 (-1)" "pid (cur fs_kernel) = 1"
    by simp_all
  show "getAvlSystemFile fs_kernel = 0" unfolding getAvlSystemFile_def t by (simp add: upt_conv_Cons)
  show "getAvlFilepointer fs_kernel = 3" unfolding getAvlFilepointer_def fp by (simp add: upt_conv_Cons)
  show "openable (fs fs_kernel) 0 [97] 1" using root_a_free by (simp add: openable_def fs_kernel_def)
  show "fs fs_kernel = root_fs" "mem fs_kernel = (\<lambda>i. 0)" by (simp_all add: fs_kernel_def user_kernel_fields)
qed

theorem open_correct_witness:
  "\<exists>k' s. open_aux [slash, 97, 0] 0 fs_kernel = Inr k' \<and> opened k' 3 s 1 0 \<and> tf_eax (tf (cur k')) = 3"
proof -
  have "fs_ok (fs fs_kernel)" "resolve (fs fs_kernel) 0 [] = Some 0"
    using root_fs_ok(2) by (simp_all add: fs_kernel_ok(1))
  note o = open_correct [OF this(1) root_a_free(1) name_a(1) this(2) fs_kernel_ok(6,2), of "[]" 0]
  have l: "length (filepointer (cur fs_kernel)) = 8" by (simp add: fs_kernel_ok(3))
  have a: "\<not> ((\<forall>s<512. inode_index (sysFileTable fs_kernel ! s) \<noteq> -1)
      \<or> (\<forall>d. 3 \<le> d \<and> d < 8 \<longrightarrow> filepointer (cur fs_kernel) ! d \<noteq> -1))"
    unfolding getAvl_none [symmetric] by (simp add: fs_kernel_ok(4,5))
  obtain k' s d where k': "open_aux [slash, 97, 0] 0 fs_kernel = Inr k'" "tf_eax (tf (cur k')) = word_of_nat d"
    "3 \<le> d" "\<forall>e. 3 \<le> e \<and> e < d \<longrightarrow> filepointer (cur fs_kernel) ! e \<noteq> -1" "opened k' (int d) s 1 0"
    using o [OF l] unfolding name_a(2) if_not_P [OF a] by blast
  have "d = 3" using k'(3,4) by (cases "d = 3") (auto simp: fs_kernel_ok(3))
  then show ?thesis using k' by auto
qed

text \<open>A kernel with descriptor 3 on inode 1.\<close>

definition open_kernel :: kernel where
  "open_kernel = install_file 1 0 3 (user_kernel\<lparr>fs := one_fs\<rparr>)"

lemma open_kernel_ok: "opened open_kernel 3 0 1 0" "isz (inodes (fs open_kernel) 1) = 0"
  "link_num (sysFileTable open_kernel ! 0) = 1" "length (filepointer (cur open_kernel)) = 8"
  "user_ptr open_kernel p = unat p" "mem open_kernel = (\<lambda>i. 0)"
proof -
  let ?k = "user_kernel\<lparr>fs := one_fs\<rparr>"
  have u: "length (sysFileTable user_kernel) = 512" using user_kernel_fields(10) by simp
  have f: "filepointer (cur user_kernel) = replicate 8 (-1)" "pid (cur user_kernel) = 1"
    using user_kernel_fields(11,12) by blast+
  have i: "(0::nat) < length (sysFileTable ?k)" "(0::nat) < 512" "(3::nat) < 8" "length (filepointer (cur ?k)) = 8" "(1::nat) < 32"
    using u f(1) by (simp_all del: length_greater_0_conv)
  note n = install_file_fields [OF i]
  show "opened open_kernel 3 0 1 0" using n(2) by (simp add: open_kernel_def)
  show "isz (inodes (fs open_kernel) 1) = 0" using n(4) one_fs_ok(8) by (simp add: open_kernel_def)
  show "link_num (sysFileTable open_kernel ! 0) = 1" using n(3) by (simp add: open_kernel_def)
  show "length (filepointer (cur open_kernel)) = 8" using n(5) f(1) by (simp add: open_kernel_def)
  have "pid (cur open_kernel) = 1" "mem open_kernel = (\<lambda>i. 0)" using f(2)
    by (simp_all add: open_kernel_def install_file_def Let_def user_kernel_fields)
  then show "user_ptr open_kernel p = unat p" "mem open_kernel = (\<lambda>i. 0)" by (simp_all add: user_ptr_def)
qed

theorem write_seek_read_witness:
  "\<exists>k1 k2 k3. write_aux 3 0x250000 5 open_kernel = Inr k1 \<and> lseek_aux 3 0 0 k1 = Inr k2
    \<and> read_aux 0 3 0x260000 5 [] k2 = Inr (k3, []) \<and> opened k3 3 0 1 5"
proof -
  have "unat (isz (inodes (fs open_kernel) 1)) \<le> 32768" unfolding open_kernel_ok(2) by simp
  moreover have "user_area (user_ptr open_kernel 0x250000) 5" "user_area (user_ptr open_kernel 0x260000) 5"
    by (simp_all add: open_kernel_ok(5) user_area_def)
  ultimately show ?thesis using write_seek_read [OF open_kernel_ok(1), of 5 "0x250000" "0x260000" 0 "[]"] by fastforce
qed

lemma cleared_entry: "(e :: sysFile)\<lparr>link_num := 0, inode_index := -1, offset := 0\<rparr> =
    \<lparr>inode_index = -1, link_num = 0, offset = 0\<rparr>"
  by (cases e) simp

lemma close_aux_ok:
  assumes "opened k fd i j n" and "link_num (sysFileTable k ! i) = int (Suc l)" and "Suc l < 2147483648"
    and "length (filepointer (cur k)) = 8"
  shows "\<exists>k'. close_aux fd k = Inr k' \<and> tf_eax (tf (cur k')) = 0 \<and> fs k' = fs k
    \<and> mem k' = mem k \<and> scr k' = scr k \<and> pid (cur k') = pid (cur k)
    \<and> length (sysFileTable k') = length (sysFileTable k)
    \<and> filepointer (cur k') = (filepointer (cur k))[nat fd := -1] \<and> fd_slot k' fd = Inl OutOfBounds
    \<and> sysFileTable k' ! i = (if l = 0 then \<lparr>inode_index = -1, link_num = 0, offset = 0\<rparr>
          else (sysFileTable k ! i)\<lparr>link_num := int l\<rparr>)
    \<and> sys_file_num k' = (if l = 0 then wrap32 (sys_file_num k - 1) else sys_file_num k)
    \<and> (\<forall>m. m \<noteq> i \<longrightarrow> sysFileTable k' ! m = sysFileTable k ! m)"
proof -
  have o: "fd_slot k fd = Inr i" "i < length (sysFileTable k)" using assms(1) by (simp_all add: opened_def)
  have fd: "0 \<le> fd" "fd < 8" using fd_slot_SomeD [OF o(1)] by simp_all
  have w: "wrap32 (int (Suc l) - 1) = int l" using assms(3) by (subst wrap32_id) auto
  let ?t = "(sysFileTable k)[i := (if l = 0 then \<lparr>inode_index = -1, link_num = 0, offset = 0\<rparr>
          else (sysFileTable k ! i)\<lparr>link_num := int l\<rparr>)]"
  have d: "sysFileTable (drop_link i k) = ?t" "pcbs (drop_link i k) = pcbs k" "current (drop_link i k) = current k"
    "fs (drop_link i k) = fs k" "mem (drop_link i k) = mem k" "scr (drop_link i k) = scr k" "sys_file_num (drop_link i k) = (if l = 0 then wrap32 (sys_file_num k - 1) else sys_file_num k)"
    using w o(2) assms(2) by (simp_all add: drop_link_def Let_def cleared_entry)
  define k' where "k' = set_eax 0 (upd_pcb (current k) (\<lambda>b. b\<lparr>filepointer := (filepointer b)[nat fd := -1],
              fp_num := wrap32 (fp_num b - 1)\<rparr>) (drop_link i k))"
  have c: "close_aux fd k = Inr k'" by (simp add: close_aux_def o(1) k'_def)
  have "current k' = current k" "tf_eax (tf (pcbs k' (current k))) = 0"
    "filepointer (pcbs k' (current k)) = (filepointer (cur k))[nat fd := -1]"
    by (simp_all add: k'_def set_eax_def d)
  moreover from this have "fd_slot k' fd = Inl OutOfBounds" using fd assms(4) by (simp add: fd_slot_def)
  moreover have "fs k' = fs k" "mem k' = mem k" "scr k' = scr k" "pid (pcbs k' (current k)) = pid (cur k)" "sysFileTable k' = ?t" "sys_file_num k' = sys_file_num (drop_link i k)"
    by (simp_all add: k'_def d)
  ultimately show ?thesis using c o(2) by (intro exI [of _ k']) (simp add: d)
qed

text \<open>\<open>close\<close> takes the descriptor from the process and one link from the entry of the open file table. Only the
  last link frees the entry: a descriptor that the parent or the child still has goes on. Using the closed
  descriptor is an access outside the table.\<close>

lemma close_correct:
  assumes "opened k fd i j n" and "link_num (sysFileTable k ! i) = int (Suc l)" and "Suc l < 2147483648"
    and "length (filepointer (cur k)) = 8"
  shows "\<exists>k'. close_aux fd k = Inr k' \<and> tf_eax (tf (cur k')) = 0 \<and> fs k' = fs k
    \<and> filepointer (cur k') = (filepointer (cur k))[nat fd := -1] \<and> fd_slot k' fd = Inl OutOfBounds
    \<and> sysFileTable k' ! i = (if l = 0 then \<lparr>inode_index = -1, link_num = 0, offset = 0\<rparr>
          else (sysFileTable k ! i)\<lparr>link_num := int l\<rparr>)
    \<and> sys_file_num k' = (if l = 0 then wrap32 (sys_file_num k - 1) else sys_file_num k)
    \<and> (\<forall>m. m \<noteq> i \<longrightarrow> sysFileTable k' ! m = sysFileTable k ! m)"
  using close_aux_ok [OF assms] by blast

lemma close_correct_witness: "\<exists>k'. close_aux 3 open_kernel = Inr k' \<and> fd_slot k' 3 = Inl OutOfBounds
    \<and> inode_index (sysFileTable k' ! 0) = -1"
proof -
  have "link_num (sysFileTable open_kernel ! 0) = int (Suc 0)" by (simp add: open_kernel_ok(3))
  from close_correct [OF open_kernel_ok(1) this _ open_kernel_ok(4)] show ?thesis by auto
qed

end
