(* ===== verification/Listing.thy ===== *)
theory Listing
  imports Filing Files
begin

text \<open>
  The properties of \<open>ls\<close> and \<open>cat\<close>: what they show on the screen is what the file system holds.
\<close>

section \<open>The entries of a directory\<close>

text \<open>The path of a directory: the root, or a name that is looked up in the directory before it.\<close>

definition dir_path :: "filesys \<Rightarrow> u8 list \<Rightarrow> nat \<Rightarrow> bool" where
  "dir_path f path j \<longleftrightarrow> terminated path \<and> cstr path = [slash] \<and> j = 0
     \<or> (\<exists>ds n r p. path = render ds n r \<and> (\<forall>d\<in>set ds. component d) \<and> last_name n
          \<and> resolve f 0 ds = Some p \<and> dir_lookup f p n DIR = Some j)"

lemma dir_path_found:
  assumes "fs_ok f" and "dir_path f path j"
  shows "j < 32 \<and> itype (inodes f j) = DIR \<and> (\<exists>f'. same_files f f' \<and> findCurrentDirPos f path = Inr (int j, f'))"
  using assms(2) unfolding dir_path_def
proof (elim disjE exE conjE)
  assume p: "terminated path" "cstr path = [slash]" "j = 0"
  have "terminated root_path" "cstr root_path = [slash]" by (simp_all add: root_path_def)
  then have "strcmp path root_path = Inr 0" using p by (simp add: strcmp_eq cmp_str_0_iff)
  then have "findCurrentDirPos f path = Inr (int j, f)" using p(3) by (simp add: findCurrentDirPos_def)
  moreover have "itype (inodes f 0) = DIR" "same_files f f"
    using fs_ok_dirs [OF assms(1)] by (simp_all add: dirs_ok_def same_files_refl)
  ultimately show ?thesis using p(3) by auto
next
  fix ds n r p
  assume p: "path = render ds n r" "\<forall>d\<in>set ds. component d" "last_name n" "resolve f 0 ds = Some p" "dir_lookup f p n DIR = Some j"
  have "p < 32" "itype (inodes f p) = DIR"
    using resolve_dir [OF fs_ok_dirs [OF assms(1)] _ _ p(4)] fs_ok_dirs [OF assms(1)] by (auto simp: dirs_ok_def)
  then have "j < 32 \<and> itype (inodes f j) = DIR"
    using dir_lookup_Some [OF dirs_okD [OF fs_ok_dirs [OF assms(1)]] p(5)] by simp
  then show ?thesis
    using findCurrentDirPos_spec [OF fs_ok_dirs [OF assms(1)] p(2,3), of r] p(1,4,5) by auto
qed

definition listing :: "inodeblock \<Rightarrow> nat \<Rightarrow> u8 list" where
  "listing ino i = concat (map (\<lambda>i. cstr (dent_name ino i) @ [9]) (filter (used ino) [i..<1024]))"

lemma put_text_append: "put_text (s @ t) v = put_text t (put_text s v)"
  by (simp add: put_text_def)

lemma print_name:
  assumes "terminated s"
  shows "printQ (c_lit [CHR ''%'', CHR ''s'', CHR 0x09]) [Str s] v = Inr (put_text (cstr s @ [9]) v)"
  using assms by (intro printQ_text) (simp add: c_lit_def arg_text_def)

lemma print_newline: "printQ (c_lit [CHR 0x0A]) [] v = Inr (put_text [10] v)"
  by (intro printQ_text) (simp add: c_lit_def)

lemma listing_step: "i < 1024 \<Longrightarrow> listing ino i =
    (if used ino i then cstr (dent_name ino i) @ [9] else []) @ listing ino (i + 1)"
  by (simp add: listing_def upt_conv_Cons)

lemma ls_from_listing:
  assumes "dir_ok ino"
  shows "i \<le> 1024 \<Longrightarrow> ls_from ino i (used_count ino i) s = Inr (put_text (listing ino i) s)"
proof (induction "1024 - i" arbitrary: i s)
  case 0
  then have "i = 1024" by simp
  then show ?case using assms by (simp add: ls_from.simps [of ino 1024 "used_count ino 1024"] dir_ok_def listing_def put_text_def)
next
  case (Suc d)
  then have i: "i < 1024" by simp
  have n: "unat (isz ino) = used_count ino i + length (filter (used ino) [i..<1024])"
    using assms used_count_split [of i 1024 ino] i by (simp add: dir_ok_def)
  show ?case
  proof (cases "filter (used ino) [i..<1024] = []")
    case True
    then have "unat (isz ino) = used_count ino i" "listing ino i = []" using n by (simp_all add: listing_def)
    then show ?thesis by (simp add: ls_from.simps [of ino i] put_text_def)
  next
    case False
    then have l: "used_count ino i < unat (isz ino)" using n by simp
    have t: "terminated (dent_name ino i)" using assms i by (simp add: dir_ok_def dents_okD)
    obtain c where c: "strcmp (dent_name ino i) [0, 0] = Inr c" "c \<noteq> 0 \<longleftrightarrow> used ino i"
      using strcmp_empty [OF t] by (auto simp: used_def)
    have IH: "ls_from ino (Suc i) (used_count ino (Suc i)) s' = Inr (put_text (listing ino (Suc i)) s')" for s'
      using Suc i by (intro Suc.hyps) auto
    show ?thesis
    proof (cases "used ino i")
      case True
      then show ?thesis using l i c IH print_name [OF t]
        by (simp add: ls_from.simps [of ino i "used_count ino i"] listing_step [OF i] put_text_def)
    next
      case False
      then show ?thesis using l i c IH
        by (simp add: ls_from.simps [of ino i "used_count ino i"] listing_step [OF i])
    qed
  qed
qed

lemma ls_aux_ok:
  assumes "fs_ok (fs k)" and "dir_path (fs k) path j" and "used (inodes (fs k) j) 0" and "used (inodes (fs k) j) 1"
  shows "\<exists>f. same_files (fs k) f
    \<and> ls_aux path k = Inr (k\<lparr>fs := f, scr := put_text (listing (inodes (fs k) j) 2 @ [10]) (scr k)\<rparr>)"
proof -
  obtain f where j: "j < 32" "itype (inodes (fs k) j) = DIR" and f: "same_files (fs k) f" "findCurrentDirPos (fs k) path = Inr (int j, f)"
    using dir_path_found [OF assms(1,2)] by auto
  let ?ino = "inodes (fs k) j"
  have "inodes f j = ?ino" using f(1) by (simp add: same_files_def)
  have d: "dir_ok ?ino" by (rule dirs_okD [OF fs_ok_dirs [OF assms(1)] j])
  have "used_count ?ino 2 = 2" using assms(3,4) by (simp add: numeral_2_eq_2)
  then have "ls_from ?ino 2 2 (scr k) = Inr (put_text (listing ?ino 2) (scr k))"
    using ls_from_listing [OF d, of 2 "scr k"] by simp
  moreover have "inode_at f (int j) = Inr ?ino" using j(1) \<open>inodes f j = ?ino\<close> by simp
  ultimately have "ls_aux path k = Inr (k\<lparr>fs := f, scr := put_text [10] (put_text (listing ?ino 2) (scr k))\<rparr>)"
    unfolding ls_aux_def f(2) by (simp only: bind_r_Inr prod.case print_newline)
  then show ?thesis using f(1) unfolding put_text_append by blast
qed

text \<open>C34: \<open>ls\<close> of a directory whose first two entries are in use, as \<open>makeDir\<close> leaves them, shows the names of all the other
  entries in use in their order, each with a tab, then a newline; nothing else of the kernel changes but the globals in which the walk keeps
  the name of a directory.\<close>

theorem ls_shows_names:
  assumes "fs_ok (fs k)" and "dir_path (fs k) path j" and "used (inodes (fs k) j) 0" and "used (inodes (fs k) j) 1"
  shows "\<exists>f. same_files (fs k) f
    \<and> ls_aux path k = Inr (k\<lparr>fs := f, scr := put_text (concat (map (\<lambda>i. cstr (dent_name (inodes (fs k) j) i) @ [9])
        (filter (used (inodes (fs k) j)) [2..<1024])) @ [10]) (scr k)\<rparr>)"
  using ls_aux_ok [OF assms] unfolding listing_def [symmetric] .

lemma root_fs_used: "i < 1024 \<Longrightarrow> used (inodes root_fs 0) i \<longleftrightarrow> i < 2"
proof -
  obtain ino where "inodes root_fs = (inodes zero_fs)(0 := ino)" "root_inode (inodes zero_fs 0) ino"
    using makeRootDir_spec [OF zero_blank] root_fs_ok(1) by auto
  moreover have "\<forall>i<1024. \<not> used (inodes zero_fs 0) i" using zero_blank by (simp add: blank_def)
  ultimately show "i < 1024 \<Longrightarrow> ?thesis" using dir_inode_used by simp
qed

text \<open>The empty file system shows an empty line.\<close>

theorem ls_shows_names_witness:
  "\<exists>k'. ls_aux [slash, 0] (user_kernel\<lparr>fs := root_fs\<rparr>) = Inr k' \<and> scr k' = put_text [10] zero_screen"
proof -
  let ?k = "user_kernel\<lparr>fs := root_fs\<rparr>"
  have a: "fs_ok (fs ?k)" "dir_path (fs ?k) [slash, 0] 0" "used (inodes (fs ?k) 0) 0" "used (inodes (fs ?k) 0) 1"
    using root_fs_ok(2) root_fs_used [of 0] root_fs_used [of 1] by (simp_all add: dir_path_def)
  have e: "filter (used (inodes (fs ?k) 0)) [2..<1024] = []" unfolding filter_empty_conv set_upt using root_fs_used by auto
  from ls_shows_names [OF a] show ?thesis unfolding e using user_kernel_fields(13) by auto
qed


section \<open>The contents of a file\<close>

lemma print_byte: "printQ (c_lit ''%c'') [Word (ucast c)] v = Inr (put_text [c] v)"
proof -
  have "ucast (ucast c :: u32) = c" by (rule bit_word_eqI) (auto simp: bit_simps)
  then show ?thesis by (intro printQ_text) (simp add: c_lit_def arg_text_def)
qed

lemma get_bytes_step: "i < n \<Longrightarrow> get_bytes m i (n - i) = m i # get_bytes m (Suc i) (n - Suc i)"
  by (rule nth_equalityI) (auto simp: nth_Cons split: nat.splits)

lemma cat_from_bytes:
  assumes "unat (isz ino) \<le> 32768"
  shows "i \<le> unat (isz ino) \<Longrightarrow> cat_from ino i s = Inr (put_text (get_bytes (idata ino) i (unat (isz ino) - i)) s)"
proof (induction "unat (isz ino) - i" arbitrary: i s)
  case 0
  then show ?case by (simp add: cat_from.simps [of ino i] put_text_def get_bytes_def)
next
  case (Suc d)
  then have i: "i < unat (isz ino)" by simp
  then have "cat_from ino (Suc i) s' = Inr (put_text (get_bytes (idata ino) (Suc i) (unat (isz ino) - Suc i)) s')" for s'
    using Suc by (intro Suc.hyps) auto
  moreover have "cat_from ino i s = cat_from ino (Suc i) (put_text [idata ino i] s)"
    using i assms by (simp add: cat_from.simps [of ino i] print_byte)
  ultimately show ?case unfolding get_bytes_step [OF i] by (simp add: put_text_def)
qed

lemma cat_aux_ok:
  assumes "fs_ok (fs k)" and "\<forall>d\<in>set ds. component d" and "last_name n" and "resolve (fs k) 0 ds = Some p"
    and "dir_lookup (fs k) p n FL = Some j" and "unat (isz (inodes (fs k) j)) \<le> 32768"
  shows "\<exists>f. same_files (fs k) f \<and> cat_aux (render ds n r) k = Inr (k\<lparr>fs := f,
    scr := put_text (get_bytes (idata (inodes (fs k) j)) 0 (unat (isz (inodes (fs k) j))) @ [10]) (scr k)\<rparr>)"
proof -
  obtain f where f: "same_files (fs k) f" "findCurrentFLPos (fs k) (render ds n r) = Inr (int j, f)"
    using findCurrentFLPos_spec [OF fs_ok_dirs [OF assms(1)] assms(2,3), of r] assms(4,5) by auto
  have "p < 32" "itype (inodes (fs k) p) = DIR"
    using resolve_dir [OF fs_ok_dirs [OF assms(1)] _ _ assms(4)] fs_ok_dirs [OF assms(1)] by (auto simp: dirs_ok_def)
  then have j: "j < 32" using dir_lookup_Some [OF dirs_okD [OF fs_ok_dirs [OF assms(1)]] assms(5)] by simp
  have "inodes f j = inodes (fs k) j" using f(1) by (simp add: same_files_def)
  then show ?thesis using f j assms(6) cat_from_bytes [of "inodes (fs k) j" 0 "scr k"]
    by (intro exI [of _ f]) (simp add: cat_aux_def print_newline put_text_append)
qed

text \<open>C35: \<open>cat\<close> of a file shows its bytes, all and in order, then a newline, and changes nothing else but the globals of the walk; for a path whose last directory has no such file, which
  the code does not check, it reads before the array of inodes.\<close>

theorem cat_shows_contents:
  assumes "fs_ok (fs k)" and "\<forall>d\<in>set ds. component d" and "last_name n" and "resolve (fs k) 0 ds = Some p"
  shows "case dir_lookup (fs k) p n FL of
      None \<Rightarrow> cat_aux (render ds n r) k = Inl OutOfBounds
    | Some j \<Rightarrow> unat (isz (inodes (fs k) j)) \<le> 32768 \<longrightarrow>
        (\<exists>f. same_files (fs k) f \<and> cat_aux (render ds n r) k = Inr (k\<lparr>fs := f,
          scr := put_text (get_bytes (idata (inodes (fs k) j)) 0 (unat (isz (inodes (fs k) j))) @ [10]) (scr k)\<rparr>))"
proof (cases "dir_lookup (fs k) p n FL")
  case None
  then show ?thesis
    using findCurrentFLPos_spec [OF fs_ok_dirs [OF assms(1)] assms(2,3), of r] assms(4)
    by (auto simp: cat_aux_def inode_at_def)
next
  case (Some j)
  then show ?thesis using cat_aux_ok [OF assms Some, of r] by simp
qed

theorem cat_shows_contents_witness:
  "\<exists>k'. cat_aux [slash, 97, 0] (user_kernel\<lparr>fs := one_fs\<rparr>) = Inr k' \<and> scr k' = put_text [10] zero_screen"
proof -
  let ?k = "user_kernel\<lparr>fs := one_fs\<rparr>"
  have a: "fs_ok (fs ?k)" "resolve (fs ?k) 0 [] = Some 0" "dir_lookup (fs ?k) 0 [97] FL = Some 1" "isz (inodes (fs ?k) 1) = 0"
    using one_fs_ok by simp_all
  note c = cat_shows_contents [OF a(1) root_a_free(1) name_a(3) a(2), of "[]", unfolded a(3) option.case name_a(2)]
  have "unat (isz (inodes (fs ?k) 1)) = 0" unfolding a(4) by simp
  from c [unfolded this] obtain k' where "cat_aux [slash, 97, 0] ?k = Inr k'" "scr k' = put_text ([] @ [10]) (scr ?k)"
    by (auto simp: get_bytes_def)
  then show ?thesis using user_kernel_fields(13) by auto
qed

end
