(* ===== verification/Makedir.thy ===== *)
theory Makedir
  imports Rootfs
begin

text \<open>
  \<open>makeDir\<close> of kernel/kernel/fs.c: the new directory is entered under its name with a slash, holds
  \<open>.\<close> and \<open>..\<close>, and everything else is found as before; then a file system with the
  directories of the test program.
\<close>

section \<open>The effect of makeDir\<close>

text \<open>The path may or may not end in a slash; the name that is entered does.\<close>

lemma component_last: "component d \<Longrightarrow> last_name d" "component d \<Longrightarrow> last_name (d @ [slash])"
  by (auto simp: component_def last_name_def dest: in_set_butlastD)

lemma dir_name_of_eq:
  assumes "getLastLevelName path = Inr (n @ 0 # r)" and "component d" and "n = d \<or> n = d @ [slash]"
  shows "\<exists>name. dir_name_of path = Inr name \<and> terminated name \<and> cstr name = d @ [slash]"
proof -
  have d: "0 \<notin> set d" "d \<noteq> []" "slash \<notin> set d" "length d \<le> 26" using assms(2) by (auto simp: component_def)
  have n: "0 \<notin> set n" "n \<noteq> []" "length n < 28" using assms(3) d by auto
  let ?name = "n @ 0 # drop (Suc (length n)) name_buf"
  have name: "strcpy name_buf (n @ 0 # r) = Inr ?name" using n by (simp add: strcpy_eq name_buf_def)
  have l: "length ?name = 28" using n by (simp add: name_buf_def)
  have sl: "strlen ?name = Inr (length n)" using n by (simp add: strlen_eq)
  have lst: "?name ! (length n - 1) = last n" using n by (simp add: nth_append last_conv_nth)
  have pos: "Suc 0 \<le> length n" using n by (cases n) auto
  have e: "dir_name_of path = (if last n \<noteq> slash
      then require (length n + 1 < 28) OutOfBounds (Inr (?name[length n := slash, length n + 1 := 0])) else Inr ?name)"
    using assms(1) name sl n lst l pos by (simp add: dir_name_of_def)
  show ?thesis
  proof (cases "last n = slash")
    case True
    then have "n = d @ [slash]" using assms(3) d(3) last_in_set [OF d(2)] by metis
    then show ?thesis using e True d by simp
  next
    case False
    then have nd: "n = d" using assms(3) by auto
    have "Suc (length d) < length ?name" using d l nd by simp
    then obtain a q where q: "drop (Suc (length d)) name_buf = a # q"
      using nd n by (cases "drop (Suc (length n)) name_buf") (auto simp: name_buf_def)
    then have "?name[length n := slash, length n + 1 := 0] = d @ slash # 0 # q"
      using nd by (simp add: list_update_append)
    then show ?thesis using e False nd d by auto
  qed
qed

lemma makeDir_spec:
  assumes ok: "fs_ok fs" and p: "\<forall>d\<in>set ds. component d" and d: "component d" and n: "n = d \<or> n = d @ [slash]"
    and up: "resolve fs 0 ds = Some p"
    and k: "free_inode fs = Some k" and i: "free_dent (inodes fs p) = Some i"
  shows "\<exists>fs' ino. makeDir fs (render ds n r) = Inr (fs', [])
    \<and> entry_added fs fs' p i k (d @ [slash]) ino \<and> dir_inode k p (inodes fs k) ino"
proof -
  have ln: "last_name n" using n component_last [OF d] by auto
  have ok': "dirs_ok fs" using ok by (rule fs_ok_dirs)
  have p32: "p < 32" "itype (inodes fs p) = DIR"
    using resolve_dir [OF ok' _ _ up] ok' by (auto simp: dirs_ok_def)
  have k32: "k < 32" "k \<noteq> p" using free_inode_Some [OF k] ok p32 by (auto simp: fs_ok_def)
  have dd: "dents_ok (inodes fs p)" using dirs_okD [OF ok' p32] by (simp add: dir_ok_def)
  obtain fs1 where s: "same_files fs fs1"
    and up1: "findUpperDirPos fs (render ds n r) = Inr (int p, fs1)"
    using findUpperDirPos_spec [OF ok' p ln, of r] up by auto
  note in1 = same_files_inodes [OF s]
  obtain name where name: "dir_name_of (render ds n r) = Inr name" "terminated name" "cstr name = d @ [slash]"
    using dir_name_of_eq [OF getLastLevelName_render [OF p ln] d n] by blast
  have len: "length (d @ [slash]) < 28" using d by (simp add: component_def)
  let ?fs2 = "inuse_inc fs1"
  have in2: "inodes ?fs2 = inodes fs" using in1 by (simp add: inuse_inc_def)
  have slot: "getAvlDirdata ?fs2 (int p) = Inr (int i)"
    using getAvlDirdata_eq [OF p32(1), of ?fs2] dd i in2 by simp
  obtain bs where ent: "enter_dent ?fs2 p i (int k) name =
      Inr (put_inode ?fs2 p (new_dent (inodes fs p) i (word_of_nat k) bs))"
    and bs: "length bs = 28" "terminated bs" "cstr bs = d @ [slash]"
    using enter_dent_eq [of name ?fs2 p i k] name len in2 by auto
  obtain nm where nm: "strcpy_iname ((inodes fs k)\<lparr>itype := DIR\<rparr>) name = Inr ((inodes fs k)\<lparr>itype := DIR, iname := nm\<rparr>)"
    "length nm = 28"
    using ok k32(1) name len by (simp add: strcpy_iname_def strcpy_eq fs_ok_def)
  obtain ino where ino: "dot_entries ((inodes fs k)\<lparr>itype := DIR, iname := nm\<rparr>) (int k) (int p) = Inr ino"
    "dir_inode k p ((inodes fs k)\<lparr>itype := DIR, iname := nm\<rparr>) ino"
    using dot_entries_dir [of "(inodes fs k)\<lparr>itype := DIR, iname := nm\<rparr>" k p] nm(2) by auto
  let ?fs3 = "put_inode ?fs2 p (new_dent (inodes fs p) i (word_of_nat k) bs)"
  let ?fs' = "set_inode_map (inuse_inc (put_inode ?fs3 k ino)) k inuse"
  have di: "dir_inode k p (inodes fs k) ino" using ino(2) by (simp add: dir_inode_def)
  have "makeDir fs (render ds n r) = Inr (?fs', [])"
    using k k32 slot ent nm(1) in2 ino(1)
    by (simp add: makeDir_def getAvlInode_eq up1 name(1) Let_def)
  moreover have "entry_added fs ?fs' p i k (d @ [slash]) ino"
    unfolding entry_added_def
    by (rule exI [of _ bs])
      (use bs s di in \<open>auto simp: set_inode_map_def inuse_inc_def put_inode_def same_files_def dir_inode_def\<close>)
  ultimately show ?thesis using di by blast
qed

text \<open>An inode whose entries, the first two apart, are empty.\<close>

definition clean_inode :: "inodeblock \<Rightarrow> bool" where
  "clean_inode old \<longleftrightarrow> (\<forall>i < 1024. 1 < i \<longrightarrow> terminated (dent_name old i) \<and> \<not> used old i)"

lemma made_dir:
  assumes e: "entry_added fs fs' p i k (d @ [slash]) ino" and di: "dir_inode k p (inodes fs k) ino"
    and c: "can_add fs p i k" and cl: "clean_inode (inodes fs k)"
    and new: "dir_lookup fs p (d @ [slash]) DIR = None"
  shows "fs_ok fs'"
    and "j < 32 \<Longrightarrow> itype (inodes fs j) = DIR \<Longrightarrow> dir_lookup fs' j nm t =
      (if j = p \<and> nm = d @ [slash] \<and> t = DIR then Some k else dir_lookup fs j nm t)"
    and "dir_lookup fs' k nm t =
      (if t = DIR \<and> nm = dot then Some k else if t = DIR \<and> nm = dotdot then Some p else None)"
    and "resolve fs 0 ds = Some m \<Longrightarrow> resolve fs' 0 ds = Some m"
    and "resolve fs 0 ds = Some p \<Longrightarrow> resolve fs' 0 (ds @ [d]) = Some k"
proof -
  have ty: "itype ino = DIR" using di by (simp add: dir_inode_def)
  have new': "dir_lookup fs p (d @ [slash]) (itype ino) = None" using new ty by simp
  have pk: "p < 32" "k < 32" "itype (inodes fs p) = DIR" using c by (auto simp: can_add_def)
  note in' = entry_added_inodes [OF e c]
  have o: "\<forall>i < 1024. 1 < i \<longrightarrow> terminated (dent_name (inodes fs k) i) \<and> \<not> used (inodes fs k) i"
    using cl by (simp add: clean_inode_def)
  have u: "used ino a \<longleftrightarrow> a < 2" if "a < 1024" for a using dir_inode_used [OF di] o that by blast
  have ok: "fs_ok fs" by (rule can_add_ok [OF c])
  have "unat (dent_ino ino a) = k \<or> inode_map (superb fs) (unat (dent_ino ino a)) \<noteq> available"
    if "a < 1024" "used ino a" for a
  proof -
    have "a < 2" using u that by blast
    then show ?thesis using di pk ok less_2_cases [of a] by (auto simp: dir_inode_def unat_u32 fs_ok_def)
  qed
  then show "fs_ok fs'"
    using entry_added_fs_ok [OF e c] dir_inode_dir_ok [OF di o pk(2,1)] by simp
  have lk: "dir_lookup fs' j nm t = (if j = p \<and> nm = d @ [slash] \<and> t = DIR then Some k else dir_lookup fs j nm t)"
    if "j < 32" "itype (inodes fs j) = DIR" for j nm t
    using entry_added_lookup [OF e c _ new' that, of nm t] ty by simp
  then show "j < 32 \<Longrightarrow> itype (inodes fs j) = DIR \<Longrightarrow> dir_lookup fs' j nm t =
      (if j = p \<and> nm = d @ [slash] \<and> t = DIR then Some k else dir_lookup fs j nm t)" .
  have "dir_inode k p (inodes fs k) (inodes fs' k)" using di in'(3) by simp
  from dir_inode_lookup [OF this _ pk(2,1)] show "dir_lookup fs' k nm t =
      (if t = DIR \<and> nm = dot then Some k else if t = DIR \<and> nm = dotdot then Some p else None)"
    using o ty pk by (simp add: in'(1))
  have d0: "(0::nat) < 32" "itype (inodes fs 0) = DIR" using fs_ok_dirs [OF ok] by (simp_all add: dirs_ok_def)
  show r: "resolve fs' 0 ds = Some m" if "resolve fs 0 ds = Some m" for ds m
    by (rule entry_added_resolve [OF e c _ new' d0 that]) simp
  show "resolve fs' 0 (ds @ [d]) = Some k" if "resolve fs 0 ds = Some p"
    using r [OF that] lk [OF pk(1,3), of "d @ [slash]" DIR] by (simp add: resolve_append)
qed

lemma makeDir_full:
  assumes ok: "fs_ok fs" and p: "\<forall>d\<in>set ds. component d" and d: "component d" and n: "n = d \<or> n = d @ [slash]"
    and up: "resolve fs 0 ds = Some p"
    and k: "free_inode fs = Some k" and i: "free_dent (inodes fs p) = None"
  shows "makeDir fs (render ds n r) = Inl (AssertFail ''fs.c'' 265)"
proof -
  have ln: "last_name n" using n component_last [OF d] by auto
  have ok': "dirs_ok fs" using ok by (rule fs_ok_dirs)
  have p32: "p < 32" "itype (inodes fs p) = DIR"
    using resolve_dir [OF ok' _ _ up] ok' by (auto simp: dirs_ok_def)
  have dd: "dents_ok (inodes fs p)" using dirs_okD [OF ok' p32] by (simp add: dir_ok_def)
  obtain fs1 where s: "same_files fs fs1"
    and up1: "findUpperDirPos fs (render ds n r) = Inr (int p, fs1)"
    using findUpperDirPos_spec [OF ok' p ln, of r] up by auto
  obtain name where name: "dir_name_of (render ds n r) = Inr name"
    using dir_name_of_eq [OF getLastLevelName_render [OF p ln] d n] by blast
  have "inodes (inuse_inc fs1) = inodes fs" using same_files_inodes [OF s] by (simp add: inuse_inc_def)
  then have "getAvlDirdata (inuse_inc fs1) (int p) = Inr (-1)"
    using getAvlDirdata_eq [OF p32(1), of "inuse_inc fs1"] dd i by simp
  then show ?thesis using k by (simp add: makeDir_def getAvlInode_eq up1 name Let_def)
qed

section \<open>Outcomes\<close>

text \<open>C18: \<open>makeDir\<close> of \<open>d\<close> in an existing directory. Without a free inode it prints an error and changes nothing; if the directory is
  full the machine stops. Otherwise the new directory is found under the path with and without a slash at the end given to \<open>makeDir\<close>, in
  it there are only \<open>.\<close>, itself, and \<open>..\<close>, the directory above, every other lookup gives what it did, and the file system is in good order.
  That the free inode holds no names of its own is a condition: \<open>makeDir\<close> clears only two entries.\<close>

theorem makeDir_correct:
  assumes "fs_ok fs" and "\<forall>d\<in>set ds. component d" and "component d" and "n = d \<or> n = d @ [slash]"
    and "resolve fs 0 ds = Some p" and "dir_lookup fs p (d @ [slash]) DIR = None"
  shows "case (free_inode fs, free_dent (inodes fs p)) of
      (None, _) \<Rightarrow> makeDir fs (render ds n r) = Inr (fs, map of_char ''abspath error\<newline>'')
    | (Some k, None) \<Rightarrow> makeDir fs (render ds n r) = Inl (AssertFail ''fs.c'' 265)
    | (Some k, Some i) \<Rightarrow> clean_inode (inodes fs k) \<longrightarrow>
        (\<exists>fs' f. makeDir fs (render ds n r) = Inr (fs', []) \<and> fs_ok fs'
          \<and> findCurrentDirPos fs' (render ds (d @ [slash]) r) = Inr (int k, f)
          \<and> resolve fs' 0 (ds @ [d]) = Some k
          \<and> (\<forall>nm t. dir_lookup fs' k nm t =
              (if t = DIR \<and> nm = dot then Some k else if t = DIR \<and> nm = dotdot then Some p else None))
          \<and> (\<forall>j < 32. itype (inodes fs j) = DIR \<longrightarrow> (\<forall>nm t. dir_lookup fs' j nm t =
              (if j = p \<and> nm = d @ [slash] \<and> t = DIR then Some k else dir_lookup fs j nm t))))"
proof (cases "free_inode fs")
  case None
  then show ?thesis by (simp add: makeDir_def getAvlInode_eq)
next
  case (Some k)
  show ?thesis
  proof (cases "free_dent (inodes fs p)")
    case None
    then show ?thesis using makeDir_full [OF assms(1-5) Some None] Some by simp
  next
    case (Some i)
    note k = \<open>free_inode fs = Some k\<close>
    have c: "can_add fs p i k" by (rule can_addI [OF assms(1,5) k Some])
    obtain fs' ino where m: "makeDir fs (render ds n r) = Inr (fs', [])"
      "entry_added fs fs' p i k (d @ [slash]) ino" "dir_inode k p (inodes fs k) ino"
      using makeDir_spec [OF assms(1-5) k Some] by blast
    note md = made_dir [OF m(2,3) c _ assms(6)]
    have "(\<exists>f. findCurrentDirPos fs' (render ds (d @ [slash]) r) = Inr (int k, f))" if cl: "clean_inode (inodes fs k)"
    proof -
      have "p < 32" "itype (inodes fs p) = DIR" using c by (auto simp: can_add_def)
      then have "dir_lookup fs' p (d @ [slash]) DIR = Some k" using md(2) [OF cl] by simp
      then show ?thesis
        using findCurrentDirPos_spec [OF fs_ok_dirs [OF md(1) [OF cl]] assms(2) component_last(2) [OF assms(3)], of r]
          md(4) [OF cl assms(5)] by auto
    qed
    then show ?thesis using m(1) md(1-3) md(5) [OF _ assms(5)] k Some by auto
  qed
qed

section \<open>A file system with directories\<close>

text \<open>The root directory, inode 0, holds directories in the inodes below \<open>m\<close>; the other inodes were never used.\<close>

definition tree :: "nat \<Rightarrow> filesys \<Rightarrow> bool" where
  "tree m f \<longleftrightarrow> fs_ok f \<and> (\<forall>j < 32. inode_map (superb f) j = available \<longleftrightarrow> m \<le> j)
     \<and> (\<forall>j. m \<le> j \<longrightarrow> inodes f j = zero_inode) \<and> (\<forall>i < 1024. used (inodes f 0) i \<longleftrightarrow> i \<le> m)
     \<and> (\<forall>j < m. 0 < j \<longrightarrow> itype (inodes f j) = DIR \<and> (\<forall>i < 1024. used (inodes f j) i \<longleftrightarrow> i < 2))
     \<and> length (sb_id (superb f)) = 8"

lemma find_least: "m < n \<Longrightarrow> P m \<Longrightarrow> \<forall>i < m. \<not> P i \<Longrightarrow> find P [0..<n] = Some m"
  by (auto simp: find_Some_iff)

lemma tree_free:
  assumes "tree m f" and "m < 32"
  shows "free_inode f = Some m" and "free_dent (inodes f 0) = Some (m + 1)"
  using assms find_least [of m 32 "\<lambda>j. inode_map (superb f) j = available"]
    find_least [of "m + 1" 1024 "\<lambda>i. \<not> used (inodes f 0) i"]
  by (auto simp: tree_def free_inode_def free_dent_def)

lemma zero_inode_clean: "clean_inode zero_inode"
  using zero_blank by (simp add: clean_inode_def blank_def zero_fs_def)

lemma tree_root: "tree 1 root_fs"
proof -
  obtain f ino where f: "makeRootDir zero_fs = Inr f" "root_inode (inodes zero_fs 0) ino" "inodes f = (inodes zero_fs)(0 := ino)"
    "inode_map (superb f) = (inode_map (superb zero_fs))(0 := inuse)" "sb_id (superb f) = sb_id (superb zero_fs)"
    using makeRootDir_spec [OF zero_blank] by blast
  have r: "f = root_fs" using f(1) root_fs_ok(1) by simp
  have "\<forall>i < 1024. 1 < i \<longrightarrow> \<not> used (inodes zero_fs 0) i" using zero_blank by (simp add: blank_def)
  then have u: "used ino i \<longleftrightarrow> i < 2" if "i < 1024" for i using dir_inode_used [OF f(2)] that by blast
  have "inodes zero_fs j = zero_inode" "inode_map (superb zero_fs) j = available" for j by (simp_all add: zero_fs_def)
  then show ?thesis
    using f(3-5) u root_fs_ok(2) by (auto simp: tree_def r zero_fs_def)
qed

lemma tree_step:
  assumes t: "tree m f" and m: "0 < m" "m < 32" and d: "component d" and new: "dir_lookup f 0 (d @ [slash]) DIR = None"
  shows "\<exists>f'. makeDir f (render [] (d @ [slash]) r) = Inr (f', []) \<and> tree (m + 1) f'
    \<and> dir_inode m 0 zero_inode (inodes f' m) \<and> (\<forall>nm t. dir_lookup f' 0 nm t =
        (if nm = d @ [slash] \<and> t = DIR then Some m else dir_lookup f 0 nm t))"
proof -
  have ok: "fs_ok f" and z: "inodes f m = zero_inode" using t by (simp_all add: tree_def)
  note fr = tree_free [OF t m(2)]
  have c: "can_add f 0 (m + 1) m" by (rule can_addI [OF ok _ fr(1), where ds = "[]"]) (use fr(2) in simp_all)
  obtain f' ino where md: "makeDir f (render [] (d @ [slash]) r) = Inr (f', [])"
    and e: "entry_added f f' 0 (m + 1) m (d @ [slash]) ino" and di: "dir_inode m 0 (inodes f m) ino"
    using makeDir_spec [OF ok _ d _ _ fr(1), where ds = "[]" and n = "d @ [slash]" and r = r and i = "m + 1"] fr(2) by auto
  note mk = made_dir [OF e di c _ new, unfolded z, OF zero_inode_clean]
  have "itype (inodes f 0) = DIR" using fs_ok_dirs [OF ok] by (simp add: dirs_ok_def)
  then have lk: "\<forall>nm t. dir_lookup f' 0 nm t = (if nm = d @ [slash] \<and> t = DIR then Some m else dir_lookup f 0 nm t)"
    using mk(2) [of 0] by simp
  obtain bs where bs: "length bs = 28" "cstr bs = d @ [slash]"
    "inodes f' = (inodes f)(0 := new_dent (inodes f 0) (m + 1) (word_of_nat m) bs, m := ino)"
    "superb f' = (superb f)\<lparr>inuse_inode_num := inuse_inode_num (superb f) + 2,
             inode_map := (inode_map (superb f))(m := inuse)\<rparr>"
    using e by (auto simp: entry_added_def)
  have "used ino i \<longleftrightarrow> i < 2" if "i < 1024" for i
    using dir_inode_used [OF di] zero_inode_clean that by (simp add: z clean_inode_def)
  then have "tree (m + 1) f'" using t mk(1) m(1) bs di by (auto simp: tree_def dir_inode_def less_Suc_eq)
  moreover have "dir_inode m 0 zero_inode (inodes f' m)" using di z m(1) by (simp add: bs(3))
  ultimately show ?thesis using md lk by blast
qed

definition boot_name :: "u8 list" where "boot_name = map of_char ''boot''"
definition dev_name :: "u8 list" where "dev_name = map of_char ''dev''"
definition usr_name :: "u8 list" where "usr_name = map of_char ''usr''"

lemma names_ok: "component boot_name" "component dev_name" "component usr_name"
  "boot_name \<noteq> dev_name" "boot_name \<noteq> usr_name" "dev_name \<noteq> usr_name"
  "boot_name @ [slash] \<noteq> dot" "boot_name @ [slash] \<noteq> dotdot" "dev_name @ [slash] \<noteq> dot" "dev_name @ [slash] \<noteq> dotdot"
  "usr_name @ [slash] \<noteq> dot" "usr_name @ [slash] \<noteq> dotdot"
  by (simp_all add: component_def boot_name_def dev_name_def usr_name_def dot_def dotdot_def)

definition made :: "filesys \<Rightarrow> u8 list \<Rightarrow> filesys" where
  "made f d = (case makeDir f (render [] (d @ [slash]) []) of Inl e \<Rightarrow> f | Inr (f', bs) \<Rightarrow> f')"

lemma tree_made:
  assumes "tree m f" and "0 < m" and "m < 32" and "component d" and "dir_lookup f 0 (d @ [slash]) DIR = None"
  shows "tree (m + 1) (made f d)" and "dir_inode m 0 zero_inode (inodes (made f d) m)" and "dir_lookup (made f d) 0 nm t =
        (if nm = d @ [slash] \<and> t = DIR then Some m else dir_lookup f 0 nm t)"
  using tree_step [OF assms, of "[]"] by (auto simp: made_def)

text \<open>The directories the test program of app/main.c lists.\<close>

definition tree_fs :: filesys where
  "tree_fs = made (made (made root_fs boot_name) dev_name) usr_name"

lemma tree_fs_steps: "tree 4 tree_fs" "dir_inode 3 0 zero_inode (inodes tree_fs 3)" "dir_lookup tree_fs 0 nm t =
    (if t \<noteq> DIR then None else if nm = usr_name @ [slash] then Some 3 else if nm = dev_name @ [slash] then Some 2
     else if nm = boot_name @ [slash] then Some 1 else if nm = dot \<or> nm = dotdot then Some 0 else None)"
proof -
  let ?f1 = "made root_fs boot_name" and ?f2 = "made (made root_fs boot_name) dev_name"
  have f1: "tree 2 ?f1" "\<And>nm t. dir_lookup ?f1 0 nm t = (if nm = boot_name @ [slash] \<and> t = DIR then Some 1 else dir_lookup root_fs 0 nm t)"
    using tree_made [OF tree_root _ _ names_ok(1)] names_ok root_fs_ok(5) by (simp_all add: numeral_2_eq_2)
  have f2: "tree 3 ?f2" "\<And>nm t. dir_lookup ?f2 0 nm t = (if nm = dev_name @ [slash] \<and> t = DIR then Some 2 else dir_lookup ?f1 0 nm t)"
    using tree_made [OF f1(1) _ _ names_ok(2)] names_ok root_fs_ok(5) f1(2) by (simp_all add: numeral_3_eq_3)
  note m = tree_made [OF f2(1) _ _ names_ok(3), folded tree_fs_def]
  show "tree 4 tree_fs" "dir_inode 3 0 zero_inode (inodes tree_fs 3)"
    using m(1,2) names_ok root_fs_ok(5) f1(2) f2(2) by simp_all
  show "dir_lookup tree_fs 0 nm t =
    (if t \<noteq> DIR then None else if nm = usr_name @ [slash] then Some 3 else if nm = dev_name @ [slash] then Some 2
     else if nm = boot_name @ [slash] then Some 1 else if nm = dot \<or> nm = dotdot then Some 0 else None)"
    using f1(2) f2(2) m(3) names_ok root_fs_ok(5) by simp
qed

lemmas tree_fs_ok = tree_fs_steps(1,3)
lemmas usr_made = tree_fs_steps(2)

theorem makeDir_correct_witness:
  "\<exists>fs' f. makeDir root_fs (render [] usr_name []) = Inr (fs', [])
    \<and> findCurrentDirPos fs' (render [] (usr_name @ [slash]) []) = Inr (1, f)"
proof -
  have "clean_inode (inodes root_fs 1)" using zero_inode_clean root_fs_ok(6) by simp
  then show ?thesis
    using makeDir_correct [OF root_fs_ok(2) _ names_ok(3), where ds = "[]" and n = usr_name and r = "[]"]
      root_fs_ok(3-5) names_ok by auto
qed

end
