(* ===== verification/Desc.thy ===== *)
theory Desc
  imports Process
begin

unbundle bit_operations_syntax

text \<open>
  The descriptor tables: the interrupt gates of kernel/kernel/idt.c and the segments that
  \<open>initSeg\<close> of kernel/kernel/kvm.c sets up with the macros of kernel/include/x86/memory.h. A
  bit-field of width \<open>w\<close> is a word of width \<open>w\<close>, so storing into it truncates. What the processor
  reads from a descriptor (\<open>gate_offset\<close>, \<open>seg_base\<close>, \<open>seg_limit\<close>) is stated from the
  layout in the Intel manual.
\<close>

section \<open>Interrupt gates\<close>

record gate =
  offset_15_0 :: u16
  segment :: u16
  pad0 :: u8
  gtype :: "4 word"
  system :: "1 word"
  privilege_level :: "2 word"
  present :: "1 word"
  offset_31_16 :: u16

abbreviation (input) DPL_KERN :: u32 where "DPL_KERN \<equiv> 0"
abbreviation (input) DPL_USER :: u32 where "DPL_USER \<equiv> 3"

definition setIntr :: "u32 \<Rightarrow> u32 \<Rightarrow> u32 \<Rightarrow> gate" where
  "setIntr selector off dpl =
     \<lparr>offset_15_0 = ucast (off AND 0xFFFF), segment = ucast (push_bit 3 selector), pad0 = 0, gtype = 0xE,
      system = 0, privilege_level = ucast dpl, present = 1,
      offset_31_16 = ucast (drop_bit 16 off AND 0xFFFF)\<rparr>"

definition setTrap :: "u32 \<Rightarrow> u32 \<Rightarrow> u32 \<Rightarrow> gate" where
  "setTrap selector off dpl =
     \<lparr>offset_15_0 = ucast (off AND 0xFFFF), segment = ucast (push_bit 3 selector), pad0 = 0, gtype = 0xF,
      system = 0, privilege_level = ucast dpl, present = 1,
      offset_31_16 = ucast (drop_bit 16 off AND 0xFFFF)\<rparr>"

text \<open>The entry points of doIrq.S; their addresses come from the linker.\<close>

datatype entry_point = IrqEmpty | Vec nat | IrqGProtectFault | IrqSyscall | Irq0 | Irq1

definition initIdt :: "(entry_point \<Rightarrow> u32) \<Rightarrow> gate list \<Rightarrow> gate list" where
  "initIdt addr idt =
     (let idt = fold (\<lambda>i t. t[i := setTrap SEG_KCODE (addr IrqEmpty) DPL_KERN]) [0..<256] idt;
          idt = fold (\<lambda>i t. t[i := setIntr SEG_KCODE (addr (Vec i)) DPL_KERN]) [0..<15] idt;
          idt = idt[0xd := setIntr SEG_KCODE (addr IrqGProtectFault) DPL_KERN];
          idt = idt[0x80 := setIntr SEG_KCODE (addr IrqSyscall) DPL_USER];
          idt = idt[0x20 := setIntr SEG_KCODE (addr Irq0) DPL_USER]
      in idt[0x21 := setIntr SEG_KCODE (addr Irq1) DPL_USER])"

text \<open>The three words of \<open>saveIdt\<close> and \<open>setGdt\<close>: size less one, then the address.\<close>

definition table_register :: "u32 \<Rightarrow> u32 \<Rightarrow> u16 list" where
  "table_register a sz = [ucast (sz - 1), ucast a, ucast (drop_bit 16 a)]"

text \<open>What the processor takes from a gate.\<close>

definition gate_offset :: "gate \<Rightarrow> u32" where
  "gate_offset g = ucast (offset_15_0 g) OR push_bit 16 (ucast (offset_31_16 g))"

lemma split_u32: "ucast (ucast (w AND 0xFFFF) :: u16) OR push_bit 16 (ucast (ucast (drop_bit 16 w AND 0xFFFF) :: u16))
    = (w :: u32)"
proof (rule bit_word_eqI)
  have m: "(0xFFFF :: u32) = mask 16" by (simp add: mask_eq_exp_minus_1)
  fix n assume "n < LENGTH(32)"
  then show "bit (ucast (ucast (w AND 0xFFFF) :: u16) OR push_bit 16 (ucast (ucast (drop_bit 16 w AND 0xFFFF) :: u16)) :: u32) n
      = bit w n"
    unfolding m by (cases "n < 16") (auto simp: bit_simps)
qed

lemma gate_simps [simp]:
  "gate_offset (setIntr sel a d) = a" "gate_offset (setTrap sel a d) = a"
  "gtype (setIntr sel a d) = 0xE" "gtype (setTrap sel a d) = 0xF"
  "privilege_level (setIntr sel a d) = ucast d" "privilege_level (setTrap sel a d) = ucast d"
  "segment (setIntr sel a d) = ucast (push_bit 3 sel)" "segment (setTrap sel a d) = ucast (push_bit 3 sel)"
  "present (setIntr sel a d) = 1" "present (setTrap sel a d) = 1"
  "system (setIntr sel a d) = 0" "system (setTrap sel a d) = 0"
  by (simp_all only: gate_offset_def setIntr_def setTrap_def gate.simps split_u32)

lemma length_fold_set [simp]: "length (fold (\<lambda>i t. t[i := f i]) [0..<n] t) = length t"
  by (induction n) auto

lemma nth_fold_set [simp]:
  "i < length t \<Longrightarrow> fold (\<lambda>i t. t[i := f i]) [0..<n] t ! i = (if i < n then f i else t ! i)"
proof (induction n)
  case (Suc n)
  then show ?case by (cases "i = n") auto
qed simp


section \<open>Segments\<close>

record segdesc =
  lim_15_0 :: u16
  base_15_0 :: u16
  base_23_16 :: u8
  stype :: "4 word"
  sflag :: "1 word"
  dpl :: "2 word"
  pflag :: "1 word"
  lim_19_16 :: "4 word"
  avl :: "1 word"
  rsv1 :: "1 word"
  db :: "1 word"
  gran :: "1 word"
  base_31_24 :: u8

definition SEG :: "u32 \<Rightarrow> u32 \<Rightarrow> u32 \<Rightarrow> u32 \<Rightarrow> segdesc" where
  "SEG type base lim d =
     \<lparr>lim_15_0 = ucast (drop_bit 12 lim AND 0xFFFF), base_15_0 = ucast (base AND 0xFFFF),
      base_23_16 = ucast (drop_bit 16 base AND 0xFF), stype = ucast type, sflag = 1, dpl = ucast d, pflag = 1,
      lim_19_16 = ucast (drop_bit 28 lim), avl = 0, rsv1 = 0, db = 1, gran = 1, base_31_24 = ucast (drop_bit 24 base)\<rparr>"

definition SEG16 :: "u32 \<Rightarrow> u32 \<Rightarrow> u32 \<Rightarrow> u32 \<Rightarrow> segdesc" where
  "SEG16 type base lim d =
     \<lparr>lim_15_0 = ucast (lim AND 0xFFFF), base_15_0 = ucast (base AND 0xFFFF),
      base_23_16 = ucast (drop_bit 16 base AND 0xFF), stype = ucast type, sflag = 0, dpl = ucast d, pflag = 1,
      lim_19_16 = ucast (drop_bit 16 lim), avl = 0, rsv1 = 0, db = 1, gran = 0, base_31_24 = ucast (drop_bit 24 base)\<rparr>"

abbreviation (input) STA_X :: u32 where "STA_X \<equiv> 0x8"
abbreviation (input) STA_W :: u32 where "STA_W \<equiv> 0x2"
abbreviation (input) STA_R :: u32 where "STA_R \<equiv> 0x2"
abbreviation (input) STS_T32A :: u32 where "STS_T32A \<equiv> 0x9"

text \<open>\<open>sizeof(TSS)\<close>: three words and a union of 88 bytes.\<close>

abbreviation (input) sizeof_TSS :: u32 where "sizeof_TSS \<equiv> 100"

text \<open>
  \<open>initSeg\<close> without the loads of the segment registers: the table, whose entry 0 it leaves, and \<open>tss.esp0\<close>. \<open>tss\<close> is
  the address of the task state segment. \<open>pcb_ref\<close> is the access \<open>pcb[p_num]\<close>.
\<close>

definition initSeg :: "u32 \<Rightarrow> segdesc list \<Rightarrow> kernel \<Rightarrow> (segdesc list \<times> kernel) exec" where
  "initSeg tss gdt k =
     (let gdt = gdt[SEG_KCODE := SEG (STA_X OR STA_R) 0 0xffffffff DPL_KERN];
          gdt = gdt[SEG_KDATA := SEG STA_W 0 0xffffffff DPL_KERN];
          gdt = gdt[SEG_UCODE1 := SEG (STA_X OR STA_R) 0 0xffffffff DPL_USER];
          gdt = gdt[SEG_UDATA1 := SEG STA_W 0 0xffffffff DPL_USER];
          gdt = gdt[SEG_UCODE2 := SEG (STA_X OR STA_R) 0x200000 0xffffffff DPL_USER];
          gdt = gdt[SEG_UDATA2 := SEG STA_W 0x200000 0xffffffff DPL_USER];
          gdt = gdt[SEG_TSS := SEG16 STS_T32A tss (sizeof_TSS - 1) DPL_KERN];
          gdt = gdt[SEG_TSS := (gdt ! SEG_TSS)\<lparr>sflag := 0\<rparr>];
          gdt = gdt[SEG_KDISPLAY := SEG STA_W 0xB8000 0xffffffff DPL_USER]
      in bind_r (pcb_ref (p_num k)) (\<lambda>p.
           Inr (gdt, k\<lparr>tss_esp0 := kaddr k p + tf_offset + sizeof_TrapFrame\<rparr>)))"

text \<open>What the processor takes from a segment descriptor.\<close>

definition seg_base :: "segdesc \<Rightarrow> u32" where
  "seg_base d = ucast (base_15_0 d) OR push_bit 16 (ucast (base_23_16 d)) OR push_bit 24 (ucast (base_31_24 d))"

definition seg_limit :: "segdesc \<Rightarrow> u32" where
  "seg_limit d =
     (let l = ucast (lim_15_0 d) OR push_bit 16 (ucast (lim_19_16 d))
      in if gran d = 1 then push_bit 12 l OR 0xFFF else l)"

text \<open>The linear address of offset \<open>a\<close> in the segment a selector names.\<close>

definition linear :: "segdesc list \<Rightarrow> u32 \<Rightarrow> u32 \<Rightarrow> u32" where
  "linear gdt sel a = seg_base (gdt ! unat (drop_bit 3 sel)) + a"

lemma seg_base_SEG [simp]: "seg_base (SEG t b l d) = b" "seg_base (SEG16 t b l d) = b"
proof -
  have m: "(0xFFFF :: u32) = mask 16" "(0xFF :: u32) = mask 8" by (simp_all add: mask_eq_exp_minus_1)
  have "ucast (ucast (b AND 0xFFFF) :: u16) OR push_bit 16 (ucast (ucast (drop_bit 16 b AND 0xFF) :: u8))
      OR push_bit 24 (ucast (ucast (drop_bit 24 b) :: u8)) = b"
  proof (rule bit_word_eqI)
    fix n assume "n < LENGTH(32)"
    then show "bit (ucast (ucast (b AND 0xFFFF) :: u16) OR push_bit 16 (ucast (ucast (drop_bit 16 b AND 0xFF) :: u8))
        OR push_bit 24 (ucast (ucast (drop_bit 24 b) :: u8)) :: u32) n = bit b n"
      unfolding m by (cases "n < 16"; cases "n < 24") (auto simp: bit_simps)
  qed
  then show "seg_base (SEG t b l d) = b" "seg_base (SEG16 t b l d) = b"
    by (simp_all only: seg_base_def SEG_def SEG16_def segdesc.simps)
qed

lemma seg_limit_all [simp]: "seg_limit (SEG t b 0xffffffff d) = 0xffffffff"
  by (simp add: seg_limit_def SEG_def)

lemma segdesc_simps [simp]: "dpl (SEG t b l d) = ucast d" "pflag (SEG t b l d) = 1" "stype (SEG t b l d) = ucast t"
  "dpl (SEG16 t b l d) = ucast d" "pflag (SEG16 t b l d) = 1" "stype (SEG16 t b l d) = ucast t"
  by (simp_all add: SEG_def SEG16_def)

end
