(* ===== verification/Tables.thy ===== *)
theory Tables
  imports Desc Files Startup
begin

unbundle bit_operations_syntax

text \<open>
  The properties of the descriptor tables: which code each interrupt vector reaches and who may raise it,
  and how the segments of the two programs agree with the kernel's treatment of their pointers.
\<close>

section \<open>Interrupt vectors\<close>

definition handler_of :: "nat \<Rightarrow> entry_point" where
  "handler_of v = (if v = 0x80 then IrqSyscall else if v = 0x20 then Irq0 else if v = 0x21 then Irq1
     else if v = 0xd then IrqGProtectFault else if v < 15 then Vec v else IrqEmpty)"

lemma initIdt_nth:
  assumes "length idt = 256" and "v < 256"
  shows "initIdt addr idt ! v =
    (let d = (if v \<in> {0x20, 0x21, 0x80} then DPL_USER else DPL_KERN)
     in if v < 15 \<or> v \<in> {0x20, 0x21, 0x80} then setIntr SEG_KCODE (addr (handler_of v)) d
        else setTrap SEG_KCODE (addr (handler_of v)) d)"
  using assms by (simp add: initIdt_def Let_def handler_of_def nth_list_update)

text \<open>C40: after \<open>initIdt\<close> every one of the 256 vectors has a present gate into the kernel's code segment, with
  the address of its handler put together right: the system call, the two devices, the general protection fault
  (which replaces vector 13), the other 14 exceptions, and the empty handler. Exceptions, devices and system
  calls run with interrupts off. Programs may raise the system call, but also the two device vectors.\<close>

theorem idt_correct:
  assumes "length idt = 256" and "v < 256"
  shows "length (initIdt addr idt) = 256 \<and> (let g = initIdt addr idt ! v in present g = 1 \<and> system g = 0
    \<and> gate_offset g = addr (handler_of v) \<and> segment g = ucast (KSEL 1)
    \<and> (privilege_level g = 3 \<longleftrightarrow> v \<in> {0x20, 0x21, 0x80}) \<and> (privilege_level g = 0 \<longleftrightarrow> v \<notin> {0x20, 0x21, 0x80})
    \<and> (gtype g = 0xE \<longleftrightarrow> v < 15 \<or> v \<in> {0x20, 0x21, 0x80}) \<and> (gtype g = 0xF \<longleftrightarrow> handler_of v = IrqEmpty))"
proof -
  have "length (initIdt addr idt) = 256" using assms by (simp add: initIdt_def Let_def)
  then show ?thesis unfolding initIdt_nth [OF assms] by (simp add: handler_of_def KSEL_def Let_def)
qed

theorem idt_correct_witness:
  "\<exists>g. g = initIdt (\<lambda>e. if e = IrqSyscall then 0x100abc else 0x100000) (replicate 256 (setTrap 0 0 0)) ! 0x80
    \<and> gate_offset g = 0x100abc \<and> privilege_level g = 3"
proof -
  have l: "length (replicate 256 (setTrap 0 0 0)) = 256" "(0x80 :: nat) < 256" by simp_all
  from idt_correct [OF l, of "\<lambda>e. if e = IrqSyscall then 0x100abc else 0x100000"] show ?thesis
    by (simp add: Let_def handler_of_def del: gate_simps)
qed


section \<open>Segments and pointers\<close>

lemma initSeg_entries:
  assumes "length gdt = 9" and "initSeg tss gdt k0 = Inr (g, k1)"
  shows "g ! 1 = SEG (STA_X OR STA_R) 0 0xffffffff DPL_KERN" "g ! 2 = SEG STA_W 0 0xffffffff DPL_KERN"
    "g ! 3 = SEG (STA_X OR STA_R) 0 0xffffffff DPL_USER" "g ! 4 = SEG STA_W 0 0xffffffff DPL_USER"
    "g ! 5 = SEG (STA_X OR STA_R) 0x200000 0xffffffff DPL_USER" "g ! 6 = SEG STA_W 0x200000 0xffffffff DPL_USER"
    "g ! 7 = (SEG16 STS_T32A tss (sizeof_TSS - 1) DPL_KERN)\<lparr>sflag := 0\<rparr>" "g ! 8 = SEG STA_W 0xB8000 0xffffffff DPL_USER"
  using assms by (auto simp: initSeg_def Let_def exec_Inr_iffs)

lemma initSeg_bss: "\<exists>g k1. initSeg tss gdt bss = Inr (g, k1)"
  by (simp add: initSeg_def Let_def bss_def pcb_ref_def)

text \<open>C39: the segments of the first program start at address 0 and those that fork gives a child at 0x200000, both with
  privilege 3 and 4 GB long; the kernel's and the task state's have privilege 0, the screen's 3. So the address at which the kernel follows a pointer of
  process 2 is the one the process means, and likewise for a process with the first segments; but a child
  with any other number has its pointers followed 0x200000 bytes too low.\<close>

theorem segments_and_pointers:
  assumes "length gdt = 9" and "initSeg tss gdt k0 = Inr (g, k1)"
  shows "linear g (tf_ds (tf (first_pcb m e b))) a = a \<and> linear g (tf_cs (tf (first_pcb m e b))) a = a
    \<and> linear g (tf_ds (child_tf t)) a = a + 0x200000 \<and> linear g (tf_cs (child_tf t)) a = a + 0x200000
    \<and> (\<forall>i. 1 \<le> i \<and> i \<le> 6 \<longrightarrow> seg_limit (g ! i) = 0xffffffff)
    \<and> (\<forall>i. 1 \<le> i \<and> i \<le> 8 \<longrightarrow> dpl (g ! i) = (if 3 \<le> i \<and> i \<le> 6 \<or> i = 8 then 3 else 0))
    \<and> seg_base (g ! 7) = tss \<and> linear g (tf_gs (child_tf t)) a = a + 0xB8000
    \<and> (pid (cur k) = 2 \<longrightarrow> user_ptr k a = unat (linear g (tf_ds (child_tf t)) a))
    \<and> (pid (cur k) \<noteq> 2 \<longrightarrow> user_ptr k a = unat (linear g (tf_ds (tf (first_pcb m e b))) a)
         \<and> linear g (tf_ds (child_tf t)) a = word_of_nat (user_ptr k a) + 0x200000)"
proof -
  note g = initSeg_entries [OF assms]
  have u: "unat (drop_bit 3 (USEL d)) = unat d" "unat (drop_bit 3 (KSEL d)) = unat d" if "unat d < 9" for d
  proof -
    have "d \<in> set (map word_of_nat [0..<9])" using that by (auto intro!: image_eqI [of _ _ "unat d"])
    then have "d \<in> {0, 1, 2, 3, 4, 5, 6, 7, 8}" by (simp add: upt_rec)
    then show "unat (drop_bit 3 (USEL d)) = unat d" "unat (drop_bit 3 (KSEL d)) = unat d"
      by (auto simp: USEL_def KSEL_def)
  qed
  have l: "linear g (tf_ds (tf (first_pcb m e b))) a = a" "linear g (tf_cs (tf (first_pcb m e b))) a = a"
    "linear g (tf_ds (child_tf t)) a = a + 0x200000" "linear g (tf_cs (child_tf t)) a = a + 0x200000"
    "linear g (tf_gs (child_tf t)) a = a + 0xB8000"
    by (simp_all add: linear_def first_pcb_def child_tf_def u g(3,4,5,6,8))
  have "seg_limit (g ! i) = 0xffffffff" if "1 \<le> i \<and> i \<le> 6" for i
  proof -
    have "i = 1 \<or> i = 2 \<or> i = 3 \<or> i = 4 \<or> i = 5 \<or> i = 6" using that by linarith
    then show ?thesis by (elim disjE) (simp_all only: g seg_limit_all)
  qed
  moreover have "dpl (g ! i) = (if 3 \<le> i \<and> i \<le> 6 \<or> i = 8 then 3 else 0)" if "1 \<le> i \<and> i \<le> 8" for i
  proof -
    have "i = 1 \<or> i = 2 \<or> i = 3 \<or> i = 4 \<or> i = 5 \<or> i = 6 \<or> i = 7 \<or> i = 8" using that by linarith
    then show ?thesis by (elim disjE) (simp_all only: g segdesc_simps, simp_all)
  qed
  moreover have "seg_base (g ! 7) = tss"
    using seg_base_SEG(2) [of STS_T32A tss "sizeof_TSS - 1" DPL_KERN] by (simp add: g(7) seg_base_def)
  ultimately show ?thesis using l by (simp add: user_ptr_def add.commute)
qed

theorem segments_and_pointers_witness:
  "\<exists>g k1. initSeg 0x120000 (replicate 9 (SEG 0 0 0 0)) bss = Inr (g, k1)
    \<and> linear g (tf_ds (child_tf zero_tf)) 0x250000 = 0x450000"
proof -
  obtain g k1 where i: "initSeg 0x120000 (replicate 9 (SEG 0 0 0 0)) bss = Inr (g, k1)" using initSeg_bss by blast
  have "length (replicate 9 (SEG 0 0 0 0)) = 9" by simp
  from segments_and_pointers [OF this i, of _ _ _ "0x250000" zero_tf] i show ?thesis by auto
qed

end
