(* ===== verification/Hardware.thy ===== *)
theory Hardware
  imports Printing
begin

text \<open>
  The set-up of the devices (serial.c, i8259.c and i8253.c of kernel/kernel), as the sequence of the
  bytes written to ports, and the end of every failed assertion, kernel/lib/abort.c: the
  message it puts together in a buffer and sends to the serial port.
\<close>

section \<open>Port writes\<close>

type_synonym port_log = "(u16 \<times> u8) list"

definition outByte :: "u16 \<Rightarrow> int \<Rightarrow> port_log \<Rightarrow> port_log" where
  "outByte port data l = l @ [(port, word_of_int data)]"

abbreviation (input) SERIAL_PORT :: u16 where "SERIAL_PORT \<equiv> 0x3F8"
abbreviation (input) PORT_PIC_MASTER :: u16 where "PORT_PIC_MASTER \<equiv> 0x20"
abbreviation (input) PORT_PIC_SLAVE :: u16 where "PORT_PIC_SLAVE \<equiv> 0xA0"
abbreviation (input) TIMER_PORT :: u16 where "TIMER_PORT \<equiv> 0x40"

definition initSerial :: "port_log \<Rightarrow> port_log" where
  "initSerial l = fold (\<lambda>(p, d). outByte (SERIAL_PORT + p) d)
     [(1, 0x00), (3, 0x80), (0, 0x01), (1, 0x00), (3, 0x03), (2, 0xC7), (4, 0x0B)] l"

definition initIntr :: "port_log \<Rightarrow> port_log" where
  "initIntr l = fold (\<lambda>(p, d). outByte p d)
     [(PORT_PIC_MASTER + 1, 0xFF), (PORT_PIC_SLAVE + 1, 0xFF),
      (PORT_PIC_MASTER, 0x11), (PORT_PIC_MASTER + 1, 32), (PORT_PIC_MASTER + 1, 1 * 4), (PORT_PIC_MASTER + 1, 0x3),
      (PORT_PIC_SLAVE, 0x11), (PORT_PIC_SLAVE + 1, 32 + 8), (PORT_PIC_SLAVE + 1, 2), (PORT_PIC_SLAVE + 1, 0x3),
      (PORT_PIC_MASTER, 0x68), (PORT_PIC_MASTER, 0x0A), (PORT_PIC_SLAVE, 0x68), (PORT_PIC_SLAVE, 0x0A)] l"

definition initTimer :: "port_log \<Rightarrow> port_log exec" where
  "initTimer l =
     (let counter = 1193182 div 100 :: int
      in require (counter < 65536) (AssertFail ''i8253.c'' 11)
           (Inr (outByte TIMER_PORT (counter div 256) (outByte TIMER_PORT (counter mod 256)
                  (outByte (TIMER_PORT + 3) 0x34 l)))))"

lemma initTimer_counter: "\<exists>lo hi. initTimer l = Inr (l @ [(0x43, 0x34), (0x40, lo), (0x40, hi)])
    \<and> unat lo + 256 * unat hi = 11931"
  by (simp add: initTimer_def outByte_def)


section \<open>The message of a failed assertion\<close>

text \<open>
  \<open>i2A\<close>: the digits go into the 30 bytes of \<open>buf\<close> from the back, \<open>p\<close> is the last byte written; line
  numbers are not negative.
\<close>

function i2A_from :: "u8 list \<Rightarrow> nat \<Rightarrow> nat \<Rightarrow> (u8 list \<times> nat) exec" where
  "i2A_from buf p a = require (0 < p \<and> p \<le> length buf) OutOfBounds
     (let buf = buf[p - 1 := word_of_nat (48 + a mod 10)]
      in if a div 10 \<noteq> 0 then i2A_from buf (p - 1) (a div 10) else Inr (buf, p - 1))"
  by pat_completeness auto
termination by (relation "measure (\<lambda>(buf, p, a). a)") auto

definition i2A :: "nat \<Rightarrow> u8 list exec" where
  "i2A a = bind_r (i2A_from (replicate 30 0) 29 a) (\<lambda>(buf, p). Inr (drop p buf))"

text \<open>\<open>append\<close>: the string goes to \<open>buf\<close> at \<open>p\<close>, which moves behind it.\<close>

fun append_str :: "u8 list \<Rightarrow> u8 list \<times> nat \<Rightarrow> (u8 list \<times> nat) exec" where
  "append_str [] (buf, p) = Inl OutOfBounds"
| "append_str (c # str) (buf, p) =
     (if c \<noteq> 0 then require (p < length buf) OutOfBounds (append_str str (buf[p := c], p + 1)) else Inr (buf, p))"

definition blue_screen_text :: "u8 list" where
  "blue_screen_text = map of_char ''Assertion failed: ''"

text \<open>The last loop of \<open>displayMessage\<close>.\<close>

fun put_message :: "u8 list \<Rightarrow> u8 list \<Rightarrow> u8 list exec" where
  "put_message [] out = Inl OutOfBounds"
| "put_message (c # p) out = (if c \<noteq> 0 then bind_r (putChar c out) (put_message p) else Inr out)"

definition displayMessage :: "u8 list \<Rightarrow> nat \<Rightarrow> u8 list \<Rightarrow> u8 list exec" where
  "displayMessage fname line out =
     (let buf = blue_screen_text @ replicate (256 - length blue_screen_text) 0
      in bind_r (append_str fname (buf, length blue_screen_text)) (\<lambda>b.
         bind_r (append_str (c_lit '':'') b) (\<lambda>b.
         bind_r (i2A line) (\<lambda>s.
         bind_r (append_str s b) (\<lambda>b.
         bind_r (append_str (c_lit [CHR 0x0A]) b) (\<lambda>(buf, p). put_message buf out))))))"

declare i2A_from.simps [simp del]

lemma dec_digits_length: "0 < d \<Longrightarrow> n < 10 ^ d \<Longrightarrow> length (dec_digits n) \<le> d"
proof (induction d arbitrary: n)
  case (Suc d)
  show ?case
  proof (cases "n < 10")
    case False
    then have "0 < d" using Suc.prems by (cases d) auto
    then have "length (dec_digits (n div 10)) \<le> d" using Suc by (intro Suc.IH) auto
    then show ?thesis using False by (simp add: dec_digits.simps [of n])
  qed (simp add: dec_digits.simps [of n])
qed simp

lemma i2A_from_eq:
  "length (dec_digits a) \<le> p \<Longrightarrow> p \<le> length buf \<Longrightarrow> i2A_from buf p a =
    Inr (take (p - length (dec_digits a)) buf @ dec_digits a @ drop p buf, p - length (dec_digits a))"
proof (induction a arbitrary: buf p rule: dec_digits.induct)
  case (1 a)
  have ne: "0 < length (dec_digits a)" using dec_digits_nonempty by simp
  then have p: "0 < p" "p - 1 < length buf" using 1(2,3) by linarith+
  have u: "buf[p - 1 := x] = take (p - 1) buf @ x # drop p buf" for x
    using p upd_conv_take_nth_drop [of "p - 1" buf x] by simp
  show ?case
  proof (cases "a < 10")
    case True
    then show ?thesis using p 1(3) u [of "word_of_nat (48 + a)"]
      by (simp add: i2A_from.simps [of buf p a] dec_digits.simps [of a] Let_def)
  next
    case False
    let ?b = "buf[p - 1 := word_of_nat (48 + a mod 10)]"
    have d: "dec_digits a = dec_digits (a div 10) @ [word_of_nat (48 + a mod 10)]"
      using False by (simp add: dec_digits.simps [of a])
    then have "length (dec_digits (a div 10)) \<le> p - 1" using 1(2) by simp
    then have "i2A_from ?b (p - 1) (a div 10) = Inr (take (p - 1 - length (dec_digits (a div 10))) ?b
        @ dec_digits (a div 10) @ drop (p - 1) ?b, p - 1 - length (dec_digits (a div 10)))"
      using 1(1) [OF False, of "p - 1" ?b] p by simp
    moreover have "drop (p - 1) ?b = word_of_nat (48 + a mod 10) # drop p buf"
      "take (p - 1 - m) ?b = take (p - 1 - m) buf" for m
      unfolding u using p by simp_all
    ultimately show ?thesis using False p 1(3) by (simp add: i2A_from.simps [of buf p a] d Let_def div_eq_0_iff)
  qed
qed

lemma i2A_eq: "a < 2147483648 \<Longrightarrow> i2A a = Inr (dec_digits a @ [0])"
proof -
  assume "a < 2147483648"
  then have "length (dec_digits a) \<le> 10" by (intro dec_digits_length) simp_all
  then show ?thesis
    using i2A_from_eq [of a 29 "replicate 30 0"] by (simp add: i2A_def)
qed

lemma append_str_eq:
  "0 \<notin> set s \<Longrightarrow> p + length s \<le> length buf \<Longrightarrow>
    append_str (s @ 0 # r) (buf, p) = Inr (take p buf @ s @ drop (p + length s) buf, p + length s)"
proof (induction s arbitrary: buf p)
  case (Cons c s)
  then have "append_str (s @ 0 # r) (buf[p := c], p + 1) =
      Inr (take (p + 1) (buf[p := c]) @ s @ drop (p + 1 + length s) (buf[p := c]), p + 1 + length s)"
    by (intro Cons.IH) auto
  moreover have "take (p + 1) (buf[p := c]) = take p buf @ [c]" using Cons.prems by (simp add: take_Suc_conv_app_nth)
  ultimately show ?case using Cons.prems by simp
qed simp

text \<open>Appending into the zeros behind what is there.\<close>

lemma append_str_zeros:
  assumes "terminated s" and "length (cstr s) \<le> n"
  shows "append_str s (t @ replicate n 0, length t) =
    Inr ((t @ cstr s) @ replicate (n - length (cstr s)) 0, length (t @ cstr s))"
proof -
  obtain r where s: "s = cstr s @ 0 # r" using terminated_split [OF assms(1)] by blast
  have "append_str (cstr s @ 0 # r) (t @ replicate n 0, length t) =
      Inr (take (length t) (t @ replicate n 0) @ cstr s @ drop (length t + length (cstr s)) (t @ replicate n 0),
        length t + length (cstr s))"
    by (rule append_str_eq) (use assms(2) in auto)
  then show ?thesis using s by simp
qed

lemma put_message_eq: "0 \<notin> set t \<Longrightarrow> put_message (t @ 0 # r) out = Inr (out @ t)"
  by (induction t arbitrary: out) (auto simp: putChar_def)

lemma zero_notin_dec_digits: "0 \<notin> set (dec_digits n)"
proof
  assume "0 \<in> set (dec_digits n)"
  then have "is_digit 0" using dec_digits_are_digits by blast
  then show False by (simp add: is_digit_def)
qed

text \<open>A failed assertion sends the text, the file name, a colon, the line in decimal and a newline to
  the serial port, for every file name that leaves room in the 256 bytes of the buffer.\<close>

lemma abort_message:
  assumes "terminated fname" and "line < 2147483648" and "length (cstr fname) < 226"
  shows "displayMessage fname line out =
    Inr (out @ map of_char ''Assertion failed: '' @ cstr fname @ [58] @ dec_digits line @ [10])"
proof -
  let ?f = "cstr fname" and ?d = "dec_digits line" and ?t = blue_screen_text
  have d: "length ?d \<le> 10" using assms(2) by (intro dec_digits_length) simp_all
  have l: "length ?t = 18" "0 \<notin> set ?t" by (simp_all add: blue_screen_text_def)
  have c: "terminated (c_lit '':'')" "cstr (c_lit '':'') = [58]" "terminated (c_lit [CHR 0x0A])" "cstr (c_lit [CHR 0x0A]) = [10]"
    by (simp_all add: c_lit_def)
  have s: "terminated (?d @ [0])" "cstr (?d @ [0]) = ?d" using zero_notin_dec_digits by simp_all
  have a1: "append_str fname (?t @ replicate 238 0, 18) = Inr ((?t @ ?f) @ replicate (238 - length ?f) 0, length (?t @ ?f))"
    using append_str_zeros [OF assms(1), of 238 ?t] assms(3) l(1) by simp
  have a2: "append_str (c_lit '':'') ((?t @ ?f) @ replicate (238 - length ?f) 0, length (?t @ ?f)) =
      Inr ((?t @ ?f @ [58]) @ replicate (237 - length ?f) 0, length (?t @ ?f @ [58]))"
    using append_str_zeros [OF c(1), of "238 - length ?f" "?t @ ?f"] assms(3) by (simp add: c(2))
  have a3: "append_str (?d @ [0]) ((?t @ ?f @ [58]) @ replicate (237 - length ?f) 0, length (?t @ ?f @ [58])) =
      Inr ((?t @ ?f @ [58] @ ?d) @ replicate (237 - length ?f - length ?d) 0, length (?t @ ?f @ [58] @ ?d))"
    using append_str_zeros [OF s(1), of "237 - length ?f" "?t @ ?f @ [58]"] assms(3) d by (simp add: s(2))
  have a4: "append_str (c_lit [CHR 0x0A]) ((?t @ ?f @ [58] @ ?d) @ replicate (237 - length ?f - length ?d) 0, length (?t @ ?f @ [58] @ ?d)) =
      Inr ((?t @ ?f @ [58] @ ?d @ [10]) @ replicate (236 - length ?f - length ?d) 0, length (?t @ ?f @ [58] @ ?d @ [10]))"
    using append_str_zeros [OF c(3), of "237 - length ?f - length ?d" "?t @ ?f @ [58] @ ?d"] assms(3) d by (simp add: c(4))
  obtain z where z: "replicate (236 - length ?f - length ?d) (0::u8) = 0 # z"
    using assms(3) d by (cases "236 - length ?f - length ?d") auto
  have "put_message ((?t @ ?f @ [58] @ ?d @ [10]) @ 0 # z) out = Inr (out @ ?t @ ?f @ [58] @ ?d @ [10])"
    by (rule put_message_eq) (use l(2) zero_notin_dec_digits in auto)
  then show ?thesis
    unfolding displayMessage_def Let_def l(1)
    using a1 a2 a3 a4 i2A_eq [OF assms(2)] z by (simp add: blue_screen_text_def)
qed

lemma abort_message_witness:
  "displayMessage (c_lit ''fs.c'') 316 [] = Inr (map of_char ''Assertion failed: fs.c:316'' @ [10])"
proof -
  have d: "dec_digits 316 = [51, 49, 54]" by (simp add: dec_digits.simps)
  have c: "terminated (c_lit ''fs.c'')" "cstr (c_lit ''fs.c'') = map of_char ''fs.c''"
    by (simp_all add: c_lit_def)
  have "length (cstr (c_lit ''fs.c'')) < 226" by (simp add: c(2))
  from abort_message [OF c(1) _ this, of 316 "[]"] show ?thesis unfolding c(2) d by simp
qed

end
