(* ===== verification/Loader.thy ===== *)
theory Loader
  imports Fsimage Process
begin

text \<open>
  Loading programs: the ELF headers of kernel/include/x86/io.h, the loop over the program
  headers that bootloader/boot.c (\<open>bootMain\<close>, for the kernel) and kernel/kernel/kvm.c (\<open>loadUMain\<close>, for the
  first program) both contain, and the rest of \<open>loadUMain\<close>. \<open>readBytes\<close> moves whole sectors, so each segment
  drags the bytes around it in the file along; \<open>loaded\<close> states under which condition the segments
  come out right nevertheless.
\<close>

section \<open>ELF headers\<close>

definition get16 :: "(nat \<Rightarrow> u8) \<Rightarrow> nat \<Rightarrow> nat" where
  "get16 m a = unat (m a) + 256 * unat (m (a + 1))"

record elf_header =
  e_entry :: u32
  phoff :: nat
  phnum :: nat

text \<open>\<open>entry\<close>, \<open>phoff\<close> and \<open>phnum\<close> of \<open>struct ELFHeader\<close> at \<open>a\<close>.\<close>

definition get_elf :: "(nat \<Rightarrow> u8) \<Rightarrow> nat \<Rightarrow> elf_header" where
  "get_elf m a = \<lparr>e_entry = get32 m (a + 24), phoff = unat (get32 m (a + 28)), phnum = get16 m (a + 44)\<rparr>"

record prog_header =
  ptype :: u32
  off :: nat
  paddr :: nat
  filesz :: nat
  memsz :: nat

text \<open>\<open>struct ProgramHeader\<close>, 32 bytes; the fields \<open>vaddr\<close>, \<open>flags\<close> and \<open>align\<close> are not read.\<close>

definition get_ph :: "(nat \<Rightarrow> u8) \<Rightarrow> nat \<Rightarrow> prog_header" where
  "get_ph m a = \<lparr>ptype = get32 m a, off = unat (get32 m (a + 4)), paddr = unat (get32 m (a + 12)),
     filesz = unat (get32 m (a + 16)), memsz = unat (get32 m (a + 20))\<rparr>"

abbreviation (input) PT_LOAD :: u32 where "PT_LOAD \<equiv> 1"


section \<open>The loop over the program headers\<close>

text \<open>
  The body of the loop. \<open>base\<close> is where the file begins on the disk and \<open>area a n\<close> says which memory may be overwritten:
  the sectors of the segment must lie there, as must the bytes cleared behind it. The offset is added in 32 bits and it and the
  size become \<open>int\<close>s on the way to \<open>readBytes\<close>: from \<open>2 ^ 31\<close> on they are negative there. The bounds of the zeros
  are sums of 32 bits.
\<close>

definition fits :: "(nat \<Rightarrow> nat \<Rightarrow> bool) \<Rightarrow> nat \<Rightarrow> nat \<Rightarrow> bool" where
  "fits area a n \<longleftrightarrow> n = 0 \<or> area a n"

definition load_segment :: "(nat \<Rightarrow> nat \<Rightarrow> bool) \<Rightarrow> nat \<Rightarrow> (nat \<Rightarrow> u8) \<Rightarrow> prog_header \<Rightarrow> (nat \<Rightarrow> u8) \<Rightarrow> (nat \<Rightarrow> u8) exec" where
  "load_segment area base hd0 h m =
     (if ptype h = PT_LOAD
      then let diskoff = wrap32 (int (base + off h)); cont = wrap32 (int (filesz h)); back = diskoff smod int SECTSIZE;
               beg = (paddr h + filesz h) mod 4294967296; fin = (paddr h + memsz h) mod 4294967296
           in require (fits area (nat (int (paddr h) - back)) (512 * sectors (nat (cont + back)))
                  \<and> fits area beg (fin - beg)) OutOfBounds
             (bind_r (readBytes (paddr h) diskoff cont hd0 m) (\<lambda>m. Inr (mem_set beg fin 0 m)))
      else Inr m)"

fun load_segments :: "(nat \<Rightarrow> nat \<Rightarrow> bool) \<Rightarrow> nat \<Rightarrow> (nat \<Rightarrow> u8) \<Rightarrow> prog_header list \<Rightarrow> (nat \<Rightarrow> u8) \<Rightarrow> (nat \<Rightarrow> u8) exec" where
  "load_segments area base hd0 [] m = Inr m"
| "load_segments area base hd0 (h # hs) m =
     bind_r (load_segment area base hd0 h m) (load_segments area base hd0 hs)"

text \<open>\<open>for(ph_end = ph + elf->phnum; ph < ph_end; ph++)\<close>: the headers in the 4096 bytes read.\<close>

definition headers :: "(nat \<Rightarrow> u8) \<Rightarrow> nat \<Rightarrow> prog_header list exec" where
  "headers m a =
     (let elf = get_elf m a
      in require (phoff elf + 32 * phnum elf \<le> 4096) OutOfBounds
           (Inr (map (\<lambda>i. get_ph m (a + phoff elf + 32 * i)) [0..<phnum elf])))"


section \<open>The two loaders\<close>

text \<open>
  \<open>bootMain\<close> up to the jump; the result is the entry point. The headers stay at 0x8000 while the
  kernel is loaded above 1 MB.
\<close>

definition boot_area :: "nat \<Rightarrow> nat \<Rightarrow> bool" where
  "boot_area a n \<longleftrightarrow> 0x9000 \<le> a \<and> a + n \<le> 4294967296"

definition bootMain :: "(nat \<Rightarrow> u8) \<Rightarrow> (nat \<Rightarrow> u8) \<Rightarrow> (u32 \<times> (nat \<Rightarrow> u8)) exec" where
  "bootMain hd0 m =
     bind_r (readBytes 0x8000 512 4096 hd0 m) (\<lambda>m.
     bind_r (headers m 0x8000) (\<lambda>hs.
     bind_r (load_segments boot_area 512 hd0 hs m) (\<lambda>m.
       Inr (e_entry (get_elf m 0x8000), m))))"

abbreviation (input) USER_OFFSET_IN_DISK :: nat where "USER_OFFSET_IN_DISK \<equiv> 512 + 102400"

text \<open>
  \<open>loadUMain\<close>. Its static \<open>buffer\<close> is an object of the kernel, kept apart from \<open>mem\<close>; \<open>USER_OFFSET_IN_DISK\<close> is a multiple of
  512, so reading 4096 bytes fills exactly the buffer.
\<close>

definition loadUMain :: "kernel \<Rightarrow> kernel exec" where
  "loadUMain k =
     bind_r (printk (c_lit (''loading user app from disk...'' @ [CHR 0x0A])) [] (serial k)) (\<lambda>out.
     bind_r (readBytes 0 (int USER_OFFSET_IN_DISK) 4096 (disk k) (\<lambda>i. 0)) (\<lambda>buffer.
     bind_r (headers buffer 0) (\<lambda>hs.
     bind_r (load_segments user_area USER_OFFSET_IN_DISK (disk k) hs (mem k)) (\<lambda>m.
       preparePCB (e_entry (get_elf buffer 0)) (k\<lparr>serial := out, mem := m\<rparr>)))))"


section \<open>What is loaded\<close>

text \<open>The bytes of memory that loading \<open>h\<close> writes, and those that are the segment's own.\<close>

definition touched :: "nat \<Rightarrow> prog_header \<Rightarrow> nat set" where
  "touched base h =
     (if ptype h = PT_LOAD
      then {paddr h - (base + off h) mod 512 ..< paddr h - (base + off h) mod 512
              + 512 * sectors (filesz h + (base + off h) mod 512)} \<union> {paddr h + filesz h ..< paddr h + memsz h}
      else {})"

definition owned :: "prog_header \<Rightarrow> nat set" where
  "owned h = (if ptype h = PT_LOAD then {paddr h ..< paddr h + max (filesz h) (memsz h)} else {})"

text \<open>\<open>m\<close> holds the segment: the bytes of the file, then zeros.\<close>

definition loaded :: "nat \<Rightarrow> (nat \<Rightarrow> u8) \<Rightarrow> prog_header \<Rightarrow> (nat \<Rightarrow> u8) \<Rightarrow> bool" where
  "loaded base hd0 h m \<longleftrightarrow> ptype h = PT_LOAD \<longrightarrow>
     (\<forall>j < filesz h. m (paddr h + j) = hd0 (base + off h + j))
     \<and> (\<forall>j. filesz h \<le> j \<longrightarrow> j < memsz h \<longrightarrow> m (paddr h + j) = 0)"

text \<open>A header the loader can follow: the segment is in the permitted memory, and its offset and size are \<open>int\<close>s.\<close>

definition loadable :: "(nat \<Rightarrow> nat \<Rightarrow> bool) \<Rightarrow> nat \<Rightarrow> prog_header \<Rightarrow> bool" where
  "loadable area base h \<longleftrightarrow> ptype h = PT_LOAD \<longrightarrow>
     fits area (paddr h - (base + off h) mod 512) (512 * sectors (filesz h + (base + off h) mod 512))
     \<and> fits area (paddr h + filesz h) (memsz h - filesz h) \<and> (base + off h) mod 512 \<le> paddr h
     \<and> base + off h < 2147483648 \<and> filesz h < 2147483648
     \<and> paddr h + filesz h + 512 \<le> 4294967296 \<and> paddr h + memsz h < 4294967296"

lemma load_segment_eq:
  assumes "loadable area base h" and "ptype h = PT_LOAD"
  defines "r \<equiv> (base + off h) mod 512"
  shows "load_segment area base hd0 h m = Inr (mem_set (paddr h + filesz h) (paddr h + memsz h) 0
    (blit (paddr h - r) (512 * ((base + off h) div 512)) (512 * sectors (filesz h + r)) hd0 m))"
proof -
  have l: "fits area (paddr h - r) (512 * sectors (filesz h + r))" "fits area (paddr h + filesz h) (memsz h - filesz h)"
    "r \<le> paddr h" "base + off h < 2147483648" "filesz h < 2147483648" "paddr h + filesz h + 512 \<le> 4294967296"
    "paddr h + memsz h < 4294967296"
    using assms(1,2) by (simp_all add: loadable_def r_def)
  have w: "wrap32 (int (base + off h)) = int (base + off h)" "wrap32 (int (filesz h)) = int (filesz h)"
    using l(4,5) by (intro wrap32_id; linarith)+
  have b: "(paddr h + filesz h) mod 4294967296 = paddr h + filesz h" "(paddr h + memsz h) mod 4294967296 = paddr h + memsz h"
    using l(6,7) by (intro mod_less; linarith)+
  have e: "int (base + off h) smod int SECTSIZE = int r" unfolding r_def by (rule int_smod)
  have n: "int (paddr h) - int r = int (paddr h - r)" "int (filesz h) + int r = int (filesz h + r)" using l(3) by linarith+
  have z: "paddr h + memsz h - (paddr h + filesz h) = memsz h - filesz h" by linarith
  have rb: "readBytes (paddr h) (int (base + off h)) (int (filesz h)) hd0 m =
      Inr (blit (paddr h - r) (512 * ((base + off h) div 512)) (512 * sectors (filesz h + r)) hd0 m)"
    unfolding r_def by (rule readBytes_eq) (use l r_def in linarith)+
  show ?thesis unfolding load_segment_def Let_def w b e n nat_int z rb if_P [OF assms(2)]
    using l(1,2) by (simp only: require_def simp_thms if_True bind_r_Inr)
qed

lemma load_segment_ok:
  assumes "loadable area base h"
  shows "\<exists>m'. load_segment area base hd0 h m = Inr m' \<and> loaded base hd0 h m'
    \<and> (\<forall>a. a \<notin> touched base h \<longrightarrow> m' a = m a)"
proof (cases "ptype h = PT_LOAD")
  case False
  then show ?thesis by (simp add: load_segment_def loaded_def)
next
  case True
  define r where "r = (base + off h) mod 512"
  define b where "b = 512 * ((base + off h) div 512)"
  define n where "n = 512 * sectors (filesz h + r)"
  define m1 where "m1 = blit (paddr h - r) b n hd0 m"
  define m2 where "m2 = mem_set (paddr h + filesz h) (paddr h + memsz h) 0 m1"
  have e: "load_segment area base hd0 h m = Inr m2"
    using load_segment_eq [OF assms True] by (simp add: m2_def m1_def r_def b_def n_def)
  have rp: "r \<le> paddr h" using assms True by (simp add: loadable_def r_def)
  have br: "b + r = base + off h" by (simp add: b_def r_def)
  have nn: "filesz h + r \<le> n" using sectors_bounds [of "filesz h + r"] by (simp add: n_def)
  have bytes: "m2 (paddr h + j) = hd0 (base + off h + j)" if "j < filesz h" for j
  proof -
    have "m1 (paddr h - r + (r + j)) = hd0 (b + (r + j))"
      unfolding m1_def using nn that by (intro blit_same) linarith
    moreover have "paddr h - r + (r + j) = paddr h + j" "b + (r + j) = base + off h + j"
      using rp br by linarith+
    ultimately show ?thesis using that by (simp add: m2_def mem_set_eq)
  qed
  have zeros: "m2 (paddr h + j) = 0" if "filesz h \<le> j" "j < memsz h" for j
    using that by (simp add: m2_def mem_set_eq)
  have "m2 a = m a" if "a \<notin> touched base h" for a
    using that True unfolding touched_def r_def [symmetric] n_def [symmetric]
    by (auto simp: m2_def m1_def mem_set_eq blit_def)
  then show ?thesis using e bytes zeros True unfolding loaded_def by blast
qed

lemma loaded_cong: "(\<And>a. a \<in> owned h \<Longrightarrow> m' a = m a) \<Longrightarrow> loaded base hd0 h m \<Longrightarrow> loaded base hd0 h m'"
  by (auto simp: loaded_def owned_def)

text \<open>No later segment may touch what an earlier one owns.\<close>

fun in_order :: "nat \<Rightarrow> prog_header list \<Rightarrow> bool" where
  "in_order base [] \<longleftrightarrow> True"
| "in_order base (h # hs) \<longleftrightarrow> (\<forall>g\<in>set hs. touched base g \<inter> owned h = {}) \<and> in_order base hs"

lemma load_segments_ok:
  assumes "\<forall>h\<in>set hs. loadable area base h" and "in_order base hs"
  shows "\<exists>m'. load_segments area base hd0 hs m = Inr m' \<and> (\<forall>h\<in>set hs. loaded base hd0 h m')
    \<and> (\<forall>a. (\<forall>h\<in>set hs. a \<notin> touched base h) \<longrightarrow> m' a = m a)"
  using assms
proof (induction hs arbitrary: m)
  case (Cons h hs)
  obtain m1 where m1: "load_segment area base hd0 h m = Inr m1" "loaded base hd0 h m1"
    "\<forall>a. a \<notin> touched base h \<longrightarrow> m1 a = m a"
    using load_segment_ok [of area base h hd0 m] Cons.prems by auto
  have "\<forall>h\<in>set hs. loadable area base h" "in_order base hs" using Cons.prems by simp_all
  from Cons.IH [OF this, of m1]
  obtain m2 where m2: "load_segments area base hd0 hs m1 = Inr m2" "\<forall>h\<in>set hs. loaded base hd0 h m2"
    "\<forall>a. (\<forall>h\<in>set hs. a \<notin> touched base h) \<longrightarrow> m2 a = m1 a" by blast
  have "m2 a = m1 a" if "a \<in> owned h" for a using m2(3) that Cons.prems(2) by auto
  from loaded_cong [OF this m1(2)] show ?case using m1 m2 by auto
qed simp

lemma get_cong: 
  assumes "\<And>j. j < 4096 \<Longrightarrow> m' (a + j) = m (a + j)"
  shows "get_elf m' a = get_elf m a" and "headers m' a = headers m a"
proof -
  have g: "get32 m' (a + i) = get32 m (a + i)" if "i + 4 \<le> 4096" for i
    using assms that by (intro get32_cong) (simp add: add.assoc)
  have g0: "get16 m' (a + 44) = get16 m (a + 44)"
    using assms [of 44] assms [of 45] by (simp add: get16_def add.commute [of 1] add.commute [of _ a])
  show e: "get_elf m' a = get_elf m a" using g g0 by (simp add: get_elf_def)
  have "get_ph m' (a + i) = get_ph m (a + i)" if "i + 32 \<le> 4096" for i
    using that g [of i] g [of "i + 4"] g [of "i + 12"] g [of "i + 16"] g [of "i + 20"]
    by (simp add: get_ph_def add.assoc)
  then have "get_ph m' (a + phoff (get_elf m a) + 32 * i) = get_ph m (a + phoff (get_elf m a) + 32 * i)"
    if "phoff (get_elf m a) + 32 * phnum (get_elf m a) \<le> 4096" "i < phnum (get_elf m a)" for i
    using that by (simp add: add.assoc)
  then show "headers m' a = headers m a" by (simp add: headers_def e Let_def require_def)
qed

end
