(* ===== verification/Loading.thy ===== *)
theory Loading
  imports Loader Startup
begin

text \<open>
  The properties of the loaders: what memory holds and where execution starts, for the first
  program and for the kernel itself, applied to a disk with a small ELF file.
\<close>

section \<open>The first program\<close>

lemma buffer_bytes:
  "\<exists>b. readBytes 0 (int USER_OFFSET_IN_DISK) 4096 d (\<lambda>i. 0) = Inr b \<and> (\<forall>j<4096. b j = d (USER_OFFSET_IN_DISK + j))"
proof -
  have "readBytes 0 (int USER_OFFSET_IN_DISK) 4096 d (\<lambda>i. 0) =
      Inr (blit 0 (512 * (USER_OFFSET_IN_DISK div 512)) (512 * sectors 4096) d (\<lambda>i. 0))"
    using readBytes_eq [of USER_OFFSET_IN_DISK 0 4096 d "\<lambda>i. 0"] by (simp only: of_nat_numeral) simp
  then show ?thesis by (simp add: blit_def sectors_def)
qed

lemma format_plain: "0 \<notin> set t \<Longrightarrow> 37 \<notin> set t \<Longrightarrow> format_text (t @ [0]) args = Some t"
  by (induction t) auto

definition loading_text :: "u8 list" where
  "loading_text = map of_char (''loading user app from disk...'' @ [CHR 0x0A])"

lemma loading_text_printk: "printk (c_lit (''loading user app from disk...'' @ [CHR 0x0A])) [] out = Inr (out @ loading_text)"
proof -
  have "c_lit (''loading user app from disk...'' @ [CHR 0x0A]) = loading_text @ [0]"
    by (simp add: c_lit_def loading_text_def)
  moreover have "format_text (loading_text @ [0]) [] = Some loading_text"
    by (rule format_plain) (simp_all add: loading_text_def)
  ultimately show ?thesis using printk_text by simp
qed

text \<open>\<open>loadUMain\<close> brings every loadable segment of the ELF file on the disk to its address, its bytes first and zeros up
  to its size in memory, if no later segment's sectors reach into it; then the first process stands ready at the
  file's entry point.\<close>

lemma loadUMain_ok:
  assumes "clock_ok k boot_sched" and "p_num k = 1"
    and "headers (\<lambda>j. disk k (USER_OFFSET_IN_DISK + j)) 0 = Inr hs"
    and "\<forall>h\<in>set hs. loadable user_area USER_OFFSET_IN_DISK h" and "in_order USER_OFFSET_IN_DISK hs"
  shows "\<exists>k'. loadUMain k = Inr k' \<and> (\<forall>h\<in>set hs. loaded USER_OFFSET_IN_DISK (disk k) h (mem k'))
    \<and> (\<forall>a. (\<forall>h\<in>set hs. a \<notin> touched USER_OFFSET_IN_DISK h) \<longrightarrow> mem k' a = mem k a)
    \<and> tf_eip (tf (pcbs k' (Pcb 1))) = e_entry (get_elf (\<lambda>j. disk k (USER_OFFSET_IN_DISK + j)) 0)
    \<and> clock_ok k' loaded_sched \<and> p_num k' = 2 \<and> serial k' = serial k @ loading_text
    \<and> fs k' = fs k \<and> scr k' = scr k \<and> buf_in k' = buf_in k \<and> buf_out k' = buf_out k \<and> kaddr k' = kaddr k
    \<and> (\<exists>m out. preparePCB (e_entry (get_elf (\<lambda>j. disk k (USER_OFFSET_IN_DISK + j)) 0)) (k\<lparr>serial := out, mem := m\<rparr>) = Inr k')"
proof -
  let ?hdr = "\<lambda>j. disk k (USER_OFFSET_IN_DISK + j)"
  obtain b where b: "readBytes 0 (int USER_OFFSET_IN_DISK) 4096 (disk k) (\<lambda>i. 0) = Inr b" "\<forall>j<4096. b j = ?hdr j"
    using buffer_bytes by blast
  have e: "get_elf b 0 = get_elf ?hdr 0" "headers b 0 = Inr hs"
    using get_cong [of b 0 ?hdr] b(2) assms(3) by simp_all
  obtain m where m: "load_segments user_area USER_OFFSET_IN_DISK (disk k) hs (mem k) = Inr m"
    "\<forall>h\<in>set hs. loaded USER_OFFSET_IN_DISK (disk k) h m"
    "\<forall>a. (\<forall>h\<in>set hs. a \<notin> touched USER_OFFSET_IN_DISK h) \<longrightarrow> m a = mem k a"
    using load_segments_ok [OF assms(4,5), of "disk k" "mem k"] by blast
  define k1 where "k1 = k\<lparr>serial := serial k @ loading_text, mem := m\<rparr>"
  have "sched_rel k1 boot_sched"
    by (rule sched_rel_same [of k]) (use assms(1) in \<open>simp_all add: k1_def clock_ok_def\<close>)
  then have c: "clock_ok k1 boot_sched" "p_num k1 = 1"
    using assms(1,2) by (simp_all add: k1_def clock_ok_def)
  obtain k2 where k2: "preparePCB (e_entry (get_elf ?hdr 0)) k1 = Inr k2" "clock_ok k2 loaded_sched" "p_num k2 = 2"
    "pcbs k2 (Pcb 1) = first_pcb 1 (e_entry (get_elf ?hdr 0)) (pcbs k1 (Pcb 1))" "mem k2 = mem k1" "serial k2 = serial k1"
    "fs k2 = fs k1" "scr k2 = scr k1" "buf_in k2 = buf_in k1" "buf_out k2 = buf_out k1" "kaddr k2 = kaddr k1"
    using preparePCB_ok [OF c] by blast
  have "loadUMain k = Inr k2"
    unfolding loadUMain_def loading_text_printk b(1) e(2) m(1) bind_r_Inr e(1) using k2(1) by (simp add: k1_def)
  moreover have "\<exists>m out. preparePCB (e_entry (get_elf ?hdr 0)) (k\<lparr>serial := out, mem := m\<rparr>) = Inr k2"
    using k2(1) unfolding k1_def by blast
  ultimately show ?thesis using k2(2-) m(2,3) by (intro exI [of _ k2]) (simp add: k1_def first_pcb_def)
qed

text \<open>A disk with an ELF file: two bytes of code at 0x200000, four bytes in memory.\<close>

definition elf_bytes :: "u8 list" where
  "elf_bytes = [127, 69, 76, 70, 0, 0, 0, 0, 0, 0, 0, 0, 0, 0, 0, 0, 0, 0, 0, 0, 0, 0, 0, 0, 0, 0, 32, 0,
     52, 0, 0, 0, 0, 0, 0, 0, 0, 0, 0, 0, 0, 0, 0, 0, 1, 0, 0, 0, 0, 0, 0, 0, 1, 0, 0, 0, 0,
     16, 0, 0, 0, 0, 0, 0, 0, 0, 32, 0, 2, 0, 0, 0, 4, 0, 0, 0, 0, 0, 0, 0, 0, 0, 0, 0]"

definition elf_disk :: "nat \<Rightarrow> nat \<Rightarrow> u8" where
  "elf_disk base i = (if base \<le> i \<and> i < base + 84 then elf_bytes ! (i - base)
     else if i = base + 4096 then 0xEB else if i = base + 4097 then 0xFE else 0)"

definition elf_ph :: prog_header where
  "elf_ph = \<lparr>ptype = 1, off = 4096, paddr = 0x200000, filesz = 2, memsz = 4\<rparr>"

lemma elf_disk_headers: "get_elf (\<lambda>j. elf_disk base (base + j)) 0 = \<lparr>e_entry = 0x200000, phoff = 52, phnum = 1\<rparr>"
  "headers (\<lambda>j. elf_disk base (base + j)) 0 = Inr [elf_ph]"
proof -
  have d: "elf_disk base (base + j) = (if j < 84 then elf_bytes ! j else if j = 4096 then 0xEB
      else if j = 4097 then 0xFE else 0)" for j
    by (simp add: elf_disk_def)
  show e: "get_elf (\<lambda>j. elf_disk base (base + j)) 0 = \<lparr>e_entry = 0x200000, phoff = 52, phnum = 1\<rparr>"
    by (simp add: get_elf_def get32_def get16_def d elf_bytes_def)
  have p: "get_ph (\<lambda>j. elf_disk base (base + j)) 52 = elf_ph"
    by (simp add: get_ph_def elf_ph_def get32_def d elf_bytes_def)
  show "headers (\<lambda>j. elf_disk base (base + j)) 0 = Inr [elf_ph]"
    unfolding headers_def e Let_def elf_header.simps using p by (simp only: upt_rec [of 0 1]) simp
qed

lemma elf_ph_loadable: "loadable user_area USER_OFFSET_IN_DISK elf_ph" "in_order base [elf_ph]"
  by (simp_all add: loadable_def elf_ph_def user_area_def fits_def sectors_def)


section \<open>The kernel\<close>

text \<open>C30: The boot loader (\<open>bootMain\<close>) loads the kernel, whose file begins in sector 1: every loadable segment is in place, its bytes and then zeros, and the entry
  point it jumps to is the one in the file, whose header it keeps at 0x8000 untouched while it loads. The headers must lie in the first
  4096 bytes of the file; the segments, with the sectors around them, between 0x9000 and the end of the 32-bit address space, no one reaching
  into one before it; and offsets and sizes below \<open>2 ^ 31\<close>, where the code's \<open>int\<close>s end.\<close>

theorem boot_loads_kernel:
  assumes "headers (\<lambda>j. hd0 (512 + j)) 0 = Inr hs" and "\<forall>h\<in>set hs. loadable boot_area 512 h" and "in_order 512 hs"
  shows "\<exists>m'. bootMain hd0 m = Inr (e_entry (get_elf (\<lambda>j. hd0 (512 + j)) 0), m')
    \<and> (\<forall>h\<in>set hs. loaded 512 hd0 h m') \<and> (\<forall>j<4096. m' (0x8000 + j) = hd0 (512 + j))"
proof -
  define m1 where "m1 = blit 0x8000 512 4096 hd0 m"
  have r: "readBytes 0x8000 512 4096 hd0 m = Inr m1"
    using readBytes_eq [of 512 "0x8000" 4096 hd0 m] by (simp add: m1_def sectors_def)
  have b1: "m1 (0x8000 + j) = hd0 (512 + j)" if "j < 4096" for j using that by (simp add: m1_def)
  have sh: "headers m1 0x8000 = headers (\<lambda>j. m1 (0x8000 + j)) 0" for m1 :: "nat \<Rightarrow> u8"
    by (simp add: headers_def get_elf_def get_ph_def get32_def get16_def add.assoc Let_def)
  have se: "get_elf m1 0x8000 = get_elf (\<lambda>j. m1 (0x8000 + j)) 0" for m1 :: "nat \<Rightarrow> u8"
    by (simp add: get_elf_def get32_def get16_def add.assoc)
  have h1: "headers m1 0x8000 = Inr hs"
    using get_cong(2) [of "\<lambda>j. m1 (0x8000 + j)" 0 "\<lambda>j. hd0 (512 + j)"] b1 assms(1) by (simp add: sh)
  obtain m2 where m2: "load_segments boot_area 512 hd0 hs m1 = Inr m2" "\<forall>h\<in>set hs. loaded 512 hd0 h m2"
    "\<forall>a. (\<forall>h\<in>set hs. a \<notin> touched 512 h) \<longrightarrow> m2 a = m1 a"
    using load_segments_ok [OF assms(2,3), of hd0 m1] by blast
  have "0x8000 + j \<notin> touched 512 h" if "j < 4096" "h \<in> set hs" for j h
  proof (cases "ptype h = PT_LOAD")
    case True
    then have "512 * sectors (filesz h + (512 + off h) mod 512) = 0 \<or> 0x9000 \<le> paddr h - (512 + off h) mod 512"
      "memsz h \<le> filesz h \<or> 0x9000 \<le> paddr h + filesz h"
      using assms(2) that(2) by (auto simp: loadable_def boot_area_def fits_def)
    then show ?thesis using that(1) unfolding touched_def if_P [OF True] Un_iff atLeastLessThan_iff by linarith
  qed (simp add: touched_def)
  then have b2: "m2 (0x8000 + j) = hd0 (512 + j)" if "j < 4096" for j using m2(3) b1 that by metis
  have "get_elf m2 0x8000 = get_elf (\<lambda>j. hd0 (512 + j)) 0"
    using get_cong(1) [of "\<lambda>j. m2 (0x8000 + j)" 0 "\<lambda>j. hd0 (512 + j)"] b2 by (simp add: se)
  then have "bootMain hd0 m = Inr (e_entry (get_elf (\<lambda>j. hd0 (512 + j)) 0), m2)"
    by (simp add: bootMain_def r h1 m2(1))
  then show ?thesis using m2(2) b2 by blast
qed

theorem boot_loads_kernel_witness:
  "\<exists>m'. bootMain (elf_disk 512) (\<lambda>i. 0) = Inr (0x200000, m') \<and> loaded 512 (elf_disk 512) elf_ph m'"
proof -
  have "\<forall>h\<in>set [elf_ph]. loadable boot_area 512 h"
    by (simp add: loadable_def elf_ph_def boot_area_def fits_def sectors_def)
  from boot_loads_kernel [OF elf_disk_headers(2) this elf_ph_loadable(2)] show ?thesis
    unfolding elf_disk_headers by auto
qed

end
