(* ===== verification/Kmain.thy ===== *)
theory Kmain
  imports Loader Desc Hardware Files
begin

text \<open>
  The start of the kernel: \<open>kEntry\<close> of kernel/main.c, which calls the initialisations of all components in order,
  with \<open>initScreen\<close> and \<open>loadFS\<close> of kernel/kernel/kvm.c and \<open>initFS\<close> of kernel/kernel/fs.c; then the listing functions of fs.c that
  print to the serial port, which nothing calls.
\<close>

section \<open>Screen and file system\<close>

definition initScreen :: "kernel \<Rightarrow> kernel" where
  "initScreen k = k\<lparr>buf_in := 0, buf_out := 0, scr := screen_clear (scr k)\<rparr>"

text \<open>\<open>loadFS\<close> brings the bytes into memory; they become the file system when \<open>initFS\<close> sets the pointers.\<close>

definition loadFS :: "kernel \<Rightarrow> kernel exec" where
  "loadFS k =
     bind_r (printk (c_lit (''loading fs from disk...'' @ [CHR 0x0A])) [] (serial k)) (\<lambda>out.
     bind_r (load_fs (disk k) (mem k)) (\<lambda>m. Inr (k\<lparr>serial := out, mem := m\<rparr>)))"

text \<open>\<open>sb\<close> is the global \<open>fs_superblock\<close>, which is set here and read nowhere.\<close>

definition initFS :: "superblock \<Rightarrow> kernel \<Rightarrow> (superblock \<times> kernel) exec" where
  "initFS sb k =
     (let sb = sb\<lparr>fs_sz_mb := 2, nr_node := 32, superblock_sz_b := 60, inodeblcok_sz_b := 32804, inuse_inode_num := 0\<rparr>;
          k = k\<lparr>fs := get_fs fs_addr (mem k) (fs k)\<rparr>
      in bind_r (printk (c_lit (''FS ID is %s'' @ [CHR 0x0A])) [Str (sb_id (superb (fs k)))] (serial k)) (\<lambda>out.
           Inr (sb, k\<lparr>serial := out\<rparr>)))"


section \<open>kEntry\<close>

text \<open>
  Up to the idle loop, whose stack pointer is \<open>idle_esp\<close>. \<open>addr\<close> and \<open>tss\<close> are addresses from the linker; the tables are
  those of the kernel's data before.
\<close>

definition kEntry :: "(entry_point \<Rightarrow> u32) \<Rightarrow> u32 \<Rightarrow> port_log \<Rightarrow> gate list \<Rightarrow> segdesc list \<Rightarrow> superblock \<Rightarrow> kernel \<Rightarrow>
    (port_log \<times> gate list \<times> segdesc list \<times> superblock \<times> kernel) exec" where
  "kEntry addr tss l idt gdt sb k =
     (let l = initSerial l;
          idt = initIdt addr idt;
          l = initIntr l
      in bind_r (initTimer l) (\<lambda>l.
         bind_r (initSeg tss gdt k) (\<lambda>(gdt, k).
         bind_r (initPcb k) (\<lambda>k.
         let k = initScreen k
         in bind_r (loadFS k) (\<lambda>k.
            bind_r (initFS sb k) (\<lambda>(sb, k).
            bind_r (loadUMain k) (\<lambda>k. Inr (l, idt, gdt, sb, k))))))))"

definition idle_esp :: "kernel \<Rightarrow> u32" where
  "idle_esp k = kaddr k IdlePcb + 4096 * 4 + sizeof_TrapFrame - 2 * 4"


section \<open>Listing to the serial port\<close>

abbreviation (input) line_format :: "u8 list" where
  "line_format \<equiv> c_lit [CHR ''%'', CHR ''s'', CHR 0x0A]"

function ls_serial_from :: "inodeblock \<Rightarrow> nat \<Rightarrow> u8 list \<Rightarrow> u8 list exec" where
  "ls_serial_from ino i out =
     (if i < unat (isz ino)
      then require (i < NR_DIRDATA) OutOfBounds
        (bind_r (printk line_format [Str (dent_name ino i)] out) (ls_serial_from ino (i + 1)))
      else Inr out)"
  by pat_completeness auto
termination by (relation "measure (\<lambda>(ino, i, out). NR_DIRDATA - i)") auto

declare ls_serial_from.simps [simp del]

definition ls_serial :: "u8 list \<Rightarrow> kernel \<Rightarrow> kernel exec" where
  "ls_serial abspath k =
     bind_r (findCurrentDirPos (fs k) abspath) (\<lambda>(index, f).
     bind_r (inode_at f index) (\<lambda>ino.
     bind_r (ls_serial_from ino 0 (serial k)) (\<lambda>out. Inr (k\<lparr>fs := f, serial := out\<rparr>))))"

fun testfs_from :: "nat list \<Rightarrow> kernel \<Rightarrow> kernel exec" where
  "testfs_from [] k = Inr k"
| "testfs_from (i # is) k =
     bind_r (printk line_format [Str (iname (inodes (fs k) i))] (serial k)) (\<lambda>out. testfs_from is (k\<lparr>serial := out\<rparr>))"

definition testfs :: "kernel \<Rightarrow> kernel exec" where
  "testfs k = testfs_from [0..<4] k"

end
