(* ===== verification/Booting.thy ===== *)
theory Booting
  imports Kmain Loading Tables Scheduling
begin

text \<open>
  The start of the kernel as a whole: from the disk that a previous run left, \<open>kEntry\<close> reaches a state in which
  every property of the reachable states holds, with the saved files in memory and the first program ready.
\<close>

section \<open>The messages\<close>

lemma printk_plain:
  assumes "0 \<notin> set (map of_char t :: u8 list)" and "37 \<notin> set (map of_char t :: u8 list)"
  shows "printk (c_lit t) [] out = Inr (out @ map of_char t)"
proof -
  have "c_lit t = map of_char t @ [0]" by (simp add: c_lit_def)
  then show ?thesis using printk_text [OF format_plain [OF assms]] by simp
qed

lemma format_prefix: "0 \<notin> set t \<Longrightarrow> 37 \<notin> set t \<Longrightarrow> format_text (t @ r) args = map_option (\<lambda>u. t @ u) (format_text r args)"
  by (cases "format_text r args"; induction t) auto

lemma same_super_id: "same_super s t \<Longrightarrow> sb_id s = sb_id t"
  unfolding same_super_def by (auto dest: arg_cong [of _ _ sb_id])

lemma fs_id_text:
  assumes "terminated s"
  shows "printk (c_lit (''FS ID is %s'' @ [CHR 0x0A])) [Str s] out = Inr (out @ map of_char ''FS ID is '' @ cstr s @ [10])"
proof -
  have "c_lit (''FS ID is %s'' @ [CHR 0x0A]) = map of_char ''FS ID is '' @ [37, 115, 10, 0]" by (simp add: c_lit_def)
  moreover have "format_text (map of_char ''FS ID is '' @ [37, 115, 10, 0]) [Str s] =
      Some (map of_char ''FS ID is '' @ cstr s @ [10])"
    using assms by (subst format_prefix) (simp_all add: arg_text_def)
  ultimately show ?thesis by (simp only: printk_text)
qed

definition boot_messages :: "u8 list \<Rightarrow> u8 list" where
  "boot_messages fsid = map of_char (''loading fs from disk...'' @ [CHR 0x0A]) @ map of_char ''FS ID is '' @ cstr fsid @ [10] @ loading_text"


section \<open>The whole start\<close>

lemma loadFS_ok:
  assumes "fs_wf f" and "write_back f m0 d0 = Inr (disk k)"
  shows "\<exists>m. loadFS k = Inr (k\<lparr>serial := serial k @ map of_char (''loading fs from disk...'' @ [CHR 0x0A]), mem := m\<rparr>)
    \<and> same_fs (get_fs fs_addr m g) f"
proof -
  obtain m1 where "load_fs (disk k) (mem k) = Inr m1" "same_fs (get_fs fs_addr m1 g) f"
    using write_back_load [OF assms(1), of m0 d0 "mem k" g] assms(2) by auto
  moreover have "printk (c_lit (''loading fs from disk...'' @ [CHR 0x0A])) [] (serial k) =
      Inr (serial k @ map of_char (''loading fs from disk...'' @ [CHR 0x0A]))"
    by (rule printk_plain) simp_all
  ultimately show ?thesis unfolding loadFS_def by (intro exI [of _ m1]) simp
qed

text \<open>Whenever \<open>kEntry\<close> gets to the idle loop, it has set up the tables, made the process table and prepared the first process.\<close>

lemma kEntry_start:
  assumes "kEntry addr tss l idt gdt sb k = Inr (l', idt', g, sb', k')"
  shows "idt' = initIdt addr idt" "\<exists>k1. initSeg tss gdt k = Inr (g, k1)"
    "\<exists>k1 k2 entry f m s out. initPcb k1 = Inr k2 \<and> nxt k1 = nxt k \<and> pcbs k1 = pcbs k \<and> kaddr k1 = kaddr k
      \<and> preparePCB entry (k2\<lparr>fs := f, mem := m, scr := s, serial := out, buf_in := 0, buf_out := 0\<rparr>) = Inr k'"
proof -
  obtain k1 k2 k4 k5 where e: "idt' = initIdt addr idt" "initSeg tss gdt k = Inr (g, k1)" "initPcb k1 = Inr k2"
    "loadFS (initScreen k2) = Inr k4" "initFS sb k4 = Inr (sb', k5)" "loadUMain k5 = Inr k'"
    using assms by (auto simp: kEntry_def Let_def exec_Inr_iffs)
  show "idt' = initIdt addr idt" "\<exists>k1. initSeg tss gdt k = Inr (g, k1)" using e(1,2) by blast+
  have k1: "nxt k1 = nxt k" "pcbs k1 = pcbs k" "kaddr k1 = kaddr k"
    using e(2) by (auto simp: initSeg_def Let_def exec_Inr_iffs)
  obtain out m where k4: "k4 = (initScreen k2)\<lparr>serial := out, mem := m\<rparr>" using e(4) by (auto simp: loadFS_def exec_Inr_iffs)
  obtain out' f where k5: "k5 = k4\<lparr>fs := f, serial := out'\<rparr>" using e(5) by (auto simp: initFS_def Let_def exec_Inr_iffs)
  obtain entry out'' m' where "preparePCB entry (k5\<lparr>serial := out'', mem := m'\<rparr>) = Inr k'"
    using e(6) by (auto simp: loadUMain_def exec_Inr_iffs)
  moreover have "k5\<lparr>serial := out'', mem := m'\<rparr> =
      k2\<lparr>fs := f, mem := m', scr := scr (initScreen k2), serial := out'', buf_in := 0, buf_out := 0\<rparr>"
    by (simp add: k5 k4 initScreen_def)
  ultimately show "\<exists>k1 k2 entry f m s out. initPcb k1 = Inr k2 \<and> nxt k1 = nxt k \<and> pcbs k1 = pcbs k \<and> kaddr k1 = kaddr k
      \<and> preparePCB entry (k2\<lparr>fs := f, mem := m, scr := s, serial := out, buf_in := 0, buf_out := 0\<rparr>) = Inr k'"
    using e(3) k1 by metis
qed

lemma kEntry_runs:
  assumes "nxt k DummySem = None" and "p_num k = 0" and "fs_wf f" and "write_back f m0 d0 = Inr (disk k)"
    and "terminated (sb_id (superb f))"
    and "headers (\<lambda>j. disk k (USER_OFFSET_IN_DISK + j)) 0 = Inr hs"
    and "\<forall>h\<in>set hs. loadable user_area USER_OFFSET_IN_DISK h" and "in_order USER_OFFSET_IN_DISK hs"
  shows "\<exists>l g sb' k'. kEntry addr tss [] idt gdt sb k = Inr (l, initIdt addr idt, g, sb', k')
    \<and> reachable k' \<and> sched_rel k' loaded_sched \<and> current k' = IdlePcb
    \<and> idle_esp k' - (sizeof_TrapFrame - 2 * 4) = trap_addr k' \<and> same_fs (fs k') f
    \<and> (\<forall>h\<in>set hs. loaded USER_OFFSET_IN_DISK (disk k) h (mem k'))
    \<and> tf_eip (tf (pcbs k' (Pcb 1))) = e_entry (get_elf (\<lambda>j. disk k (USER_OFFSET_IN_DISK + j)) 0)
    \<and> scr k' = screen_clear (scr k) \<and> buf_in k' = 0 \<and> buf_out k' = 0
    \<and> serial k' = serial k @ boot_messages (sb_id (superb f))"
proof -
  obtain l where l: "initTimer (initIntr (initSerial [])) = Inr l" using initTimer_counter by blast
  obtain g k1 where s: "initSeg tss gdt k = Inr (g, k1)" "k1 = k\<lparr>tss_esp0 := tss_esp0 k1\<rparr>"
    using assms(2) by (auto simp: initSeg_def Let_def pcb_ref_def)
  have k1: "nxt k1 DummySem = None" "disk k1 = disk k" "mem k1 = mem k" "scr k1 = scr k" "serial k1 = serial k"
    using assms(1) by (subst s(2), simp)+
  obtain k2 where k2: "initPcb k1 = Inr k2" "clock_ok k2 boot_sched" "p_num k2 = 1" "disk k2 = disk k" "scr k2 = scr k" "serial k2 = serial k"
    using initPcb_ok [OF k1(1)] k1 by auto
  define k3 where "k3 = initScreen k2"
  have k3: "disk k3 = disk k" "serial k3 = serial k" using k2 by (simp_all add: k3_def initScreen_def)
  obtain m where m: "loadFS k3 = Inr (k3\<lparr>serial := serial k @ map of_char (''loading fs from disk...'' @ [CHR 0x0A]), mem := m\<rparr>)"
    "same_fs (get_fs fs_addr m (fs k3)) f"
    using loadFS_ok [of f m0 d0 k3] assms(3,4) k3 by auto
  define k4 where "k4 = k3\<lparr>serial := serial k @ map of_char (''loading fs from disk...'' @ [CHR 0x0A]), mem := m\<rparr>"
  define k5 where "k5 = k4\<lparr>fs := get_fs fs_addr m (fs k3),
     serial := serial k4 @ map of_char ''FS ID is '' @ cstr (sb_id (superb f)) @ [10]\<rparr>"
  have "sb_id (superb (get_fs fs_addr m (fs k3))) = sb_id (superb f)"
    using m(2) by (simp add: same_fs_def same_super_id)
  then obtain sb' where sb: "initFS sb k4 = Inr (sb', k5)"
    using fs_id_text [OF assms(5)] by (simp add: initFS_def Let_def k4_def k5_def)
  have "sched_rel k5 boot_sched"
    by (rule sched_rel_same [of k2]) (use k2(2) in \<open>simp_all add: k5_def k4_def k3_def initScreen_def clock_ok_def\<close>)
  then have c: "clock_ok k5 boot_sched" "p_num k5 = 1" "disk k5 = disk k"
    using k2(2-4) by (simp_all add: clock_ok_def k5_def k4_def k3_def initScreen_def)
  note h = assms(6-8) [folded c(3)]
  obtain k' where k': "loadUMain k5 = Inr k'" "\<forall>h\<in>set hs. loaded USER_OFFSET_IN_DISK (disk k5) h (mem k')"
    "tf_eip (tf (pcbs k' (Pcb 1))) = e_entry (get_elf (\<lambda>j. disk k5 (USER_OFFSET_IN_DISK + j)) 0)"
    "clock_ok k' loaded_sched" "serial k' = serial k5 @ loading_text" "fs k' = fs k5" "scr k' = scr k5"
    "buf_in k' = buf_in k5" "buf_out k' = buf_out k5"
    "\<exists>m out. preparePCB (e_entry (get_elf (\<lambda>j. disk k5 (USER_OFFSET_IN_DISK + j)) 0)) (k5\<lparr>serial := out, mem := m\<rparr>) = Inr k'"
    using loadUMain_ok [OF c(1,2) h] by blast
  have e: "kEntry addr tss [] idt gdt sb k = Inr (l, initIdt addr idt, g, sb', k')"
    using l s(1) k2(1) m(1) [folded k4_def] sb k'(1) by (simp add: kEntry_def Let_def k3_def [symmetric])
  obtain m' out where p: "preparePCB (e_entry (get_elf (\<lambda>j. disk k5 (USER_OFFSET_IN_DISK + j)) 0)) (k5\<lparr>serial := out, mem := m'\<rparr>) = Inr k'"
    using k'(10) by blast
  have "k5\<lparr>serial := out, mem := m'\<rparr> = k2\<lparr>fs := fs k5, mem := m', scr := scr k5, serial := out, buf_in := 0, buf_out := 0\<rparr>"
    by (simp add: k5_def k4_def k3_def initScreen_def)
  with p have "reachable k'" using reachable.boot [OF k1(1) k2(1)] by metis
  moreover have "sched_rel k' loaded_sched" using k'(4) by (simp add: clock_ok_def)
  moreover from this have "current k' = IdlePcb" by (simp add: sched_rel_def loaded_sched_def)
  moreover from this have "idle_esp k' - (sizeof_TrapFrame - 2 * 4) = trap_addr k'" by (simp add: idle_esp_def tf_addr_def trap_addr_def)
  moreover have "fs k5 = get_fs fs_addr m (fs k3)" "scr k5 = screen_clear (scr k)" "buf_in k5 = 0" "buf_out k5 = 0"
    "serial k5 @ loading_text = serial k @ boot_messages (sb_id (superb f))"
    using k2 by (simp_all add: k5_def k4_def k3_def initScreen_def boot_messages_def)
  ultimately show ?thesis using e m(2) k'(2,3,5-9) c(3) by (intro exI [of _ l] exI [of _ g] exI [of _ sb'] exI [of _ k']) simp
qed


text \<open>C28: starting from a disk that holds saved files, whose superblock has a terminated id, and a loadable program, and from kernel data in which \<open>p_num\<close> is 0 and no
  process waits for a semaphore, \<open>kEntry\<close> gets through all initialisations to the idle loop: the files are those saved, the program's
  segments are in memory and the first process stands ready at its entry point, the screen is blank, no keys are buffered, the messages are
  on the serial port, and the idle loop's stack makes interrupts put their frame where the kernel looks for it. The state is one of the
  reachable states, so the invariant of the scheduler holds from the first interrupt on. A program is loadable if its headers lie in
  the first 4096 bytes of the file, its segments, with the sectors around them, lie in the memory of programs, offsets and
  sizes are below \<open>2 ^ 31\<close>, where the code's \<open>int\<close>s end, and no segment reaches into one before it.\<close>

theorem kernel_boots:
  assumes "nxt k DummySem = None" and "p_num k = 0" and "fs_wf f" and "write_back f m0 d0 = Inr (disk k)"
    and "terminated (sb_id (superb f))"
    and "headers (\<lambda>j. disk k (USER_OFFSET_IN_DISK + j)) 0 = Inr hs"
    and "\<forall>h\<in>set hs. loadable user_area USER_OFFSET_IN_DISK h" and "in_order USER_OFFSET_IN_DISK hs"
  shows "\<exists>l g sb' k'. kEntry addr tss [] idt gdt sb k = Inr (l, initIdt addr idt, g, sb', k')
    \<and> reachable k' \<and> sched_rel k' loaded_sched \<and> current k' = IdlePcb
    \<and> idle_esp k' - (sizeof_TrapFrame - 2 * 4) = trap_addr k' \<and> same_fs (fs k') f
    \<and> (\<forall>h\<in>set hs. loaded USER_OFFSET_IN_DISK (disk k) h (mem k'))
    \<and> tf_eip (tf (pcbs k' (Pcb 1))) = e_entry (get_elf (\<lambda>j. disk k (USER_OFFSET_IN_DISK + j)) 0)
    \<and> scr k' = screen_clear (scr k) \<and> buf_in k' = 0 \<and> buf_out k' = 0
    \<and> serial k' = serial k @ boot_messages (sb_id (superb f))"
  by (rule kEntry_runs [OF assms])


text \<open>A disk with the program of theory Loading and the files of theory Rootfs.\<close>

definition boot_disk :: "nat \<Rightarrow> u8" where
  "boot_disk = blit FS_OFFSET_IN_DISK fs_addr FS_SIZE (put_fs fs_addr root_fs (\<lambda>i. 0)) (elf_disk USER_OFFSET_IN_DISK)"

lemma boot_disk_facts:
  defines "k \<equiv> bss\<lparr>disk := boot_disk\<rparr>"
  shows "nxt k DummySem = None" "p_num k = 0" "fs_wf root_fs" "write_back root_fs (\<lambda>i. 0) (elf_disk USER_OFFSET_IN_DISK) = Inr (disk k)"
    "terminated (sb_id (superb root_fs))" "headers (\<lambda>j. disk k (USER_OFFSET_IN_DISK + j)) 0 = Inr [elf_ph]"
    "\<forall>h\<in>set [elf_ph]. loadable user_area USER_OFFSET_IN_DISK h" "in_order USER_OFFSET_IN_DISK [elf_ph]"
    "e_entry (get_elf (\<lambda>j. disk k (USER_OFFSET_IN_DISK + j)) 0) = 0x200000"
proof -
  show "fs_wf root_fs" using root_fs_ok(2,7) by (simp add: fs_ok_def fs_wf_def super_wf_def inode_wf_def)
  show "write_back root_fs (\<lambda>i. 0) (elf_disk USER_OFFSET_IN_DISK) = Inr (disk k)" by (simp add: write_back_eq boot_disk_def k_def)
  show "nxt k DummySem = None" "p_num k = 0" by (simp_all add: k_def bss_def)
  have c: "boot_disk (USER_OFFSET_IN_DISK + j) = elf_disk USER_OFFSET_IN_DISK (USER_OFFSET_IN_DISK + j)" if "j < 4096" for j
    using that by (simp add: boot_disk_def blit_def FS_OFFSET_IN_DISK_def)
  have d: "disk k = boot_disk" by (simp add: k_def)
  have g: "get_elf (\<lambda>j. boot_disk (USER_OFFSET_IN_DISK + j)) 0 = get_elf (\<lambda>j. elf_disk USER_OFFSET_IN_DISK (USER_OFFSET_IN_DISK + j)) 0"
    "headers (\<lambda>j. boot_disk (USER_OFFSET_IN_DISK + j)) 0 = headers (\<lambda>j. elf_disk USER_OFFSET_IN_DISK (USER_OFFSET_IN_DISK + j)) 0"
    using c get_cong [of "\<lambda>j. boot_disk (USER_OFFSET_IN_DISK + j)" 0 "\<lambda>j. elf_disk USER_OFFSET_IN_DISK (USER_OFFSET_IN_DISK + j)"]
    by simp_all
  show "headers (\<lambda>j. disk k (USER_OFFSET_IN_DISK + j)) 0 = Inr [elf_ph]" unfolding d g(2) by (rule elf_disk_headers)
  show "e_entry (get_elf (\<lambda>j. disk k (USER_OFFSET_IN_DISK + j)) 0) = 0x200000" unfolding d g(1) elf_disk_headers by simp
  show "terminated (sb_id (superb root_fs))" by (simp add: root_fs_ok(7) terminated_def)
  show "\<forall>h\<in>set [elf_ph]. loadable user_area USER_OFFSET_IN_DISK h" "in_order USER_OFFSET_IN_DISK [elf_ph]"
    using elf_ph_loadable by simp_all
qed

theorem kernel_boots_witness:
  "\<exists>k l g sb' k'. kEntry (\<lambda>e. 0x100000) 0x120000 [] [] [] (superb zero_fs) k = Inr (l, initIdt (\<lambda>e. 0x100000) [], g, sb', k')
    \<and> reachable k' \<and> same_fs (fs k') root_fs \<and> tf_eip (tf (pcbs k' (Pcb 1))) = 0x200000"
  using kernel_boots [OF boot_disk_facts(1-8), of "\<lambda>e. 0x100000" "0x120000" "[]" "[]" "superb zero_fs"]
  unfolding boot_disk_facts(9) by blast

end
