(* ===== verification/Userlib.thy ===== *)
theory Userlib
  imports Irq Printing
begin

text \<open>
  The library linked into the programs, lib/syscall.c. A program enters the kernel through
  \<open>int $0x80\<close>: \<open>syscall\<close> is the trap of theory Irq with the arguments in the registers, and \<open>retval\<close> what the
  program finds in \<open>eax\<close> when it goes on. The state of a program is the kernel with the interrupts to come. \<open>base\<close> is
  the base of the program's data segment, so the program's pointer \<open>p\<close> is the physical address \<open>uaddr base p\<close>; \<open>f\<close> holds
  the registers that the library leaves alone. The third copy of the printing functions writes to \<open>outbuf\<close>.
\<close>

type_synonym machine = "kernel \<times> event list"

section \<open>System calls\<close>

definition int80 :: "u32 \<Rightarrow> u32 \<Rightarrow> u32 \<Rightarrow> u32 \<Rightarrow> trapframe \<Rightarrow> trapframe" where
  "int80 num a1 a2 a3 f = f\<lparr>tf_eax := num, tf_ebx := a1, tf_ecx := a2, tf_edx := a3, tf_irq := 0x80\<rparr>"

definition syscall :: "u32 \<Rightarrow> u32 \<Rightarrow> u32 \<Rightarrow> u32 \<Rightarrow> u32 \<Rightarrow> u32 \<Rightarrow> trapframe \<Rightarrow> machine \<Rightarrow> machine exec" where
  "syscall num a1 a2 a3 a4 a5 f = (\<lambda>(k, es). irqHandle (trap_addr k) 0x80 0 es (trap (int80 num a1 a2 a3 f) k))"

definition retval :: "machine \<Rightarrow> int" where
  "retval = (\<lambda>(k, es). sint (tf_eax (tf (cur k))))"

text \<open>The library has its own table of the numbers.\<close>

abbreviation (input) U_NR_exit :: u32 where "U_NR_exit \<equiv> 1"
abbreviation (input) U_NR_fork :: u32 where "U_NR_fork \<equiv> 2"
abbreviation (input) U_NR_read :: u32 where "U_NR_read \<equiv> 3"
abbreviation (input) U_NR_write :: u32 where "U_NR_write \<equiv> 4"
abbreviation (input) U_NR_open :: u32 where "U_NR_open \<equiv> 5"
abbreviation (input) U_NR_close :: u32 where "U_NR_close \<equiv> 6"
abbreviation (input) U_NR_sem_init :: u32 where "U_NR_sem_init \<equiv> 7"
abbreviation (input) U_NR_sem_destroy :: u32 where "U_NR_sem_destroy \<equiv> 8"
abbreviation (input) U_NR_sem_wait :: u32 where "U_NR_sem_wait \<equiv> 9"
abbreviation (input) U_NR_sem_post :: u32 where "U_NR_sem_post \<equiv> 10"
abbreviation (input) U_NR_seek :: u32 where "U_NR_seek \<equiv> 11"
abbreviation (input) U_NR_remove :: u32 where "U_NR_remove \<equiv> 12"
abbreviation (input) U_NR_ls :: u32 where "U_NR_ls \<equiv> 13"
abbreviation (input) U_NR_cat :: u32 where "U_NR_cat \<equiv> 14"
abbreviation (input) U_NR_sleep :: u32 where "U_NR_sleep \<equiv> 162"

definition lib_fork :: "trapframe \<Rightarrow> machine \<Rightarrow> machine exec" where
  "lib_fork f = syscall U_NR_fork 0 0 0 0 0 f"

definition lib_exit :: "trapframe \<Rightarrow> machine \<Rightarrow> machine exec" where
  "lib_exit f = syscall U_NR_exit 0 0 0 0 0 f"

definition lib_sleep :: "int \<Rightarrow> trapframe \<Rightarrow> machine \<Rightarrow> machine exec" where
  "lib_sleep time_cont f = syscall U_NR_sleep (word_of_int time_cont) 0 0 0 0 f"

definition lib_sem_init :: "u32 \<Rightarrow> int \<Rightarrow> trapframe \<Rightarrow> machine \<Rightarrow> machine exec" where
  "lib_sem_init sem value f = syscall U_NR_sem_init sem (word_of_int value) 0 0 0 f"

definition lib_sem_destroy :: "u32 \<Rightarrow> trapframe \<Rightarrow> machine \<Rightarrow> machine exec" where
  "lib_sem_destroy sem f = syscall U_NR_sem_destroy sem 0 0 0 0 f"

definition lib_sem_wait :: "u32 \<Rightarrow> trapframe \<Rightarrow> machine \<Rightarrow> machine exec" where
  "lib_sem_wait sem f = syscall U_NR_sem_wait sem 0 0 0 0 f"

definition lib_sem_post :: "u32 \<Rightarrow> trapframe \<Rightarrow> machine \<Rightarrow> machine exec" where
  "lib_sem_post sem f = syscall U_NR_sem_post sem 0 0 0 0 f"

definition lib_ls :: "u32 \<Rightarrow> trapframe \<Rightarrow> machine \<Rightarrow> machine exec" where
  "lib_ls path f = syscall U_NR_ls path 0 0 0 0 f"

definition lib_cat :: "u32 \<Rightarrow> trapframe \<Rightarrow> machine \<Rightarrow> machine exec" where
  "lib_cat path f = syscall U_NR_cat path 0 0 0 0 f"

definition lib_open :: "u32 \<Rightarrow> int \<Rightarrow> trapframe \<Rightarrow> machine \<Rightarrow> machine exec" where
  "lib_open path flags f = syscall U_NR_open path (word_of_int flags) 0 0 0 f"

definition lib_read :: "int \<Rightarrow> u32 \<Rightarrow> int \<Rightarrow> trapframe \<Rightarrow> machine \<Rightarrow> machine exec" where
  "lib_read fd buffer sz f = syscall U_NR_read (word_of_int fd) buffer (word_of_int sz) 0 0 f"

definition lib_write :: "int \<Rightarrow> u32 \<Rightarrow> int \<Rightarrow> trapframe \<Rightarrow> machine \<Rightarrow> machine exec" where
  "lib_write fd buffer sz f = syscall U_NR_write (word_of_int fd) buffer (word_of_int sz) 0 0 f"

definition lib_lseek :: "int \<Rightarrow> int \<Rightarrow> int \<Rightarrow> trapframe \<Rightarrow> machine \<Rightarrow> machine exec" where
  "lib_lseek fd off whence f = syscall U_NR_seek (word_of_int fd) (word_of_int off) (word_of_int whence) 0 0 f"

definition lib_close :: "int \<Rightarrow> trapframe \<Rightarrow> machine \<Rightarrow> machine exec" where
  "lib_close fd f = syscall U_NR_close (word_of_int fd) 0 0 0 0 f"

definition lib_remove :: "u32 \<Rightarrow> trapframe \<Rightarrow> machine \<Rightarrow> machine exec" where
  "lib_remove path f = syscall U_NR_remove path 0 0 0 0 f"


section \<open>The program's memory\<close>

definition uaddr :: "u32 \<Rightarrow> u32 \<Rightarrow> nat" where
  "uaddr base p = unat (base + p)"

definition store_byte :: "u32 \<Rightarrow> u32 \<Rightarrow> u8 \<Rightarrow> machine \<Rightarrow> machine exec" where
  "store_byte base p c = (\<lambda>(k, es). require (user_area (uaddr base p) 1) OutOfBounds
     (Inr (k\<lparr>mem := (mem k)(uaddr base p := c)\<rparr>, es)))"

definition store_word :: "u32 \<Rightarrow> u32 \<Rightarrow> u32 \<Rightarrow> machine \<Rightarrow> machine exec" where
  "store_word base p w = (\<lambda>(k, es). require (user_area (uaddr base p) 4) OutOfBounds
     (Inr (k\<lparr>mem := put32 (mem k) (uaddr base p) w\<rparr>, es)))"


section \<open>printf\<close>

text \<open>
  \<open>outbuf\<close>, 1024 bytes, and \<open>outlen\<close>; the bytes and the index behind the last one. The code keeps \<open>outlen\<close> in a global, which
  \<open>printf\<close> sets to 0 first; it is a value here and no part of \<open>mem\<close>.
\<close>

type_synonym outbuffer = "u8 list \<times> nat"

definition print_ch_U :: "u8 \<Rightarrow> outbuffer \<Rightarrow> outbuffer exec" where
  "print_ch_U arg = (\<lambda>(outbuf, outlen). require (outlen < length outbuf) OutOfBounds
     (Inr (outbuf[outlen := arg], outlen + 1)))"

fun print_string_U :: "u8 list \<Rightarrow> outbuffer \<Rightarrow> outbuffer exec" where
  "print_string_U [] out = Inl OutOfBounds"
| "print_string_U (c # arg) out =
     (if c \<noteq> 0 then bind_r (print_ch_U c out) (print_string_U arg) else Inr out)"

function print_dec_U :: "u32 \<Rightarrow> outbuffer \<Rightarrow> outbuffer exec" where
  "print_dec_U arg out =
     (let integer = sint arg
      in if integer = -2147483648 then print_string_U min_int_text out
         else bind_r (if integer < 0 then print_ch_U 45 out else Inr out) (\<lambda>out.
                let integer = \<bar>integer\<bar>
                in bind_r (if integer div 10 \<noteq> 0 then print_dec_U (word_of_int (integer div 10)) out
                           else Inr out) (\<lambda>out.
                     print_ch_U (word_of_int (48 + integer mod 10)) out)))"
  by pat_completeness auto
termination
  by (relation "measure (\<lambda>(arg, out). nat \<bar>sint arg\<bar>)") (simp_all add: print_dec_less)

function print_hex_U :: "u32 \<Rightarrow> outbuffer \<Rightarrow> outbuffer exec" where
  "print_hex_U arg out =
     (let integer = unat arg
      in bind_r (if integer div 16 \<noteq> 0 then print_hex_U (word_of_nat (integer div 16)) out else Inr out)
           (\<lambda>out. if integer mod 16 < 10 then print_ch_U (word_of_nat (48 + integer mod 16)) out
                  else print_ch_U (word_of_nat (97 + integer mod 16 - 10)) out))"
  by pat_completeness auto
termination
  by (relation "measure (\<lambda>(arg, out). unat arg)") (auto dest: print_hex_less simp del: of_nat_unat)

fun print_arg_U :: "u8 \<Rightarrow> va_arg list \<Rightarrow> outbuffer \<Rightarrow> (va_arg list \<times> outbuffer) exec" where
  "print_arg_U d args out =
     (if d = 99 \<or> d = 100 \<or> d = 88 \<or> d = 120
      then (case args of
              Word w # rest \<Rightarrow>
                bind_r (if d = 99 then print_ch_U (ucast w) out
                        else if d = 100 then print_dec_U w out else print_hex_U w out)
                  (\<lambda>out. Inr (rest, out))
            | _ \<Rightarrow> Inl OutOfBounds)
      else if d = 115
      then (case args of
              Str s # rest \<Rightarrow> bind_r (print_string_U s out) (\<lambda>out. Inr (rest, out))
            | _ \<Rightarrow> Inl OutOfBounds)
      else if d = 37 then bind_r (print_ch_U 37 out) (\<lambda>out. Inr (args, out))
      else Inr (args, out))"

text \<open>The loop of \<open>printf\<close>.\<close>

function format_U :: "u8 list \<Rightarrow> va_arg list \<Rightarrow> outbuffer \<Rightarrow> outbuffer exec" where
  "format_U [] args out = Inl OutOfBounds"
| "format_U (c # format) args out =
     (if c = 0 then Inr out
      else if c = 37
      then (case skip_spaces format of
              [] \<Rightarrow> Inl OutOfBounds
            | d # format' \<Rightarrow>
                bind_r (print_arg_U d args out) (\<lambda>(args, out). format_U format' args out))
      else bind_r (print_ch_U c out) (format_U format args))"
  by pat_completeness auto
termination
  by (relation "measure (\<lambda>(format, args, out). length format)")
    (auto dest: skip_spaces_shorter)

text \<open>
  \<open>printf\<close> with \<open>outbuf\<close> at the address the linker gave it. The formatting happens in the buffer's bytes, which
  then stand in memory when the system call is made.
\<close>

definition printf :: "u32 \<Rightarrow> u32 \<Rightarrow> u8 list \<Rightarrow> va_arg list \<Rightarrow> trapframe \<Rightarrow> machine \<Rightarrow> machine exec" where
  "printf base outbuf format args f = (\<lambda>(k, es).
     require (user_area (uaddr base outbuf) 1024) OutOfBounds
     (bind_r (format_U format args (get_bytes (mem k) (uaddr base outbuf) 1024, 0)) (\<lambda>(bytes, outlen).
       syscall 4 1 outbuf (word_of_nat outlen) 0 0 f (k\<lparr>mem := put_bytes (mem k) (uaddr base outbuf) bytes\<rparr>, es))))"


section \<open>Reading characters\<close>

text \<open>\<open>syscall(NR_read, stdin, p, 1, 0, 0)\<close>, and the character it leaves at \<open>p\<close>.\<close>

definition read_char :: "u32 \<Rightarrow> u32 \<Rightarrow> trapframe \<Rightarrow> machine \<Rightarrow> (u8 \<times> machine) exec" where
  "read_char base p f s = bind_r (syscall 3 0 p 1 0 0 f s) (\<lambda>(k, es). Inr (mem k (uaddr base p), (k, es)))"

text \<open>Each character read moves \<open>buf_out\<close>, which stays within the buffer: no loop of the library reads for ever.\<close>

definition unread :: "machine \<Rightarrow> nat" where
  "unread s = nat (1024 - buf_out (fst s))"

lemma nested_irq_out: "intr_nesting k \<Longrightarrow> nested_irq tfp e k = Inr k' \<Longrightarrow> buf_out k' = buf_out k"
  by (cases e) (auto simp: nested_irq_def timerHandle_def keyboardHandle_def Let_def exec_Inr_iffs split: if_splits)

lemma wait_for_keyboard_out: "wait_for_keyboard tfp n es k = Inr (k', es') \<Longrightarrow> buf_out k' = buf_out k"
proof (induction es arbitrary: k)
  case Nil
  then show ?case by (auto simp: wait_for_keyboard.simps [of _ _ "[]"] split: if_splits)
next
  case (Cons e es)
  then show ?case
    by (auto simp: wait_for_keyboard.simps [of _ _ "e # es"] exec_Inr_iffs dest!: nested_irq_out [rotated] split: if_splits)
qed

lemma read_aux_out:
  assumes "read_aux tfp 0 p 1 es k = Inr (k', es')"
  shows "buf_out k < 1024 \<and> buf_out k' = buf_out k + 1"
proof -
  obtain k1 m where w: "wait_for_keyboard tfp (wrap32 (1 - 1)) es k = Inr (k1, es')"
    "take_keys (BUF k1) (buf_out k1) (user_ptr k p) 1 0 (mem k1) = Inr m" "buf_out k' = wrap32 (buf_out k1 + 1)"
    using assms by (auto simp: read_aux_def Let_def exec_Inr_iffs)
  have "0 \<le> buf_out k1" "buf_out k1 < 1024"
    using w(2) by (auto simp: take_keys.simps [of _ _ _ 1 0] exec_Inr_iffs)
  moreover from this have "buf_out k' = buf_out k1 + 1" using w(3) by simp
  ultimately show ?thesis using wait_for_keyboard_out [OF w(1)] by simp
qed

lemma trap_fields [simp]:
  "tf (pcbs (trap f k) (current k)) = f" "tf_addr (trap f k) p = tf_addr k p" "buf_out (trap f k) = buf_out k"
  "current (trap f k) = current k" "trap_addr (trap f k) = trap_addr k"
  by (simp_all add: trap_def tf_addr_def trap_addr_def)

lemma int80_fields [simp]: "tf_eax (int80 n a b c f) = n" "tf_ebx (int80 n a b c f) = a" "tf_ecx (int80 n a b c f) = b"
  "tf_edx (int80 n a b c f) = c" "tf_irq (int80 n a b c f) = 0x80"
  by (simp_all add: int80_def)

lemma read_char_less: "read_char base p f s = Inr (c, s') \<Longrightarrow> unread s' < unread s"
proof -
  obtain k es k' es' where s: "s = (k, es)" "s' = (k', es')" by (cases s, cases s')
  assume "read_char base p f s = Inr (c, s')"
  then obtain m where m: "syscallHandle (trap_addr k) es (trap (int80 3 0 p 1 f) k) = Inr (m, es')"
    "set_stacktop (trap_addr k) m = Inr k'"
    by (auto simp: s read_char_def syscall_def irqHandle_def exec_Inr_iffs)
  then have "buf_out k' = buf_out m" by (auto simp: set_stacktop_eq)
  moreover have "read_aux (trap_addr k) 0 p 1 es (trap (int80 3 0 p 1 f) k) = Inr (m, es')"
    using m(1) by (simp add: syscallHandle_def Let_def require_eq_Inr)
  then have "buf_out k < 1024 \<and> buf_out m = buf_out k + 1" using read_aux_out [of _ p es] by fastforce
  ultimately show ?thesis by (simp add: s unread_def)
qed


lemma store_byte_unread: "store_byte base p c s = Inr s' \<Longrightarrow> unread s' = unread s"
  by (auto simp: store_byte_def unread_def exec_Inr_iffs split: prod.splits)

text \<open>\<open>gets\<close>: \<open>inbuf[inlen]\<close> is read, copied to \<open>s[inlen]\<close>, until the end of the line; \<open>n\<close> is \<open>inlen\<close>.\<close>

function gets_from :: "u32 \<Rightarrow> u32 \<Rightarrow> u32 \<Rightarrow> trapframe \<Rightarrow> nat \<Rightarrow> machine \<Rightarrow> machine exec" where
  "gets_from base inbuf sp f n s = require (n < 1024) OutOfBounds
     (bind_r (read_char base (inbuf + word_of_nat n) f s) (\<lambda>(ch, s).
        if ch \<noteq> 10
        then bind_r (store_byte base (sp + word_of_nat n) ch s) (gets_from base inbuf sp f (n + 1))
        else store_byte base (sp + word_of_nat n) 0 s))"
  by pat_completeness auto
termination by (relation "measure (\<lambda>(base, inbuf, sp, f, n, s). 1024 - n)") auto

definition gets :: "u32 \<Rightarrow> u32 \<Rightarrow> u32 \<Rightarrow> trapframe \<Rightarrow> machine \<Rightarrow> machine exec" where
  "gets base inbuf sp f s = gets_from base inbuf sp f 0 s"

definition getchar :: "u32 \<Rightarrow> u32 \<Rightarrow> trapframe \<Rightarrow> machine \<Rightarrow> (u8 \<times> machine) exec" where
  "getchar base inbuf f s = read_char base inbuf f s"

text \<open>The loop all four scanning functions begin with; \<open>chp\<close> is the address of their variable \<open>ch\<close>.\<close>

definition is_blank :: "u8 \<Rightarrow> bool" where
  "is_blank ch \<longleftrightarrow> ch = 10 \<or> ch = 32"

function skip_blanks :: "u32 \<Rightarrow> u32 \<Rightarrow> trapframe \<Rightarrow> u8 \<Rightarrow> machine \<Rightarrow> (u8 \<times> machine) exec" where
  "skip_blanks base chp f ch s =
     (if is_blank ch then bind_r (read_char base chp f s) (\<lambda>(ch, s). skip_blanks base chp f ch s)
      else Inr (ch, s))"
  by pat_completeness auto
termination by (relation "measure (\<lambda>(base, chp, f, ch, s). unread s)") (auto dest: read_char_less)

definition first_char :: "u32 \<Rightarrow> u32 \<Rightarrow> trapframe \<Rightarrow> machine \<Rightarrow> (u8 \<times> machine) exec" where
  "first_char base chp f s =
     bind_r (read_char base chp f s) (\<lambda>(ch, s). skip_blanks base chp f ch s)"

definition scan_ch :: "u32 \<Rightarrow> u32 \<Rightarrow> u32 \<Rightarrow> trapframe \<Rightarrow> machine \<Rightarrow> machine exec" where
  "scan_ch base chp arg f s = bind_r (first_char base chp f s) (\<lambda>(ch, s). store_byte base arg ch s)"

function scan_string_from :: "u32 \<Rightarrow> u32 \<Rightarrow> u32 \<Rightarrow> trapframe \<Rightarrow> u8 \<Rightarrow> machine \<Rightarrow> machine exec" where
  "scan_string_from base chp p f ch s =
     (if \<not> is_blank ch
      then bind_r (store_byte base p ch s) (\<lambda>s.
             bind_r (read_char base chp f s) (\<lambda>(ch, s). scan_string_from base chp (p + 1) f ch s))
      else store_byte base p 0 s)"
  by pat_completeness auto
termination
  by (relation "measure (\<lambda>(base, chp, p, f, ch, s). unread s)") (auto dest!: read_char_less store_byte_unread)

definition scan_string :: "u32 \<Rightarrow> u32 \<Rightarrow> u32 \<Rightarrow> trapframe \<Rightarrow> machine \<Rightarrow> machine exec" where
  "scan_string base chp arg f s =
     bind_r (first_char base chp f s) (\<lambda>(ch, s). scan_string_from base chp arg f ch s)"

text \<open>The comparisons are of signed characters; between \<open>'0'\<close> and \<open>'f'\<close> that makes no difference.\<close>

definition is_hex :: "u8 \<Rightarrow> bool" where
  "is_hex ch \<longleftrightarrow> 48 \<le> sint ch \<and> sint ch \<le> 57 \<or> 97 \<le> sint ch \<and> sint ch \<le> 102"

function scan_dec_from :: "u32 \<Rightarrow> u32 \<Rightarrow> trapframe \<Rightarrow> u8 \<Rightarrow> u32 \<Rightarrow> machine \<Rightarrow> (u32 \<times> machine) exec" where
  "scan_dec_from base chp f ch num s =
     (if 48 \<le> sint ch \<and> sint ch \<le> 57
      then let num = num * 10; num = num + word_of_int (sint ch - 48)
           in bind_r (read_char base chp f s) (\<lambda>(ch, s). scan_dec_from base chp f ch num s)
      else Inr (num, s))"
  by pat_completeness auto
termination by (relation "measure (\<lambda>(base, chp, f, ch, num, s). unread s)") (auto dest: read_char_less)

definition scan_dec :: "u32 \<Rightarrow> u32 \<Rightarrow> u32 \<Rightarrow> trapframe \<Rightarrow> machine \<Rightarrow> machine exec" where
  "scan_dec base chp arg f s = bind_r (first_char base chp f s) (\<lambda>(ch, s).
     bind_r (scan_dec_from base chp f ch 0 s) (\<lambda>(num, s). store_word base arg num s))"

function scan_hex_from :: "u32 \<Rightarrow> u32 \<Rightarrow> trapframe \<Rightarrow> u8 \<Rightarrow> u32 \<Rightarrow> machine \<Rightarrow> (u32 \<times> machine) exec" where
  "scan_hex_from base chp f ch num s =
     (if is_hex ch
      then let num = num * 16;
               num = (if 48 \<le> sint ch \<and> sint ch \<le> 57 then num + word_of_int (sint ch - 48)
                      else num + word_of_int (sint ch - 97 + 10))
           in bind_r (read_char base chp f s) (\<lambda>(ch, s). scan_hex_from base chp f ch num s)
      else Inr (num, s))"
  by pat_completeness auto
termination by (relation "measure (\<lambda>(base, chp, f, ch, num, s). unread s)") (auto dest: read_char_less)

definition scan_hex :: "u32 \<Rightarrow> u32 \<Rightarrow> u32 \<Rightarrow> trapframe \<Rightarrow> machine \<Rightarrow> machine exec" where
  "scan_hex base chp arg f s = bind_r (first_char base chp f s) (\<lambda>(ch, s).
     bind_r (scan_hex_from base chp f ch 0 s) (\<lambda>(num, s). store_word base arg num s))"

text \<open>The \<open>switch\<close> of \<open>scanf\<close>; the words on the stack are pointers.\<close>

definition scan_arg :: "u32 \<Rightarrow> u32 \<Rightarrow> u8 \<Rightarrow> u32 list \<Rightarrow> trapframe \<Rightarrow> machine \<Rightarrow> (u32 list \<times> machine) exec" where
  "scan_arg base chp d args f s =
     (if d = 99 \<or> d = 100 \<or> d = 120 \<or> d = 115
      then (case args of
              [] \<Rightarrow> Inl OutOfBounds
            | p # rest \<Rightarrow>
                bind_r (if d = 99 then scan_ch base chp p f s
                        else if d = 100 then scan_dec base chp p f s
                        else if d = 120 then scan_hex base chp p f s
                        else scan_string base chp p f s)
                  (\<lambda>s. Inr (rest, s)))
      else Inr (args, s))"

function scanf :: "u32 \<Rightarrow> u32 \<Rightarrow> u32 \<Rightarrow> u8 list \<Rightarrow> u32 list \<Rightarrow> trapframe \<Rightarrow> machine \<Rightarrow> machine exec" where
  "scanf base outbuf chp [] args f s = Inl OutOfBounds"
| "scanf base outbuf chp (c # format) args f s =
     (if c = 0 then Inr s
      else if c = 37
      then (case skip_spaces format of
              [] \<Rightarrow> Inl OutOfBounds
            | d # format' \<Rightarrow>
                bind_r (scan_arg base chp d args f s) (\<lambda>(args, s). scanf base outbuf chp format' args f s))
      else bind_r (printf base outbuf (c_lit ''%c'') [Word (scast c)] f s) (scanf base outbuf chp format args f))"
  by pat_completeness auto
termination
  by (relation "measure (\<lambda>(base, outbuf, chp, format, args, f, s). length format)")
    (auto dest: skip_spaces_shorter)

declare gets_from.simps [simp del] skip_blanks.simps [simp del] scan_string_from.simps [simp del]
  scan_dec_from.simps [simp del] scan_hex_from.simps [simp del]

end
