(* ===== verification/Userprops.thy ===== *)
theory Userprops
  imports Userlib Console Scheduling
begin

text \<open>
  The properties of the programs' library: its calls reach the kernel's operations with their
  arguments, \<open>printf\<close> shows the text of its format, and the scanning functions read what was typed. \<open>in_user\<close> is the
  state in which a program runs; it holds for the first program and its child in every reachable state by the invariant
  of theory Irqprops and the segments of theory Tables.
\<close>

section \<open>System calls\<close>

definition in_user :: "u32 \<Rightarrow> kernel \<Rightarrow> bool" where
  "in_user base k \<longleftrightarrow> current k \<noteq> IdlePcb \<and> esp_ok k \<and> \<not> intr_nesting k
     \<and> base = (if pid (cur k) = 2 then Child_Data_Offst else 0)"

lemma in_user_trap_addr: "in_user base k \<Longrightarrow> trap_addr k = tf_addr k (current k)"
  by (simp add: in_user_def trap_addr_tf)

lemma trap_more [simp]: "mem (trap f k) = mem k" "scr (trap f k) = scr k" "fs (trap f k) = fs k" "BUF (trap f k) = BUF k"
  "buf_in (trap f k) = buf_in k" "intr_nesting (trap f k) = intr_nesting k" "kaddr (trap f k) = kaddr k"
  "tss_esp0 (trap f k) = tss_esp0 k" "disk (trap f k) = disk k" "nxt (trap f k) = nxt k"
  "sysFileTable (trap f k) = sysFileTable k" "filepointer (pcbs (trap f k) p) = filepointer (pcbs k p)"
  "pid (pcbs (trap f k) p) = pid (pcbs k p)" "path_at (trap f k) a = path_at k a"
  by (simp_all add: trap_def path_at_def)

lemma in_user_ptr: "in_user base k \<Longrightarrow> user_ptr k p = uaddr base p"
  by (simp add: in_user_def user_ptr_def uaddr_def add.commute)

lemma user_ptr_trap [simp]: "user_ptr (trap f k) p = user_ptr k p"
  by (simp add: user_ptr_def)

text \<open>How a system call ends: \<open>irqHandle\<close> sets the stack for the return.\<close>

definition return_from :: "kernel \<Rightarrow> event list \<Rightarrow> kernel exec \<Rightarrow> machine exec" where
  "return_from k es m = bind_r m (\<lambda>k'. bind_r (set_stacktop (trap_addr k) k') (\<lambda>k'. Inr (k', es)))"

text \<open>The state in the kernel after the trap: the registers with the arguments are in the frame of the process.\<close>

definition saved :: "trapframe \<Rightarrow> kernel \<Rightarrow> u32 \<Rightarrow> u32 \<Rightarrow> u32 \<Rightarrow> u32 \<Rightarrow> kernel" where
  "saved f k num a1 a2 a3 = trap (int80 num a1 a2 a3 f) k"

lemma syscall_handle:
  assumes "in_user base k"
  shows "syscall num a1 a2 a3 a4 a5 f (k, es) =
    bind_r (syscallHandle (trap_addr k) es (trap (int80 num a1 a2 a3 f) k))
      (\<lambda>(k', es). bind_r (set_stacktop (trap_addr k) k') (\<lambda>k'. Inr (k', es)))"
  by (simp add: syscall_def irqHandle_def)

lemmas lib_defs = lib_fork_def lib_exit_def lib_sleep_def lib_sem_init_def lib_sem_destroy_def lib_sem_wait_def
  lib_sem_post_def lib_ls_def lib_cat_def lib_open_def lib_read_def lib_write_def lib_lseek_def lib_close_def lib_remove_def

lemma library_steps:
  assumes "in_user base k"
  shows "lib_fork f (k, es) = return_from k es (fork_aux (saved f k 2 0 0 0))"
    and "lib_exit f (k, es) = return_from k es (exit_aux (saved f k 1 0 0 0))"
    and "lib_sleep n f (k, es) = return_from k es (sleep_aux (wrap32 n) (saved f k 162 (word_of_int n) 0 0))"
    and "lib_sem_init p n f (k, es) = return_from k es (sem_init_aux p (wrap32 n) (saved f k 7 p (word_of_int n) 0))"
    and "lib_sem_destroy p f (k, es) = return_from k es (Inr (sem_destroy_aux p (saved f k 8 p 0 0)))"
    and "lib_sem_wait p f (k, es) = return_from k es (sem_wait_aux p (saved f k 9 p 0 0))"
    and "lib_sem_post p f (k, es) = return_from k es (sem_post_aux p (saved f k 10 p 0 0))"
    and "lib_ls p f (k, es) = return_from k es (ls_aux (path_at k p) (saved f k 13 p 0 0))"
    and "lib_cat p f (k, es) = return_from k es (cat_aux (path_at k p) (saved f k 14 p 0 0))"
    and "lib_open p n f (k, es) = return_from k es (open_aux (path_at k p) (wrap32 n) (saved f k 5 p (word_of_int n) 0))"
    and "lib_close n f (k, es) = return_from k es (close_aux (wrap32 n) (saved f k 6 (word_of_int n) 0 0))"
    and "lib_remove p f (k, es) = return_from k es (remove_aux (path_at k p) (saved f k 12 p 0 0))"
    and "lib_write n p m f (k, es) = return_from k es (write_aux (wrap32 n) p (wrap32 m) (saved f k 4 (word_of_int n) p (word_of_int m)))"
    and "lib_lseek n m j f (k, es) = return_from k es (lseek_aux (wrap32 n) (wrap32 m) (wrap32 j)
        (saved f k 11 (word_of_int n) (word_of_int m) (word_of_int j)))"
    and "lib_read n p m f (k, es) = bind_r (read_aux (trap_addr k) (wrap32 n) p (wrap32 m) es
        (saved f k 3 (word_of_int n) p (word_of_int m)))
        (\<lambda>(k', es). bind_r (set_stacktop (trap_addr k) k') (\<lambda>k'. Inr (k', es)))"
  unfolding lib_defs syscall_handle [OF assms(1)] saved_def return_from_def
  by (simp_all add: syscallHandle_def Let_def in_user_trap_addr [OF assms(1)] sint_word_of_int32 bind_r_assoc)

text \<open>C31: every function of the library that wraps a system call runs the kernel's operation of that name on the
  program's arguments, in the state the trap leaves (its registers saved in the trap frame of the current process),
  and returns through \<open>irqHandle\<close>.\<close>

theorem library_calls:
  assumes "in_user base k"
  shows "lib_fork f (k, es) = return_from k es (fork_aux (saved f k 2 0 0 0)) \<and> lib_exit f (k, es) = return_from k es (exit_aux (saved f k 1 0 0 0))
    \<and> lib_sleep n f (k, es) = return_from k es (sleep_aux (wrap32 n) (saved f k 162 (word_of_int n) 0 0))
    \<and> lib_sem_init p n f (k, es) = return_from k es (sem_init_aux p (wrap32 n) (saved f k 7 p (word_of_int n) 0))
    \<and> lib_sem_destroy p f (k, es) = return_from k es (Inr (sem_destroy_aux p (saved f k 8 p 0 0)))
    \<and> lib_sem_wait p f (k, es) = return_from k es (sem_wait_aux p (saved f k 9 p 0 0))
    \<and> lib_sem_post p f (k, es) = return_from k es (sem_post_aux p (saved f k 10 p 0 0))
    \<and> lib_ls p f (k, es) = return_from k es (ls_aux (path_at k p) (saved f k 13 p 0 0))
    \<and> lib_cat p f (k, es) = return_from k es (cat_aux (path_at k p) (saved f k 14 p 0 0))
    \<and> lib_open p n f (k, es) = return_from k es (open_aux (path_at k p) (wrap32 n) (saved f k 5 p (word_of_int n) 0))
    \<and> lib_close n f (k, es) = return_from k es (close_aux (wrap32 n) (saved f k 6 (word_of_int n) 0 0))
    \<and> lib_remove p f (k, es) = return_from k es (remove_aux (path_at k p) (saved f k 12 p 0 0))
    \<and> lib_write n p m f (k, es) = return_from k es (write_aux (wrap32 n) p (wrap32 m) (saved f k 4 (word_of_int n) p (word_of_int m)))
    \<and> lib_lseek n m j f (k, es) = return_from k es (lseek_aux (wrap32 n) (wrap32 m) (wrap32 j)
        (saved f k 11 (word_of_int n) (word_of_int m) (word_of_int j)))
    \<and> lib_read n p m f (k, es) = bind_r (read_aux (trap_addr k) (wrap32 n) p (wrap32 m) es
        (saved f k 3 (word_of_int n) p (word_of_int m)))
        (\<lambda>(k', es). bind_r (set_stacktop (trap_addr k) k') (\<lambda>k'. Inr (k', es)))"
  by (intro conjI library_steps [OF assms])


lemma user_kernel_in_user: "in_user 0 user_kernel"
  using user_inv user_kernel_fields user_kernel_ok by (simp add: in_user_def kernel_inv_def)

theorem library_calls_witness:
  "lib_close 3 zero_tf (user_kernel, []) = return_from user_kernel [] (close_aux 3 (saved zero_tf user_kernel 6 3 0 0))"
  using library_calls [OF user_kernel_in_user, of zero_tf "[]" 3] by simp


section \<open>printf\<close>

interpretation buffered: formatter print_ch_U print_string_U print_dec_U print_hex_U print_arg_U format_U
proof (unfold_locales, goal_cases)
  case (3 w s)
  show ?case by (simp add: print_dec_U.simps [of w s] dec_body_def Let_def cong: bind_r_cong)
next
  case (4 w s)
  show ?case
    by (simp only: print_hex_U.simps [of w s] Let_def hex_digit_code [OF mod_less_divisor] zero_less_numeral)
qed (auto simp: print_arg_U.simps)

lemma emit_buffer: "n \<le> length buf \<Longrightarrow> emit print_ch_U t (buf, n) =
    (if n + length t \<le> length buf then Inr (take n buf @ t @ drop (n + length t) buf, n + length t) else Inl OutOfBounds)"
proof (induction t arbitrary: buf n)
  case Nil
  then show ?case by simp
next
  case (Cons c t)
  show ?case
  proof (cases "n < length buf")
    case True
    then have "emit print_ch_U (c # t) (buf, n) = emit print_ch_U t (buf[n := c], n + 1)" by (simp add: print_ch_U_def)
    then show ?thesis using Cons.IH [of "n + 1" "buf[n := c]"] True by (simp add: take_Suc_conv_app_nth)
  qed (use Cons.prems in \<open>simp add: print_ch_U_def\<close>)
qed

lemma put_from_text:
  "user_area buf len \<Longrightarrow> i \<le> len \<Longrightarrow> put_from m buf (int len) (int i) s = Inr (put_text (map (\<lambda>j. m (buf + j)) [i..<len]) s)"
proof (induction "len - i" arbitrary: i s)
  case 0
  then show ?case by (simp add: put_from.simps [of m buf] put_text_def)
next
  case (Suc d)
  then have i: "i < len" by simp
  have "put_from m buf (int len) (int (Suc i)) (screen_put s (m (buf + i)) white black) =
      Inr (put_text (map (\<lambda>j. m (buf + j)) [Suc i..<len]) (screen_put s (m (buf + i)) white black))"
    using Suc i by (intro Suc.hyps) auto
  then show ?case using i Suc.prems
    by (simp add: put_from.simps [of m buf "int len" "int i"] user_area_def put_text_def upt_conv_Cons [OF i] add.commute)
qed


text \<open>What the end of a system call leaves alone.\<close>

lemma set_stacktop_ok:
  "\<not> intr_nesting k \<Longrightarrow> set_stacktop tfp k = Inr (k\<lparr>currentstacktop := tf_addr k (current k)\<rparr>)"
  by (simp add: set_stacktop_eq)

lemma format_buffer:
  assumes "format_text format args = Some t" and "length buf = 1024"
  shows "format_U format args (buf, 0) = (if length t \<le> 1024 then Inr (t @ drop (length t) buf, length t) else Inl OutOfBounds)"
  using emit_buffer [of 0 buf t] assms(2) by (simp add: buffered.pfmt_emit [OF assms(1)])

lemma printf_fits:
  assumes "in_user base k" and "user_area (uaddr base outbuf) 1024" and "format_text format args = Some t" and "length t \<le> 1024"
  shows "\<exists>k'. printf base outbuf format args f (k, es) = Inr (k', es) \<and> scr k' = put_text t (scr k)
      \<and> get_bytes (mem k') (uaddr base outbuf) (length t) = t
      \<and> (\<forall>a. a < uaddr base outbuf \<or> uaddr base outbuf + length t \<le> a \<longrightarrow> mem k' a = mem k a)
      \<and> fs k' = fs k \<and> BUF k' = BUF k \<and> buf_in k' = buf_in k \<and> buf_out k' = buf_out k \<and> in_user base k'
      \<and> same_nest k k' \<and> sysFileTable k' = sysFileTable k \<and> filepointer (cur k') = filepointer (cur k)
      \<and> pid (cur k') = pid (cur k)"
proof -
  let ?b = "uaddr base outbuf"
  have e: "format_U format args (get_bytes (mem k) ?b 1024, 0) =
    Inr (t @ drop (length t) (get_bytes (mem k) ?b 1024), length t)"
    using format_buffer [OF assms(3), of "get_bytes (mem k) ?b 1024"] assms(4) by simp
  define m where "m = put_bytes (mem k) ?b (t @ drop (length t) (get_bytes (mem k) ?b 1024))"
  have mt: "get_bytes m ?b (length t) = t" unfolding m_def
    by (rule nth_equalityI) (use assms(4) in \<open>simp_all add: put_bytes_def nth_append\<close>)
  have mo: "m a = mem k a" if "a < ?b \<or> ?b + length t \<le> a" for a
    using that assms(4) by (auto simp: m_def put_bytes_def nth_append)
  define k1 where "k1 = k\<lparr>mem := m\<rparr>"
  have k1: "in_user base k1" "mem k1 = m" "scr k1 = scr k"
    using assms(1) by (auto simp: k1_def in_user_def esp_ok_def tf_addr_def)
  have u: "user_area ?b (length t)" using assms(2,4) by (simp add: user_area_def)
  let ?k2 = "saved f k1 4 1 outbuf (word_of_nat (length t))"
  have "sint (word_of_nat (length t) :: u32) = int (length t)"
    using assms(4) sint_word_of_int32 [of "int (length t)"] by simp
  moreover have "put_from m ?b (int (length t)) 0 (scr k) = Inr (put_text t (scr k))"
    using put_from_text [OF u, of 0 m "scr k"] mt by (simp add: get_bytes_def)
  ultimately have "syscallHandle (trap_addr k1) es ?k2 = Inr (?k2\<lparr>scr := put_text t (scr k)\<rparr>, es)"
    using in_user_ptr [OF k1(1), of outbuf] in_user_trap_addr [OF k1(1)] k1(2,3)
    by (simp add: saved_def syscallHandle_def write_aux_def Let_def)
  moreover have n: "\<not> intr_nesting ?k2" using k1(1) by (simp add: saved_def in_user_def)
  ultimately have "printf base outbuf format args f (k, es) =
      Inr (?k2\<lparr>scr := put_text t (scr k), currentstacktop := tf_addr ?k2 (current ?k2)\<rparr>, es)"
    using assms(2) e k1(1)
    by (simp add: printf_def syscall_handle [OF k1(1)] m_def [symmetric] k1_def [symmetric] saved_def set_stacktop_ok tf_addr_def)
  moreover have "in_user base (?k2\<lparr>scr := put_text t (scr k), currentstacktop := tf_addr ?k2 (current ?k2)\<rparr>)"
    using k1(1) by (auto simp: saved_def in_user_def esp_ok_def tf_addr_def)
  moreover have "same_nest k (?k2\<lparr>scr := put_text t (scr k), currentstacktop := tf_addr ?k2 (current ?k2)\<rparr>)"
    by (simp add: saved_def k1_def same_nest_def proc_same_def trap_def)
  ultimately show ?thesis using mt mo by (simp add: saved_def k1_def)
qed

text \<open>C36: \<open>printf\<close> puts the text of its format together in \<open>outbuf\<close> and the kernel shows exactly that text on the screen,
  changing nothing in memory but the buffer (and its index, the global \<open>outlen\<close>); a text longer than the 1024 bytes of \<open>outbuf\<close>, which the code
  does not check, leaves the buffer.\<close>

theorem printf_shows_text:
  assumes "in_user base k" and "user_area (uaddr base outbuf) 1024" and "format_text format args = Some t"
  shows "if length t \<le> 1024
    then \<exists>k'. printf base outbuf format args f (k, es) = Inr (k', es) \<and> scr k' = put_text t (scr k)
      \<and> get_bytes (mem k') (uaddr base outbuf) (length t) = t
      \<and> (\<forall>a. a < uaddr base outbuf \<or> uaddr base outbuf + length t \<le> a \<longrightarrow> mem k' a = mem k a)
      \<and> fs k' = fs k \<and> BUF k' = BUF k \<and> buf_in k' = buf_in k \<and> buf_out k' = buf_out k \<and> in_user base k'
    else printf base outbuf format args f (k, es) = Inl OutOfBounds"
proof (cases "length t \<le> 1024")
  case True
  from printf_fits [OF assms this, of f es] show ?thesis unfolding if_P [OF True] by blast
next
  case False
  then show ?thesis
    using assms(2) format_buffer [OF assms(3), of "get_bytes (mem k) (uaddr base outbuf) 1024"] by (simp add: printf_def)
qed

theorem printf_shows_text_witness:
  "\<exists>k'. printf 0 0x250000 (c_lit ''n=%d'') [Word 42] zero_tf (user_kernel, []) = Inr (k', [])
    \<and> scr k' = put_text (map of_char ''n=42'') zero_screen"
proof -
  have d: "dec_text 42 = [52, 50]" by (simp add: dec_text_def dec_digits.simps)
  have t: "format_text (c_lit ''n=%d'') [Word 42] = Some (map of_char ''n=42'')"
    by (simp add: c_lit_def arg_text_def d)
  have "user_area (uaddr 0 0x250000) 1024" by (simp add: uaddr_def user_area_def)
  from printf_shows_text [OF user_kernel_in_user this t, of zero_tf "[]"] show ?thesis
    by (auto simp: user_kernel_fields)
qed



section \<open>Typed characters\<close>

text \<open>
  The characters a program can read before the interrupts \<open>rest\<close>: those in the key buffer that it has not read yet and
  those of the keys pressed next, as long as all of them fit in the buffer.
\<close>

definition typed :: "machine \<Rightarrow> u8 list \<Rightarrow> event list \<Rightarrow> bool" where
  "typed s t rest \<longleftrightarrow> (\<exists>o1 b cs. snd s = map Key cs @ rest \<and> (\<forall>c\<in>set cs. keyboard_event c \<noteq> 0)
     \<and> length (BUF (fst s)) = 1024 \<and> buf_out (fst s) = int o1 \<and> buf_in (fst s) = int b \<and> o1 \<le> b
     \<and> b + length cs \<le> 1024 \<and> t = drop o1 (take b (BUF (fst s))) @ map keyboard_event cs)"

lemma typed_same: "BUF k' = BUF k \<Longrightarrow> buf_in k' = buf_in k \<Longrightarrow> buf_out k' = buf_out k \<Longrightarrow>
    typed (k', es) t rest = typed (k, es) t rest"
  by (simp add: typed_def)

lemma take_one: "user_area buf 1 \<Longrightarrow> o1 < 1024 \<Longrightarrow> take_keys keys (int o1) buf 1 0 m = Inr (m(buf := keys ! o1))"
  by (simp add: take_keys.simps [of keys "int o1" buf 1 0] take_keys.simps [of keys "int o1" buf 1 1])

text \<open>The wait for one character: none if it is there, one key otherwise.\<close>

lemma wait_one:
  assumes "typed (k, es) (c # t) rest"
  shows "\<exists>k1 es' o1. wait_for_keyboard tfp 0 es k = Inr (k1, es') \<and> same_but_keys k k1 \<and> \<not> intr_nesting k1
    \<and> buf_out k1 = int o1 \<and> o1 < 1024 \<and> BUF k1 ! o1 = c \<and> typed (k1\<lparr>buf_out := int o1 + 1\<rparr>, es') t rest"
proof -
  obtain o1 b cs where a: "es = map Key cs @ rest" "\<forall>c\<in>set cs. keyboard_event c \<noteq> 0" "length (BUF k) = 1024"
    "buf_out k = int o1" "buf_in k = int b" "o1 \<le> b" "b + length cs \<le> 1024"
    "c # t = drop o1 (take b (BUF k)) @ map keyboard_event cs"
    using assms by (auto simp: typed_def)
  show ?thesis
  proof (cases "o1 < b")
    case True
    then have "drop o1 (take b (BUF k)) = BUF k ! o1 # drop (Suc o1) (take b (BUF k))"
      using a(3,7) by (subst Cons_nth_drop_Suc [symmetric]) auto
    then have c: "BUF k ! o1 = c" "t = drop (Suc o1) (take b (BUF k)) @ map keyboard_event cs" using a(8) by auto
    have "wrap32 (int o1) = int o1" using True a(7) by (intro wrap32_id) auto
    then have "wait_for_keyboard tfp 0 es k = Inr (k\<lparr>intr_nesting := False\<rparr>, es)"
      using True a(4,5) by (simp add: wait_for_keyboard.simps [of _ _ es])
    moreover have "typed (k\<lparr>intr_nesting := False, buf_out := int o1 + 1\<rparr>, es) t rest" unfolding typed_def
      using a c True by (intro exI [of _ "Suc o1"] exI [of _ b] exI [of _ cs]) auto
    ultimately show ?thesis using True a c(1)
      by (intro exI [of _ "k\<lparr>intr_nesting := False\<rparr>"] exI [of _ es] exI [of _ o1]) (simp add: same_but_keys_def)
  next
    case False
    then have o1: "o1 = b" and "drop o1 (take b (BUF k)) = []" using a(6) by simp_all
    then obtain d cs' where d: "cs = d # cs'" "keyboard_event d = c" "t = map keyboard_event cs'"
      using a(8) by (cases cs) auto
    have "\<forall>c\<in>set [d]. keyboard_event c \<noteq> 0" "b + length [d] \<le> 1024" "int b + int (length [d]) = buf_out k + 0 + 1"
      using a d(1) o1 by auto
    from wait_for_keys [OF this(1) a(3) _ a(5) this(2,3), of tfp "map Key cs' @ rest"] obtain k1 where
      k1: "wait_for_keyboard tfp 0 es k = Inr (k1, map Key cs' @ rest)" "same_but_keys k k1" "\<not> intr_nesting k1"
        "buf_out k1 = buf_out k" "buf_in k1 = int b + 1" "BUF k1 = take b (BUF k) @ [c] @ drop (b + 1) (BUF k)"
      using a(1,4,5) d by auto
    have l: "length (take b (BUF k)) = b" using a(3,7) by simp
    have "typed (k1\<lparr>buf_out := int o1 + 1\<rparr>, map Key cs' @ rest) t rest" unfolding typed_def
      using a k1 d o1 l by (intro exI [of _ "Suc b"] exI [of _ "Suc b"] exI [of _ cs']) auto
    moreover have "BUF k1 ! o1 = c" "o1 < 1024" using k1(6) l o1 a(7) d(1) by (simp_all add: nth_append)
    ultimately show ?thesis using k1 a(4)
      by (intro exI [of _ k1] exI [of _ "map Key cs' @ rest"] exI [of _ o1]) simp
  qed
qed

lemma read_char_typed:
  assumes "typed (k, es) (c # t) rest" and "in_user base k" and "user_area (uaddr base p) 1"
  shows "\<exists>k' es'. read_char base p f (k, es) = Inr (c, (k', es')) \<and> typed (k', es') t rest \<and> in_user base k'
    \<and> mem k' = (mem k)(uaddr base p := c)"
proof -
  let ?k = "saved f k 3 0 p 1"
  have "typed (?k, es) (c # t) rest" using assms(1) by (simp add: saved_def typed_def)
  from wait_one [OF this] obtain k1 es' o1 where
    w: "wait_for_keyboard (trap_addr k) 0 es ?k = Inr (k1, es')" "same_but_keys ?k k1" "\<not> intr_nesting k1"
      "buf_out k1 = int o1" "o1 < 1024" "BUF k1 ! o1 = c" "typed (k1\<lparr>buf_out := int o1 + 1\<rparr>, es') t rest" by blast
  define k2 where "k2 = k1\<lparr>mem := (mem k)(uaddr base p := c), buf_out := int o1 + 1\<rparr>"
  have s: "current k1 = current k" "mem k1 = mem k" "kaddr k1 = kaddr k" "pcbs k1 = pcbs ?k"
    using w(2) by (simp_all add: same_but_keys_def saved_def)
  have t: "tss_esp0 k1 = tss_esp0 k" using wait_for_keyboard_same [OF w(1)] by (simp add: proc_same_def saved_def)
  have "user_ptr ?k p = uaddr base p" using in_user_ptr [OF assms(2)] by (simp add: saved_def)
  moreover have "wrap32 (int o1 + 1) = int o1 + 1" using w(5) by (intro wrap32_id) auto
  ultimately have "read_aux (trap_addr k) 0 p 1 es ?k = Inr (k2, es')"
    using w(1,4) take_one [OF assms(3) w(5), of "BUF k1" "mem k"] w(6) s(2)
    by (simp add: read_aux_def Let_def k2_def)
  then have "syscallHandle (trap_addr k) es ?k = Inr (k2, es')"
    using in_user_trap_addr [OF assms(2)] by (simp add: saved_def syscallHandle_def Let_def)
  moreover define k' where "k' = k2\<lparr>currentstacktop := tf_addr k2 (current k2)\<rparr>"
  ultimately have "syscall 3 0 p 1 0 0 f (k, es) = Inr (k', es')"
    using w(3) by (simp add: syscall_handle [OF assms(2)] saved_def set_stacktop_ok k2_def)
  moreover have "mem k' = (mem k)(uaddr base p := c)" "typed (k', es') t rest"
    using w(7) by (simp_all add: k'_def k2_def typed_def)
  moreover have "in_user base k'" using assms(2) s t w(3)
    by (auto simp: k'_def k2_def in_user_def esp_ok_def tf_addr_def saved_def)
  ultimately show ?thesis by (simp add: read_char_def)
qed



section \<open>Scanning\<close>

lemma uint_u8: "0 \<le> uint (c :: u8)" "uint (c :: u8) < 256"
  using uint_lt2p [of c] by simp_all

lemma sint_u8: "sint (c :: u8) = (if uint c < 128 then uint c else uint c - 256)"
proof -
  have "sint (word_of_int (uint c) :: u8) = signed_take_bit 7 (uint c)" by (simp only: sint_sbintrunc') simp
  then have "sint c = (uint c + 128) mod 256 - 128"
    by (simp add: signed_take_bit_eq_take_bit_shift take_bit_eq_mod)
  moreover have "(x + 128) mod 256 = (if x < 128 then x + 128 else x - 128)" if "0 \<le> x" "x < 256" for x :: int
  proof (cases "x < 128")
    case False
    have "(x - 128 + 256) mod 256 = (x - 128) mod 256" by (rule mod_add_self2)
    then show ?thesis using False that by (simp add: add.commute [of x])
  qed (use that in simp)
  ultimately show ?thesis using uint_u8 [of c] by simp
qed

lemma is_digit_sint: "is_digit c \<longleftrightarrow> 48 \<le> sint c \<and> sint c \<le> 57"
  using uint_u8 [of c] by (auto simp: is_digit_def sint_u8 word_le_def word_less_def)

lemma is_hex_uint: "is_hex c \<longleftrightarrow> 48 \<le> uint c \<and> uint c \<le> 57 \<or> 97 \<le> uint c \<and> uint c \<le> 102"
  using uint_u8 [of c] by (auto simp: is_hex_def sint_u8)

text \<open>What a scanning function leaves: the characters still to read, and memory outside its variable \<open>ch\<close>.\<close>

definition scanned :: "u32 \<Rightarrow> u32 \<Rightarrow> kernel \<Rightarrow> u8 list \<Rightarrow> event list \<Rightarrow> machine \<Rightarrow> bool" where
  "scanned base chp k t rest s \<longleftrightarrow> typed s t rest \<and> in_user base (fst s)
     \<and> (\<forall>a. a \<noteq> uaddr base chp \<longrightarrow> mem (fst s) a = mem k a)"

lemma scanned_trans: "scanned base chp k t rest (k1, es) \<Longrightarrow> scanned base chp k1 t' rest s \<Longrightarrow> scanned base chp k t' rest s"
  by (simp add: scanned_def)

lemma read_char_scanned:
  "scanned base chp k (c # t) rest s \<Longrightarrow> user_area (uaddr base chp) 1 \<Longrightarrow>
    \<exists>s'. read_char base chp f s = Inr (c, s') \<and> scanned base chp k t rest s'"
  using read_char_typed [of "fst s" "snd s" c t rest base chp f] by (auto simp: scanned_def)

lemma skip_blanks_scanned:
  assumes "user_area (uaddr base chp) 1" and "\<not> is_blank c"
  shows "\<forall>b\<in>set bl. is_blank b \<Longrightarrow> scanned base chp k (tl (bl @ [c]) @ t) rest s \<Longrightarrow>
    \<exists>s'. skip_blanks base chp f (hd (bl @ [c])) s = Inr (c, s') \<and> scanned base chp k t rest s'"
proof (induction bl arbitrary: s)
  case Nil
  then show ?case using assms(2) by (simp add: skip_blanks.simps [of _ _ _ c])
next
  case (Cons b bl)
  have "scanned base chp k (hd (bl @ [c]) # (tl (bl @ [c]) @ t)) rest s"
    using Cons.prems(2) by (cases bl) auto
  from read_char_scanned [OF this assms(1)] obtain s1 where
    s1: "read_char base chp f s = Inr (hd (bl @ [c]), s1)" "scanned base chp k (tl (bl @ [c]) @ t) rest s1" by blast
  show ?case using Cons.IH [OF _ s1(2)] Cons.prems(1) s1(1) by (simp add: skip_blanks.simps [of _ _ _ b])
qed

lemma first_char_scanned:
  assumes "user_area (uaddr base chp) 1" and "\<not> is_blank c" and "\<forall>b\<in>set bl. is_blank b"
    and "scanned base chp k (bl @ c # t) rest s"
  shows "\<exists>s'. first_char base chp f s = Inr (c, s') \<and> scanned base chp k t rest s'"
proof -
  have "scanned base chp k (hd (bl @ [c]) # (tl (bl @ [c]) @ t)) rest s"
    using assms(4) by (cases bl) auto
  from read_char_scanned [OF this assms(1)] obtain s1 where
    s1: "read_char base chp f s = Inr (hd (bl @ [c]), s1)" "scanned base chp k (tl (bl @ [c]) @ t) rest s1" by blast
  show ?thesis using skip_blanks_scanned [OF assms(1-3) s1(2)] s1(1) by (simp add: first_char_def)
qed

lemma scan_dec_from_scanned:
  assumes "user_area (uaddr base chp) 1" and "\<not> is_digit c"
  shows "\<forall>d\<in>set ds. is_digit d \<Longrightarrow> scanned base chp k (tl (ds @ [c]) @ t) rest s \<Longrightarrow>
    \<exists>s'. scan_dec_from base chp f (hd (ds @ [c])) num s = Inr (foldl (\<lambda>v d. v * 10 + word_of_int (sint d - 48)) num ds, s')
      \<and> scanned base chp k t rest s'"
proof (induction ds arbitrary: num s)
  case Nil
  then show ?case using assms(2) by (cases s) (auto simp: scan_dec_from.simps [of _ _ _ c] is_digit_sint)
next
  case (Cons d ds)
  have "scanned base chp k (hd (ds @ [c]) # (tl (ds @ [c]) @ t)) rest s"
    using Cons.prems(2) by (cases ds) auto
  from read_char_scanned [OF this assms(1)] obtain s1 where
    s1: "read_char base chp f s = Inr (hd (ds @ [c]), s1)" "scanned base chp k (tl (ds @ [c]) @ t) rest s1" by blast
  show ?case using Cons.IH [OF _ s1(2)] Cons.prems(1) s1(1)
    by (simp add: scan_dec_from.simps [of _ _ _ d] is_digit_sint Let_def)
qed

lemma scan_hex_from_scanned:
  assumes "user_area (uaddr base chp) 1" and "\<not> is_hex c"
  shows "\<forall>d\<in>set ds. is_hex d \<Longrightarrow> scanned base chp k (tl (ds @ [c]) @ t) rest s \<Longrightarrow>
    \<exists>s'. scan_hex_from base chp f (hd (ds @ [c])) num s = Inr (foldl (\<lambda>v d. v * 16
        + (if is_digit d then word_of_int (sint d - 48) else word_of_int (sint d - 97 + 10))) num ds, s')
      \<and> scanned base chp k t rest s'"
proof (induction ds arbitrary: num s)
  case Nil
  then show ?case using assms(2) by (simp add: scan_hex_from.simps [of _ _ _ c])
next
  case (Cons d ds)
  have "scanned base chp k (hd (ds @ [c]) # (tl (ds @ [c]) @ t)) rest s"
    using Cons.prems(2) by (cases ds) auto
  from read_char_scanned [OF this assms(1)] obtain s1 where
    s1: "read_char base chp f s = Inr (hd (ds @ [c]), s1)" "scanned base chp k (tl (ds @ [c]) @ t) rest s1" by blast
  show ?case using Cons.IH [OF _ s1(2)] Cons.prems(1) s1(1)
    by (simp add: scan_hex_from.simps [of _ _ _ d] is_digit_sint Let_def)
qed


text \<open>The value of hexadecimal digits, and that the printed ones have the value of the number.\<close>

definition hex_value :: "u8 list \<Rightarrow> nat" where
  "hex_value = foldl (\<lambda>v c. 16 * v + (if unat c < 58 then unat c - 48 else unat c - 87)) 0"

lemma unat_hex_digit: "n < 16 \<Longrightarrow> unat (hex_digit n) = (if n < 10 then 48 + n else 87 + n)"
  by (simp add: hex_digit_def unat_of_nat del: of_nat_add)

lemma hex_digits_value: "hex_value (hex_digits n) = n"
proof (induction n rule: hex_digits.induct)
  case (1 n)
  then show ?case
    by (cases "n < 16") (simp_all add: hex_digits.simps [of n] hex_value_def unat_hex_digit)
qed

lemma is_hex_digit: "n < 16 \<Longrightarrow> is_hex (hex_digit n)"
  using unat_hex_digit [of n] by (auto simp: is_hex_uint uint_nat simp del: of_nat_unat split: if_splits)

lemma hex_digits_are_hex: "\<forall>c\<in>set (hex_digits n). is_hex c"
proof (induction n rule: hex_digits.induct)
  case (1 n)
  then show ?case
    by (cases "n < 16") (auto simp: hex_digits.simps [of n] is_hex_digit)
qed

lemma hex_digits_nonempty: "hex_digits n \<noteq> []"
  by (simp add: hex_digits.simps [of n])

lemma dec_fold_value:
  "\<forall>d\<in>set ds. is_digit d \<Longrightarrow> foldl (\<lambda>v d. v * 10 + word_of_int (sint d - 48)) 0 ds = (word_of_nat (digits_value ds) :: u32)"
proof (induction ds rule: rev_induct)
  case (snoc d ds)
  have "48 \<le> uint d" "uint d < 58" using snoc.prems by (auto simp: is_digit_def word_le_def word_less_def)
  then have "sint d - 48 = int (unat d - 48)" by (simp add: sint_u8 uint_nat of_nat_diff del: of_nat_unat)
  then have "(word_of_int (sint d - 48) :: u32) = word_of_nat (unat d - 48)" by simp
  then show ?case using snoc by (simp add: digits_value_def algebra_simps)
qed (simp add: digits_value_def)

lemma hex_fold_value:
  "\<forall>d\<in>set ds. is_hex d \<Longrightarrow> foldl (\<lambda>v d. v * 16 + (if is_digit d then word_of_int (sint d - 48)
      else word_of_int (sint d - 97 + 10))) 0 ds = (word_of_nat (hex_value ds) :: u32)"
proof (induction ds rule: rev_induct)
  case (snoc d ds)
  let ?v = "if unat d < 58 then unat d - 48 else unat d - 87"
  have h: "48 \<le> unat d \<and> unat d \<le> 57 \<or> 97 \<le> unat d \<and> unat d \<le> 102"
    using snoc.prems by (auto simp: is_hex_uint uint_nat simp del: of_nat_unat)
  have g: "is_digit d \<longleftrightarrow> unat d < 58"
    using h by (auto simp: is_digit_def word_le_nat_alt word_less_nat_alt)
  have "(if is_digit d then sint d - 48 else sint d - 97 + 10) = int ?v"
    using h unfolding g by (auto simp: sint_u8 uint_nat of_nat_diff simp del: of_nat_unat)
  then have "(if is_digit d then word_of_int (sint d - 48) else word_of_int (sint d - 97 + 10)) = (word_of_nat ?v :: u32)"
    by (metis of_int_of_nat_eq)
  then show ?case using snoc by (simp add: hex_value_def algebra_simps)
qed (simp add: hex_value_def)


lemma typed_scanned: "typed (k, es) t rest \<Longrightarrow> in_user base k \<Longrightarrow> scanned base chp k t rest (k, es)"
  by (simp add: scanned_def)

text \<open>A number is read behind blanks; the first character that is no digit is consumed.\<close>

lemma is_blank_no_digit: "is_blank c \<Longrightarrow> \<not> is_digit c \<and> \<not> is_hex c"
  by (auto simp: is_blank_def is_digit_def is_hex_def)

lemma store_word_scanned:
  assumes "scanned base chp k t rest s" and "user_area (uaddr base arg) 4"
  shows "\<exists>k' es'. store_word base arg w s = Inr (k', es') \<and> typed (k', es') t rest \<and> in_user base k'
    \<and> get32 (mem k') (uaddr base arg) = w
    \<and> (\<forall>a. a \<noteq> uaddr base chp \<and> (a < uaddr base arg \<or> uaddr base arg + 4 \<le> a) \<longrightarrow> mem k' a = mem k a)"
proof -
  obtain k1 es where s: "s = (k1, es)" by (cases s)
  let ?k = "k1\<lparr>mem := put32 (mem k1) (uaddr base arg) w\<rparr>"
  have "typed (?k, es) t rest" "in_user base ?k"
    using assms(1) by (auto simp: s scanned_def typed_def in_user_def esp_ok_def tf_addr_def)
  then show ?thesis using assms by (simp add: s store_word_def scanned_def)
qed

lemma scan_dec_ok:
  assumes "in_user base k" and "user_area (uaddr base chp) 1" and "user_area (uaddr base arg) 4"
    and "typed (k, es) (bl @ ds @ c # t) rest" and "\<forall>b\<in>set bl. is_blank b" and "\<forall>d\<in>set ds. is_digit d"
    and "\<not> is_digit c" and "ds \<noteq> []"
  shows "\<exists>k' es'. scan_dec base chp arg f (k, es) = Inr (k', es') \<and> typed (k', es') t rest \<and> in_user base k'
    \<and> get32 (mem k') (uaddr base arg) = word_of_nat (digits_value ds)
    \<and> (\<forall>a. a \<noteq> uaddr base chp \<and> (a < uaddr base arg \<or> uaddr base arg + 4 \<le> a) \<longrightarrow> mem k' a = mem k a)"
proof -
  obtain d ds' where ds: "ds = d # ds'" using assms(8) by (cases ds) auto
  have "\<not> is_blank d" using assms(6) ds is_blank_no_digit by auto
  from first_char_scanned [OF assms(2) this assms(5), of k "ds' @ c # t" rest "(k, es)" f] obtain s1 where
    s1: "first_char base chp f (k, es) = Inr (hd (ds @ [c]), s1)" "scanned base chp k (tl (ds @ [c]) @ t) rest s1"
    using typed_scanned [OF assms(4,1)] ds by auto
  from scan_dec_from_scanned [OF assms(2,7,6) s1(2), of f 0] obtain s2 where
    s2: "scan_dec_from base chp f (hd (ds @ [c])) 0 s1 = Inr (word_of_nat (digits_value ds), s2)" "scanned base chp k t rest s2"
    unfolding dec_fold_value [OF assms(6)] by blast
  show ?thesis
    using store_word_scanned [OF s2(2) assms(3), of "word_of_nat (digits_value ds)"] s1(1) s2(1) by (simp add: scan_dec_def)
qed

lemma scan_hex_ok:
  assumes "in_user base k" and "user_area (uaddr base chp) 1" and "user_area (uaddr base arg) 4"
    and "typed (k, es) (bl @ ds @ c # t) rest" and "\<forall>b\<in>set bl. is_blank b" and "\<forall>d\<in>set ds. is_hex d"
    and "\<not> is_hex c" and "ds \<noteq> []"
  shows "\<exists>k' es'. scan_hex base chp arg f (k, es) = Inr (k', es') \<and> typed (k', es') t rest \<and> in_user base k'
    \<and> get32 (mem k') (uaddr base arg) = word_of_nat (hex_value ds)
    \<and> (\<forall>a. a \<noteq> uaddr base chp \<and> (a < uaddr base arg \<or> uaddr base arg + 4 \<le> a) \<longrightarrow> mem k' a = mem k a)"
proof -
  obtain d ds' where ds: "ds = d # ds'" using assms(8) by (cases ds) auto
  have "\<not> is_blank d" using assms(6) ds is_blank_no_digit by auto
  from first_char_scanned [OF assms(2) this assms(5), of k "ds' @ c # t" rest "(k, es)" f] obtain s1 where
    s1: "first_char base chp f (k, es) = Inr (hd (ds @ [c]), s1)" "scanned base chp k (tl (ds @ [c]) @ t) rest s1"
    using typed_scanned [OF assms(4,1)] ds by auto
  from scan_hex_from_scanned [OF assms(2,7,6) s1(2), of f 0] obtain s2 where
    s2: "scan_hex_from base chp f (hd (ds @ [c])) 0 s1 = Inr (word_of_nat (hex_value ds), s2)" "scanned base chp k t rest s2"
    unfolding hex_fold_value [OF assms(6)] by blast
  show ?thesis
    using store_word_scanned [OF s2(2) assms(3), of "word_of_nat (hex_value ds)"] s1(1) s2(1) by (simp add: scan_hex_def)
qed

text \<open>C37: what \<open>printf\<close> prints for a number, \<open>scanf\<close> reads back: typed behind blanks and ended by another character, the
  hexadecimal digits of every 32-bit word give the word, and the decimal text of every \<open>int\<close> that is not negative
  gives the number; the rest of the typed text stays for the next call, and memory changes only in the result and
  the function's own variable.\<close>

theorem scan_reads_printed:
  assumes "in_user base k" and "user_area (uaddr base chp) 1" and "user_area (uaddr base arg) 4"
    and "\<forall>b\<in>set bl. is_blank b" and "\<not> is_hex c"
  shows "(typed (k, es) (bl @ hex_digits (unat w) @ c # t) rest \<longrightarrow>
      (\<exists>k' es'. scan_hex base chp arg f (k, es) = Inr (k', es') \<and> typed (k', es') t rest \<and> in_user base k'
        \<and> get32 (mem k') (uaddr base arg) = w
        \<and> (\<forall>a. a \<noteq> uaddr base chp \<and> (a < uaddr base arg \<or> uaddr base arg + 4 \<le> a) \<longrightarrow> mem k' a = mem k a)))
    \<and> (typed (k, es) (bl @ dec_text (sint w) @ c # t) rest \<and> 0 \<le> sint w \<longrightarrow>
      (\<exists>k' es'. scan_dec base chp arg f (k, es) = Inr (k', es') \<and> typed (k', es') t rest \<and> in_user base k'
        \<and> get32 (mem k') (uaddr base arg) = w
        \<and> (\<forall>a. a \<noteq> uaddr base chp \<and> (a < uaddr base arg \<or> uaddr base arg + 4 \<le> a) \<longrightarrow> mem k' a = mem k a)))"
proof -
  have h: "word_of_nat (hex_value (hex_digits (unat w))) = w" by (simp add: hex_digits_value)
  have d: "dec_text (sint w) = dec_digits (nat (sint w))" "word_of_nat (digits_value (dec_digits (nat (sint w)))) = w"
    if "0 \<le> sint w"
    using that by (simp_all add: dec_text_def dec_digits_value)
  have "\<not> is_digit c" using assms(5) by (auto simp: is_digit_sint is_hex_def)
  note D = scan_dec_ok [OF assms(1-3) _ assms(4) dec_digits_are_digits this dec_digits_nonempty, of es "nat (sint w)" t rest f]
  note H = scan_hex_ok [OF assms(1-3) _ assms(4) hex_digits_are_hex assms(5) hex_digits_nonempty, of es "unat w" t rest f]
  show ?thesis using D H unfolding h by (auto simp: d)
qed

text \<open>The first program with a blank, the digits 12 and the end of a line typed.\<close>

theorem scan_reads_printed_witness:
  "\<exists>k' es'. scan_dec 0 0x260000 0x250000 zero_tf (user_kernel, [Key 57, Key 2, Key 3, Key 28, Tick]) = Inr (k', es')
    \<and> get32 (mem k') 0x250000 = 12 \<and> typed (k', es') [] [Tick]"
proof -
  have e: "keyboard_event 57 = 32" "keyboard_event 2 = 49" "keyboard_event 3 = 50" "keyboard_event 28 = 10"
    by (simp_all add: keyboard_event_def press_key_def letter_code_def num_code_def)
  have d: "dec_text (sint (12 :: u32)) = [49, 50]" by (simp add: dec_text_def dec_digits.simps)
  have t: "typed (user_kernel, [Key 57, Key 2, Key 3, Key 28, Tick]) ([32] @ dec_text (sint (12 :: u32)) @ 10 # []) [Tick]"
    unfolding typed_def d
    by (intro exI [of _ 0] exI [of _ "[57, 2, 3, 28]"]) (simp add: user_kernel_fields e)
  have a: "user_area (uaddr 0 0x260000) 1" "user_area (uaddr 0 0x250000) 4" "\<forall>b\<in>set [32]. is_blank b" "\<not> is_hex 10"
    by (simp_all add: uaddr_def user_area_def is_blank_def is_hex_def)
  have s: "0 \<le> sint (12 :: u32)" "uaddr 0 0x250000 = 0x250000" by (simp_all add: uaddr_def)
  from conjunct2 [OF scan_reads_printed [OF user_kernel_in_user a, of _ 12 "[]" "[Tick]" zero_tf]] t s
  show ?thesis unfolding s(2) by blast
qed



section \<open>Lines\<close>

lemma uaddr_add: "uaddr base p + n < 4294967296 \<Longrightarrow> uaddr base (p + word_of_nat n) = uaddr base p + n"
proof -
  assume n: "uaddr base p + n < 4294967296"
  then have "unat (word_of_nat n :: u32) = n" by (intro unat_u32) simp
  then show ?thesis using n unat_add_lem [of "base + p" "word_of_nat n"] by (simp add: uaddr_def add.assoc)
qed

lemma get_bytes_Suc: "get_bytes m a (Suc n) = m a # get_bytes m (a + 1) n"
  by (rule nth_equalityI) (auto simp: nth_Cons split: nat.splits)

lemma gets_from_line:
  assumes "user_area (uaddr base inbuf) 1024" and "user_area (uaddr base sp) (n + length line + 1)"
    and "uaddr base inbuf + 1024 \<le> uaddr base sp \<or> uaddr base sp + n + length line + 1 \<le> uaddr base inbuf"
    and "n + length line < 1024" and "10 \<notin> set line" and "typed (k, es) (line @ 10 # t) rest" and "in_user base k"
  shows "\<exists>k' es'. gets_from base inbuf sp f n (k, es) = Inr (k', es') \<and> typed (k', es') t rest \<and> in_user base k'
    \<and> get_bytes (mem k') (uaddr base sp + n) (length line + 1) = line @ [0]
    \<and> (\<forall>a. uaddr base sp \<le> a \<and> a < uaddr base sp + n \<longrightarrow> mem k' a = mem k a)"
  using assms
proof (induction line arbitrary: n k es)
  let ?s = "uaddr base sp" and ?i = "uaddr base inbuf"
  have keep: "typed (k\<lparr>mem := m\<rparr>, es) u r = typed (k, es) u r" "in_user base (k\<lparr>mem := m\<rparr>) = in_user base k" for k es u r m
    by (simp_all add: typed_def in_user_def esp_ok_def tf_addr_def)
  have ua: "uaddr base (inbuf + word_of_nat n) = ?i + n" "uaddr base (sp + word_of_nat n) = ?s + n"
    "user_area (?i + n) 1" "user_area (?s + n) 1"
    if "user_area ?i 1024" "user_area ?s (n + l + 1)" "n + l < 1024" for n l
    using that uaddr_add [of base inbuf n] uaddr_add [of base sp n] by (simp_all add: user_area_def)
  {
    case Nil
    note u = ua [OF Nil(1), of n 0]
    have "typed (k, es) (10 # t) rest" using Nil(6) by simp
    from read_char_typed [OF this Nil(7), of "inbuf + word_of_nat n" f] obtain k1 es1 where
      k1: "read_char base (inbuf + word_of_nat n) f (k, es) = Inr (10, k1, es1)" "typed (k1, es1) t rest" "in_user base k1"
        "mem k1 = (mem k)(?i + n := 10)"
      using u Nil(2,4) by auto
    have "gets_from base inbuf sp f n (k, es) = Inr (k1\<lparr>mem := (mem k1)(?s + n := 0)\<rparr>, es1)"
      using k1(1) u Nil(2,4) by (simp add: gets_from.simps [of base inbuf sp f n] store_byte_def)
    moreover have "(\<forall>a. ?s \<le> a \<and> a < ?s + n \<longrightarrow> ((mem k1)(?s + n := 0)) a = mem k a)"
      using Nil(3,4) by (auto simp: k1(4))
    ultimately show ?case using k1(2,3) keep by (simp add: get_bytes_def)
  next
    case (Cons c line)
    have n: "n + (length line + 1) < 1024" "user_area ?s (n + (length line + 1) + 1)" using Cons.prems(2,4) by simp_all
    note u = ua [OF Cons.prems(1) n(2,1)]
    have "typed (k, es) (c # (line @ 10 # t)) rest" using Cons.prems(6) by simp
    from read_char_typed [OF this Cons.prems(7), of "inbuf + word_of_nat n" f] obtain k1 es1 where
      k1: "read_char base (inbuf + word_of_nat n) f (k, es) = Inr (c, k1, es1)" "typed (k1, es1) (line @ 10 # t) rest"
        "in_user base k1" "mem k1 = (mem k)(?i + n := c)"
      using u by auto
    define k2 where "k2 = k1\<lparr>mem := (mem k1)(?s + n := c)\<rparr>"
    have k2: "typed (k2, es1) (line @ 10 # t) rest" "in_user base k2" using k1(2,3) keep by (simp_all add: k2_def)
    have "user_area ?s (n + 1 + length line + 1)" "n + 1 + length line < 1024" "10 \<notin> set line"
      "?i + 1024 \<le> ?s \<or> ?s + (n + 1) + length line + 1 \<le> ?i"
      using Cons.prems n by auto
    from Cons.IH [OF Cons.prems(1) this(1,4,2,3) k2] obtain k' es' where
      k': "gets_from base inbuf sp f (n + 1) (k2, es1) = Inr (k', es')" "typed (k', es') t rest" "in_user base k'"
        "get_bytes (mem k') (?s + (n + 1)) (length line + 1) = line @ [0]"
        "\<forall>a. ?s \<le> a \<and> a < ?s + (n + 1) \<longrightarrow> mem k' a = mem k2 a" by blast
    have c: "c \<noteq> 10" using Cons.prems(5) by auto
    have "gets_from base inbuf sp f n (k, es) = Inr (k', es')"
      using k1(1) u n c k'(1) by (simp add: gets_from.simps [of base inbuf sp f n] store_byte_def k2_def)
    moreover have "mem k' (?s + n) = c" using k'(5) by (simp add: k2_def)
    then have "get_bytes (mem k') (?s + n) (length (c # line) + 1) = (c # line) @ [0]"
      using k'(4) get_bytes_Suc [of "mem k'" "?s + n" "length line + 1"] by simp
    moreover have "\<forall>a. ?s \<le> a \<and> a < ?s + n \<longrightarrow> mem k' a = mem k a"
      using k'(5) Cons.prems(3,4) by (auto simp: k2_def k1(4))
    ultimately show ?case using k'(2,3) by blast
  }
qed


text \<open>\<open>gets\<close> stores the typed line and a terminator at the address it is given, whatever the kernel has buffered of it
  when it is called, and leaves what was typed after the end of the line for the next call.\<close>

lemma gets_reads_line:
  assumes "in_user base k" and "user_area (uaddr base inbuf) 1024" and "user_area (uaddr base sp) (length line + 1)"
    and "uaddr base inbuf + 1024 \<le> uaddr base sp \<or> uaddr base sp + length line + 1 \<le> uaddr base inbuf"
    and "10 \<notin> set line" and "typed (k, es) (line @ 10 # t) rest"
  shows "\<exists>k' es'. gets base inbuf sp f (k, es) = Inr (k', es') \<and> get_bytes (mem k') (uaddr base sp) (length line + 1) = line @ [0]
    \<and> typed (k', es') t rest \<and> in_user base k'"
proof -
  have "length line < 1024" using assms(6) by (auto simp: typed_def dest!: arg_cong [of _ _ length])
  then show ?thesis
    using gets_from_line [OF assms(2), of sp 0 line k es t rest f] assms by (auto simp: gets_def)
qed

lemma gets_reads_line_witness:
  "\<exists>k' es'. gets 0 0x260000 0x250000 zero_tf (user_kernel, [Key 35, Key 23, Key 28, Tick]) = Inr (k', es')
    \<and> get_bytes (mem k') 0x250000 3 = [104, 105, 0]"
proof -
  have e: "keyboard_event 35 = 104" "keyboard_event 23 = 105" "keyboard_event 28 = 10"
    by (simp_all add: keyboard_event_def press_key_def letter_code_def num_code_def)
  have t: "typed (user_kernel, [Key 35, Key 23, Key 28, Tick]) ([104, 105] @ 10 # []) [Tick]"
    unfolding typed_def by (intro exI [of _ 0] exI [of _ "[35, 23, 28]"]) (simp add: user_kernel_fields e)
  have a: "user_area (uaddr 0 0x260000) 1024" "user_area (uaddr 0 0x250000) (length [104::u8, 105] + 1)"
    "uaddr 0 0x260000 + 1024 \<le> uaddr 0 0x250000 \<or> uaddr 0 0x250000 + length [104::u8, 105] + 1 \<le> uaddr 0 0x260000"
    "10 \<notin> set [104::u8, 105]"
    by (simp_all add: uaddr_def user_area_def)
  have u: "uaddr 0 0x250000 = 0x250000" "length [104::u8, 105] + 1 = 3" by (simp_all add: uaddr_def)
  from gets_reads_line [OF user_kernel_in_user a t, of zero_tf] show ?thesis unfolding u append_Cons append_Nil by blast
qed

text \<open>What \<open>scanf\<close> does with the characters of its format that are no conversion: it prints them, and reads nothing.\<close>

lemma scanf_prints_literals:
  assumes "in_user base k" and "user_area (uaddr base outbuf) 1024" and "terminated format" and "37 \<notin> set (cstr format)"
  shows "\<exists>k'. scanf base outbuf chp format args f (k, es) = Inr (k', es) \<and> scr k' = put_text (cstr format) (scr k)
    \<and> BUF k' = BUF k \<and> buf_in k' = buf_in k \<and> buf_out k' = buf_out k \<and> in_user base k'"
  using assms
proof (induction format arbitrary: k)
  case Nil
  then show ?case by simp
next
  case (Cons c format)
  show ?case
  proof (cases "c = 0")
    case True
    then show ?thesis using Cons.prems(1) by (simp add: put_text_def)
  next
    case False
    then have c: "c \<noteq> 37" "terminated format" "37 \<notin> set (cstr format)" using Cons.prems(3,4) by auto
    have "ucast (scast c :: u32) = c" by (rule bit_word_eqI) (auto simp: bit_simps)
    then have "format_text (c_lit ''%c'') [Word (scast c)] = Some [c]" by (simp add: c_lit_def arg_text_def)
    from printf_fits [OF Cons.prems(1,2) this, of f es] obtain k1 where
      k1: "printf base outbuf (c_lit ''%c'') [Word (scast c)] f (k, es) = Inr (k1, es)" "scr k1 = put_text [c] (scr k)"
        "BUF k1 = BUF k" "buf_in k1 = buf_in k" "buf_out k1 = buf_out k" "in_user base k1" by auto
    from Cons.IH [OF k1(6) Cons.prems(2) c(2,3)] k1 show ?thesis using False c(1)
      by (auto simp: put_text_def)
  qed
qed

lemma scanf_prints_literals_witness:
  "\<exists>k'. scanf 0 0x250000 0x260000 (c_lit ''age '') [] zero_tf (user_kernel, [Key 2]) = Inr (k', [Key 2])
    \<and> scr k' = put_text (map of_char ''age '') zero_screen"
proof -
  have c: "terminated (c_lit ''age '')" "37 \<notin> set (cstr (c_lit ''age ''))" "cstr (c_lit ''age '') = map of_char ''age ''"
    by (simp_all add: c_lit_def)
  have "user_area (uaddr 0 0x250000) 1024" by (simp add: uaddr_def user_area_def)
  from scanf_prints_literals [OF user_kernel_in_user this c(1,2), of "0x260000" "[]" zero_tf "[Key 2]"]
  show ?thesis unfolding c(3) by (auto simp: user_kernel_fields)
qed

end
