(* ===== verification/Testapp.thy ===== *)
theory Testapp
  imports Userprops Filecalls Listing Makedir Storing
begin

text \<open>
  The test program app/main.c. Its calls are those of the library; the strings it passes lie in its own image at the addresses
  the linker gave them (\<open>app_image\<close>). What a program sees of the kernel between two calls is \<open>prog\<close>: the files, its
  memory, the screen, the open file table and its descriptors; each call is one step on that. The run of the whole program is the
  composition of the steps.
\<close>

section \<open>The program\<close>

record app_image =
  a_root :: u32
  a_boot :: u32
  a_dev :: u32
  a_usr :: u32
  a_test :: u32
  a_tmp :: u32
  a_outbuf :: u32

definition O_RDWR :: int where "O_RDWR = 0x1"
definition O_CREAT :: int where "O_CREAT = 0x10"

text \<open>The character of turn \<open>i\<close>: \<open>(char)(i % 26 + 'A')\<close>.\<close>

definition alphabet :: "nat \<Rightarrow> u8" where
  "alphabet i = word_of_nat (i mod 26 + 65)"

function write_alphabet :: "u32 \<Rightarrow> u32 \<Rightarrow> int \<Rightarrow> trapframe \<Rightarrow> nat \<Rightarrow> machine \<Rightarrow> machine exec" where
  "write_alphabet base tmp fd f i s =
     (if i < 512
      then bind_r (store_byte base tmp (alphabet i) s) (\<lambda>s.
           bind_r (lib_write fd tmp 1 f s) (write_alphabet base tmp fd f (i + 1)))
      else Inr s)"
  by pat_completeness auto
termination by (relation "measure (\<lambda>(base, tmp, fd, f, i, s). 512 - i)") auto

declare write_alphabet.simps [simp del]

definition create_text :: string where
  "create_text = ''create /usr/test and write alphabets to it\<newline>''"

definition uEntry :: "u32 \<Rightarrow> app_image \<Rightarrow> trapframe \<Rightarrow> machine \<Rightarrow> machine exec" where
  "uEntry base a f s =
     bind_r (lib_ls (a_root a) f s) (\<lambda>s.
     bind_r (lib_ls (a_boot a) f s) (\<lambda>s.
     bind_r (lib_ls (a_dev a) f s) (\<lambda>s.
     bind_r (lib_ls (a_usr a) f s) (\<lambda>s.
     bind_r (printf base (a_outbuf a) (c_lit create_text) [] f s) (\<lambda>s.
     bind_r (lib_open (a_test a) (or O_RDWR O_CREAT) f s) (\<lambda>s.
       let fd = retval s in
     bind_r (write_alphabet base (a_tmp a) fd f 0 s) (\<lambda>s.
     bind_r (lib_close fd f s) (\<lambda>s.
     bind_r (lib_ls (a_usr a) f s) (\<lambda>s.
     bind_r (lib_cat (a_test a) f s) (\<lambda>s.
       lib_exit f s))))))))))"


section \<open>What a program sees between two calls\<close>

text \<open>A program other than the one whose pointers the kernel moves.\<close>

definition at_user :: "sched \<Rightarrow> kernel \<Rightarrow> bool" where
  "at_user sc k \<longleftrightarrow> kernel_inv k sc \<and> current k \<noteq> IdlePcb \<and> pid (cur k) \<noteq> 2"

definition prog :: "sched \<Rightarrow> kernel \<Rightarrow> filesys \<Rightarrow> (nat \<Rightarrow> u8) \<Rightarrow> screen \<Rightarrow> sysFile list \<Rightarrow> int list \<Rightarrow> bool" where
  "prog sc k f m v t p \<longleftrightarrow> at_user sc k \<and> fs k = f \<and> mem k = m \<and> scr k = v \<and> sysFileTable k = t
     \<and> filepointer (cur k) = p"

lemma at_user_in_user: "at_user sc k \<Longrightarrow> in_user 0 k"
  using kernel_inv_parts [of k sc] by (simp add: at_user_def in_user_def)

lemma same_nest_current: "same_nest k k' \<Longrightarrow> current k' = current k"
  by (simp add: same_nest_def proc_same_def)

lemma at_user_same: "at_user sc k \<Longrightarrow> same_nest k k' \<Longrightarrow> pid (cur k') = pid (cur k) \<Longrightarrow> at_user sc k'"
  using kernel_inv_same [of k sc k'] by (simp add: at_user_def same_nest_current)

definition resumed :: "kernel \<Rightarrow> kernel" where
  "resumed k = k\<lparr>currentstacktop := tf_addr k (current k)\<rparr>"

lemma resumed_fields [simp]: "fs (resumed k) = fs k" "mem (resumed k) = mem k" "scr (resumed k) = scr k"
  "sysFileTable (resumed k) = sysFileTable k" "pcbs (resumed k) = pcbs k" "current (resumed k) = current k" "disk (resumed k) = disk k"
  by (simp_all add: resumed_def)

lemma saved_fields [simp]: "fs (saved f k n a b c) = fs k" "mem (saved f k n a b c) = mem k" "scr (saved f k n a b c) = scr k"
  "sysFileTable (saved f k n a b c) = sysFileTable k" "filepointer (pcbs (saved f k n a b c) q) = filepointer (pcbs k q)"
  "current (saved f k n a b c) = current k" "pid (pcbs (saved f k n a b c) q) = pid (pcbs k q)"
  "intr_nesting (saved f k n a b c) = intr_nesting k"
  by (simp_all add: saved_def)

lemma saved_same: "same_nest k (saved f k n a b c)"
  by (simp add: saved_def)

text \<open>A call whose operation succeeds and stays in the process.\<close>

lemma call_returns:
  assumes "at_user sc k" and "same_nest (saved f k n a b c) k1" and "pid (cur k1) = pid (cur k)"
  shows "return_from k es (Inr k1) = Inr (resumed k1, es)" and "at_user sc (resumed k1)"
proof -
  have s: "same_nest k k1" using saved_same assms(2) by (rule same_nest_trans)
  have "\<not> intr_nesting k" using at_user_in_user [OF assms(1)] by (simp add: in_user_def)
  then have "\<not> intr_nesting k1" using s by (simp add: same_nest_def)
  then show "return_from k es (Inr k1) = Inr (resumed k1, es)"
    by (simp add: return_from_def set_stacktop_ok resumed_def)
  have "same_nest k (resumed k1)" using s by (simp add: resumed_def same_nest_def proc_same_def)
  then show "at_user sc (resumed k1)" by (rule at_user_same [OF assms(1)]) (use assms(3) in simp)
qed

text \<open>A string in the program's image.\<close>

definition string_at :: "(nat \<Rightarrow> u8) \<Rightarrow> u32 \<Rightarrow> u8 list \<Rightarrow> bool" where
  "string_at m a s \<longleftrightarrow> get_bytes m (unat a) (length s) = s \<and> m (unat a + length s) = 0 \<and> 0 \<notin> set s
     \<and> 0x200000 \<le> unat a \<and> unat a + length s < 0x1000000"

lemma string_at_path: "string_at (mem k) a s \<Longrightarrow> path_at k a = s @ [0]"
  using user_string_get [of "mem k" "unat a" s] by (simp add: string_at_def path_at_def)

lemma string_at_cong:
  assumes "string_at m a s" and "\<And>b. unat a \<le> b \<Longrightarrow> b \<le> unat a + length s \<Longrightarrow> m' b = m b"
  shows "string_at m' a s"
proof -
  have "get_bytes m' (unat a) (length s) = get_bytes m (unat a) (length s)"
    by (rule nth_equalityI) (use assms(2) in simp_all)
  then show ?thesis using assms by (simp add: string_at_def)
qed


section \<open>The calls as steps\<close>

lemma prog_ls:
  assumes k: "prog sc k f m v t p" and ok: "fs_ok f" and s: "string_at m a s" and d: "dir_path f (s @ [0]) j"
    and u: "used (inodes f j) 0" "used (inodes f j) 1"
  shows "\<exists>k' f'. lib_ls a r (k, es) = Inr (k', es) \<and> same_files f f'
    \<and> prog sc k' f' m (put_text (listing (inodes f j) 2 @ [10]) v) t p"
proof -
  have a: "at_user sc k" "fs k = f" "mem k = m" "scr k = v" using k by (simp_all add: prog_def)
  let ?k = "saved r k 13 a 0 0"
  obtain f' where f': "same_files f f'" "ls_aux (s @ [0]) ?k =
      Inr (?k\<lparr>fs := f', scr := put_text (listing (inodes f j) 2 @ [10]) v\<rparr>)"
    using ls_aux_ok [of ?k "s @ [0]" j] ok d u a by auto
  let ?k1 = "?k\<lparr>fs := f', scr := put_text (listing (inodes f j) 2 @ [10]) v\<rparr>"
  have "same_nest ?k ?k1" "pid (cur ?k1) = pid (cur k)" by simp_all
  note c = call_returns [OF a(1) this]
  have "path_at k a = s @ [0]" by (rule string_at_path) (use s a(3) in simp)
  then have "lib_ls a r (k, es) = return_from k es (ls_aux (s @ [0]) ?k)"
    using library_steps(8) [OF at_user_in_user [OF a(1)], of a r es] by simp
  then have "lib_ls a r (k, es) = Inr (resumed ?k1, es)" using f'(2) c(1) by simp
  then show ?thesis using f'(1) c(2) k by (auto simp: prog_def)
qed

lemma prog_cat:
  assumes k: "prog sc k f m v t p" and ok: "fs_ok f" and s: "string_at m a s"
    and path: "s @ [0] = render ds n []" "\<forall>d\<in>set ds. component d" "last_name n" "resolve f 0 ds = Some q"
    and j: "dir_lookup f q n FL = Some j" "unat (isz (inodes f j)) \<le> 32768"
  shows "\<exists>k' f'. lib_cat a r (k, es) = Inr (k', es) \<and> same_files f f'
    \<and> prog sc k' f' m (put_text (get_bytes (idata (inodes f j)) 0 (unat (isz (inodes f j))) @ [10]) v) t p"
proof -
  have a: "at_user sc k" "fs k = f" "mem k = m" "scr k = v" using k by (simp_all add: prog_def)
  let ?k = "saved r k 14 a 0 0" and ?v = "put_text (get_bytes (idata (inodes f j)) 0 (unat (isz (inodes f j))) @ [10]) v"
  obtain f' where f': "same_files f f'" "cat_aux (s @ [0]) ?k = Inr (?k\<lparr>fs := f', scr := ?v\<rparr>)"
    using cat_aux_ok [of ?k ds n q j "[]"] ok path j a by auto
  let ?k1 = "?k\<lparr>fs := f', scr := ?v\<rparr>"
  have "same_nest ?k ?k1" "pid (cur ?k1) = pid (cur k)" by simp_all
  note c = call_returns [OF a(1) this]
  have "path_at k a = s @ [0]" by (rule string_at_path) (use s a(3) in simp)
  then have "lib_cat a r (k, es) = return_from k es (cat_aux (s @ [0]) ?k)"
    using library_steps(9) [OF at_user_in_user [OF a(1)], of a r es] by simp
  then have "lib_cat a r (k, es) = Inr (resumed ?k1, es)" using f'(2) c(1) by simp
  then show ?thesis using f'(1) c(2) k by (auto simp: prog_def)
qed

lemma prog_printf:
  assumes k: "prog sc k f m v t p" and b: "user_area (unat outbuf) 1024"
    and x: "format_text fmt [] = Some x" "length x \<le> 1024"
  shows "\<exists>k' m'. printf 0 outbuf fmt [] r (k, es) = Inr (k', es) \<and> prog sc k' f m' (put_text x v) t p
    \<and> (\<forall>c. c < unat outbuf \<or> unat outbuf + length x \<le> c \<longrightarrow> m' c = m c)"
proof -
  have a: "at_user sc k" "fs k = f" "mem k = m" "scr k = v" using k by (simp_all add: prog_def)
  have "user_area (uaddr 0 outbuf) 1024" using b by (simp add: uaddr_def)
  from printf_fits [OF at_user_in_user [OF a(1)] this x, of r es]
  obtain k' where k': "printf 0 outbuf fmt [] r (k, es) = Inr (k', es)" "scr k' = put_text x v" "fs k' = f"
    "\<forall>c. c < unat outbuf \<or> unat outbuf + length x \<le> c \<longrightarrow> mem k' c = m c"
    "same_nest k k'" "sysFileTable k' = sysFileTable k" "filepointer (cur k') = filepointer (cur k)"
    "pid (cur k') = pid (cur k)"
    using a by (auto simp: uaddr_def)
  have "at_user sc k'" by (rule at_user_same [OF a(1) k'(5,8)])
  then show ?thesis using k' k by (intro exI [of _ k'] exI [of _ "mem k'"]) (simp add: prog_def)
qed

lemma full_entry: "(e :: sysFile)\<lparr>inode_index := a, link_num := b, offset := c\<rparr> = \<lparr>inode_index = a, link_num = b, offset = c\<rparr>"
  by (cases e) simp

lemma prog_open:
  assumes k: "prog sc k f m v t p" and ok: "fs_ok f" and s: "string_at m a s"
    and path: "s @ [0] = render ds n []" "\<forall>d\<in>set ds. component d" "file_name n" "resolve f 0 ds = Some q"
    and j: "openable f q n j" and i: "lowest_entry k i" and d: "lowest_fd k d"
    and len: "length t = 512" "length p = 8"
  shows "\<exists>k' f'. lib_open a fl r (k, es) = Inr (k', es) \<and> retval (k', es) = int d \<and> found_file f f' q n j
    \<and> opened k' (int d) i j 0 \<and> link_num (sysFileTable k' ! i) = 1
    \<and> prog sc k' f' m v (t[i := \<lparr>inode_index = int j, link_num = 1, offset = 0\<rparr>]) (p[d := int i])"
proof -
  have a: "at_user sc k" "fs k = f" "mem k = m" "scr k = v" "sysFileTable k = t" "filepointer (cur k) = p"
    using k by (simp_all add: prog_def)
  let ?k = "saved r k 5 a (word_of_int fl) 0"
  have g: "getAvlSystemFile ?k = int i" "getAvlFilepointer ?k = int d"
    unfolding getAvl_lowest using i d by (simp_all add: lowest_entry_def lowest_fd_def)
  have id: "i < 512" "d < 8" using i d by (simp_all add: lowest_entry_def lowest_fd_def)
  obtain f' where f': "found_file f f' q n j" "open_aux (s @ [0]) (wrap32 fl) ?k = Inr (install_file (int j) i d (?k\<lparr>fs := f'\<rparr>))"
    using open_aux_ok [of ?k ds n q j "[]" "wrap32 fl"] ok path j a g by auto
  let ?kf = "?k\<lparr>fs := f'\<rparr>"
  let ?k1 = "install_file (int j) i d ?kf"
  have j32: "j < 32" using f'(1) by (simp add: found_file_def)
  have "i < length (sysFileTable ?kf)" "length (filepointer (cur ?kf)) = 8" using a len id by simp_all
  note n = install_file_fields [OF this(1) id this(2) j32]
  have "same_nest ?k ?kf" by simp
  then have sn: "same_nest ?k ?k1" using install_file_same by (rule same_nest_trans)
  have pd: "pid (cur ?k1) = pid (cur k)" by (simp add: install_file_def Let_def)
  note c = call_returns [OF a(1) sn pd]
  have "path_at k a = s @ [0]" by (rule string_at_path) (use s a(3) in simp)
  then have "lib_open a fl r (k, es) = return_from k es (open_aux (s @ [0]) (wrap32 fl) ?k)"
    using library_steps(10) [OF at_user_in_user [OF a(1)], of a fl r es] by simp
  then have l: "lib_open a fl r (k, es) = Inr (resumed ?k1, es)" using f'(2) c(1) by simp
  have "sint (word_of_nat d :: u32) = int d" using sint_word_of_int32 [of "int d"] id by simp
  then have rv: "retval (resumed ?k1, es) = int d" using n(1) by (simp add: retval_def)
  have o: "opened (resumed ?k1) (int d) i j 0" "link_num (sysFileTable (resumed ?k1) ! i) = 1"
    using n(2,3) by (simp_all add: opened_def fd_slot_def)
  have t1: "sysFileTable ?k1 = t[i := \<lparr>inode_index = int j, link_num = 1, offset = 0\<rparr>]" "mem ?k1 = m" "scr ?k1 = v"
    using a by (simp_all add: install_file_def Let_def full_entry)
  have "prog sc (resumed ?k1) f' m v (t[i := \<lparr>inode_index = int j, link_num = 1, offset = 0\<rparr>]) (p[d := int i])"
    using c(2) n(4,5) t1 a by (simp add: prog_def)
  then show ?thesis using l rv f'(1) o by blast
qed

lemma prog_write:
  assumes k: "prog sc k f m v t p" and o: "opened k fd i j n" and fd: "3 \<le> fd" "fd < 8"
    and n: "n + 1 < 32768" and b: "user_area (unat tmp) 1"
  shows "\<exists>k'. lib_write fd tmp 1 r (k, es) = Inr (k', es) \<and> opened k' fd i j (n + 1)
    \<and> prog sc k' (put_inode f j (written (inodes f j) n (\<lambda>b. m (unat tmp + b)) 1)) m v
        (t[i := (t ! i)\<lparr>offset := int (n + 1)\<rparr>]) p"
proof -
  have a: "at_user sc k" "fs k = f" "mem k = m" "scr k = v" "sysFileTable k = t" "filepointer (cur k) = p"
    using k by (simp_all add: prog_def)
  let ?k = "saved r k 4 (word_of_int fd) tmp 1"
  have up: "user_ptr ?k tmp = unat tmp" using a(1) by (simp add: user_ptr_def at_user_def)
  have os: "opened ?k fd i j n" using o by (simp add: opened_def fd_slot_def)
  let ?f = "put_inode f j (written (inodes f j) n (\<lambda>b. m (unat tmp + b)) 1)"
  let ?k1 = "set_offset i (int (n + 1)) (set_eax (word_of_nat 1) (?k\<lparr>fs := ?f\<rparr>))"
  have w: "write_aux fd tmp (int 1) ?k = Inr ?k1"
    using write_aux_ok [OF os, of 1 tmp] fd n b up a by simp
  have sn: "same_nest ?k ?k1" by (rule write_aux_same [OF w])
  have pd: "pid (cur ?k1) = pid (cur k)" by simp
  note c = call_returns [OF a(1) sn pd]
  have wr: "wrap32 fd = fd" using fd by (intro wrap32_id) auto
  have "lib_write fd tmp 1 r (k, es) = return_from k es (write_aux fd tmp (int 1) ?k)"
    using library_steps(13) [OF at_user_in_user [OF a(1)], of fd tmp 1 r es] wr by simp
  then have l: "lib_write fd tmp 1 r (k, es) = Inr (resumed ?k1, es)" unfolding w using c(1) by simp
  have nw: "wrap32 (int (n + 1)) = int (n + 1)" using n by (intro wrap32_id) auto
  have o1: "opened (resumed ?k1) fd i j (n + 1)"
    using os nw by (simp add: opened_def fd_slot_def)
  have "prog sc (resumed ?k1) ?f m v (t[i := (t ! i)\<lparr>offset := int (n + 1)\<rparr>]) p"
    using c(2) a nw by (simp add: prog_def)
  then show ?thesis using l o1 by blast
qed

lemma prog_store:
  assumes "prog sc k f m v t p" and "user_area (unat tmp) 1"
  shows "\<exists>k'. store_byte 0 tmp c (k, es) = Inr (k', es) \<and> prog sc k' f (m(unat tmp := c)) v t p
    \<and> (\<forall>fd i j n. opened k fd i j n \<longrightarrow> opened k' fd i j n)"
proof -
  let ?k = "k\<lparr>mem := m(unat tmp := c)\<rparr>"
  have a: "at_user sc k" "mem k = m" using assms by (simp_all add: prog_def)
  have "at_user sc ?k" by (rule at_user_same [OF a(1)]) simp_all
  then have "prog sc ?k f (m(unat tmp := c)) v t p" using assms(1) by (simp add: prog_def)
  moreover have "store_byte 0 tmp c (k, es) = Inr (?k, es)" using assms(2) a by (simp add: store_byte_def uaddr_def)
  ultimately show ?thesis by (intro exI [of _ ?k]) (simp add: opened_def fd_slot_def)
qed

lemma prog_close:
  assumes k: "prog sc k f m v t p" and o: "opened k fd i j n" and l: "link_num (t ! i) = 1" and len: "length p = 8"
  shows "\<exists>k'. lib_close fd r (k, es) = Inr (k', es)
    \<and> prog sc k' f m v (t[i := \<lparr>inode_index = -1, link_num = 0, offset = 0\<rparr>]) (p[nat fd := -1])"
proof -
  have a: "at_user sc k" "fs k = f" "mem k = m" "scr k = v" "sysFileTable k = t" "filepointer (cur k) = p"
    using k by (simp_all add: prog_def)
  let ?k = "saved r k 6 (word_of_int fd) 0 0"
  have os: "opened ?k fd i j n" using o by (simp add: opened_def fd_slot_def)
  have fd: "0 \<le> fd" "fd < 8" and i: "i < length t" using o fd_slot_SomeD [of k fd i] a by (auto simp: opened_def)
  have "link_num (sysFileTable ?k ! i) = int (Suc 0)" "length (filepointer (cur ?k)) = 8" using l len a by simp_all
  from close_aux_ok [OF os this(1) _ this(2)]
  obtain k1 where c: "close_aux fd ?k = Inr k1" "fs k1 = f" "mem k1 = m" "scr k1 = v" "pid (cur k1) = pid (cur k)"
    "filepointer (cur k1) = p[nat fd := -1]" "sysFileTable k1 ! i = \<lparr>inode_index = -1, link_num = 0, offset = 0\<rparr>"
    "\<forall>m. m \<noteq> i \<longrightarrow> sysFileTable k1 ! m = t ! m" "length (sysFileTable k1) = length t"
    using a by auto
  have t1: "sysFileTable k1 = t[i := \<lparr>inode_index = -1, link_num = 0, offset = 0\<rparr>]"
    using c(7-9) i by (intro nth_equalityI) (auto simp: nth_list_update)
  note d = call_returns [OF a(1) close_aux_same [OF c(1)] c(5)]
  have wr: "wrap32 fd = fd" using fd by (intro wrap32_id) auto
  then have "lib_close fd r (k, es) = Inr (resumed k1, es)"
    using library_steps(11) [OF at_user_in_user [OF a(1)], of fd r es] c(1) d(1) by simp
  moreover have "prog sc (resumed k1) f m v (t[i := \<lparr>inode_index = -1, link_num = 0, offset = 0\<rparr>]) (p[nat fd := -1])"
    using d(2) c t1 by (simp add: prog_def)
  ultimately show ?thesis by blast
qed

text \<open>The last call: the process is gone, the files are on the disk.\<close>

lemma prog_exit:
  assumes k: "prog sc k f m v t p" and w: "fs_wf f"
  shows "\<exists>k' m1. lib_exit r (k, es) = Inr (k', es) \<and> fs k' = f \<and> scr k' = v \<and> sysFileTable k' = t
    \<and> sched_rel k' (spec_schedule DEAD sc) \<and> load_fs (disk k') m2 = Inr m1 \<and> same_fs (get_fs fs_addr m1 g) f"
proof -
  have a: "at_user sc k" "fs k = f" "mem k = m" "scr k = v" "sysFileTable k = t" using k by (simp_all add: prog_def)
  let ?k = "saved r k 1 0 0 0"
  have c: "calling ?k sc"
    using kernel_inv_calling [OF kernel_inv_same [OF _ saved_same]] a(1) by (simp add: at_user_def)
  obtain k1 where k1: "exit_aux ?k = Inr k1" "sched_rel k1 (spec_schedule DEAD sc)"
    "write_back f (mem ?k) (disk ?k) = Inr (disk k1)" "fs k1 = f" "scr k1 = v" "sysFileTable k1 = t"
    using exit_aux_ok [OF c] a by auto
  obtain m1 where m1: "load_fs (disk k1) m2 = Inr m1" "same_fs (get_fs fs_addr m1 g) f"
    using write_back_load [OF w, of "mem ?k" "disk ?k" m2 g] k1(3) by auto
  have l: "lib_exit r (k, es) = return_from k es (exit_aux ?k)"
    using library_steps(2) [OF at_user_in_user [OF a(1)], of r es] by simp
  let ?s = "\<lambda>x. k1\<lparr>currentstacktop := x\<rparr>"
  obtain x where e: "lib_exit r (k, es) = Inr (?s x, es)"
    unfolding l k1(1) by (cases "intr_nesting k1") (auto simp: return_from_def set_stacktop_eq)
  have "sched_rel (?s x) (spec_schedule DEAD sc)" by (rule sched_rel_same [OF k1(2)]) simp_all
  then show ?thesis using e k1(4-6) m1 by (intro exI [of _ "?s x"] exI [of _ m1]) simp
qed

section \<open>Writing the file\<close>

lemma written_more:
  assumes "n + 1 < 32768" and "buf 0 = g n"
  shows "written (written ino 0 g n) n buf 1 = written ino 0 g (n + 1)"
proof -
  define a b where "a = (word_of_nat n :: u32)" and "b = (word_of_nat (n + 1) :: u32)"
  have u: "unat a = n" "unat b = n + 1"
    using assms(1) by (simp_all add: a_def b_def unat_u32 del: of_nat_Suc of_nat_add)
  have g: "\<And>z. grown z n = (if a < z then z else a)" "\<And>z. grown z (n + 1) = (if b < z then z else b)"
    by (simp_all only: grown_def a_def b_def)
  have "grown (grown z n) (n + 1) = grown z (n + 1)" for z
    unfolding g using u by (auto simp: word_less_nat_alt)
  moreover have "stored (stored d 0 g n) n buf 1 = stored d 0 g (n + 1)" for d
    using assms(2) stored_Suc [of "stored d 0 g n" n buf 0] stored_Suc [of d 0 g n] by simp
  ultimately show ?thesis by (simp add: written_def)
qed

lemma written_none: "put_inode f j (written (inodes f j) 0 g 0) = f"
proof -
  have "grown z 0 = z" for z by (auto simp: grown_def word_gt_0)
  then show ?thesis by (simp add: written_def put_inode_def)
qed

lemma put_inode_again: "put_inode (put_inode f j a) j b = put_inode f j b"
  by (simp add: put_inode_def)

text \<open>Turn \<open>n\<close> of the loop finds the first \<open>n\<close> characters in the file.\<close>

lemma prog_fill:
  assumes fd: "3 \<le> fd" "fd < 8" and b: "user_area (unat tmp) 1" and i: "i < length t"
  shows "n \<le> 512 \<Longrightarrow> prog sc k (put_inode f j (written (inodes f j) 0 alphabet n)) m v (t[i := e\<lparr>offset := int n\<rparr>]) p \<Longrightarrow>
    opened k fd i j n \<Longrightarrow>
    \<exists>k' m'. write_alphabet 0 tmp fd r n (k, es) = Inr (k', es) \<and> (\<forall>c. c \<noteq> unat tmp \<longrightarrow> m' c = m c)
      \<and> prog sc k' (put_inode f j (written (inodes f j) 0 alphabet 512)) m' v (t[i := e\<lparr>offset := 512\<rparr>]) p
      \<and> opened k' fd i j 512"
proof (induction "512 - n" arbitrary: n k m)
  case 0
  then have "n = 512" by simp
  then show ?case using 0 by (intro exI [of _ k] exI [of _ m]) (simp add: write_alphabet.simps [of 0 tmp fd r 512])
next
  case (Suc d)
  then have n: "n < 512" by simp
  let ?m = "m(unat tmp := alphabet n)" and ?f = "put_inode f j (written (inodes f j) 0 alphabet n)"
  obtain k1 where k1: "store_byte 0 tmp (alphabet n) (k, es) = Inr (k1, es)"
    "prog sc k1 ?f ?m v (t[i := e\<lparr>offset := int n\<rparr>]) p" "opened k1 fd i j n"
    using prog_store [OF Suc.prems(2) b, of "alphabet n" es] Suc.prems(3) by blast
  have "n + 1 < 32768" using n by simp
  note w = prog_write [OF k1(2,3) fd this b, of r es]
  have f: "put_inode ?f j (written (inodes ?f j) n (\<lambda>b. ?m (unat tmp + b)) 1) =
      put_inode f j (written (inodes f j) 0 alphabet (n + 1))"
    using written_more [of n "\<lambda>b. ?m (unat tmp + b)" alphabet "inodes f j"] n by (simp add: put_inode_again)
  have t: "(t[i := e\<lparr>offset := int n\<rparr>])[i := ((t[i := e\<lparr>offset := int n\<rparr>]) ! i)\<lparr>offset := int (n + 1)\<rparr>] =
      t[i := e\<lparr>offset := int (n + 1)\<rparr>]" using i by simp
  obtain k2 where k2: "lib_write fd tmp 1 r (k1, es) = Inr (k2, es)" "opened k2 fd i j (n + 1)"
    "prog sc k2 (put_inode f j (written (inodes f j) 0 alphabet (n + 1))) ?m v (t[i := e\<lparr>offset := int (n + 1)\<rparr>]) p"
    using w unfolding f t by blast
  have "d = 512 - (n + 1)" "n + 1 \<le> 512" using Suc.hyps(2) n by simp_all
  from Suc.hyps(1) [OF this k2(3,2)]
  obtain k' m' where k': "write_alphabet 0 tmp fd r (n + 1) (k2, es) = Inr (k', es)"
    "\<forall>c. c \<noteq> unat tmp \<longrightarrow> m' c = ?m c"
    "prog sc k' (put_inode f j (written (inodes f j) 0 alphabet 512)) m' v (t[i := e\<lparr>offset := 512\<rparr>]) p"
    "opened k' fd i j 512" by blast
  have "write_alphabet 0 tmp fd r n (k, es) = write_alphabet 0 tmp fd r (n + 1) (k2, es)"
    using n k1(1) k2(1) by (simp add: write_alphabet.simps [of 0 tmp fd r n])
  then show ?case using k' by (intro exI [of _ k'] exI [of _ m']) simp
qed

text \<open>Changing the bytes of a file leaves the directories alone.\<close>

lemma put_file:
  assumes ok: "fs_ok f" and j: "itype (inodes f j) \<noteq> DIR" "itype ino = itype (inodes f j)" "iname ino = iname (inodes f j)"
  shows "fs_ok (put_inode f j ino)"
    and "itype (inodes f q) = DIR \<Longrightarrow> dir_lookup (put_inode f j ino) q nm ty = dir_lookup f q nm ty"
proof -
  define h where "h = put_inode f j ino"
  have t: "itype (inodes h q) = itype (inodes f q)" for q using j(2) by (simp add: h_def put_inode_def)
  have d: "inodes h q = inodes f q" if "itype (inodes f q) = DIR" for q
    using j(1) that by (auto simp: h_def put_inode_def)
  have s: "superb h = superb f" "top_dir h = top_dir f" by (simp_all add: h_def put_inode_def)
  have n: "iname (inodes h q) = iname (inodes f q)" for q using j(3) by (simp add: h_def put_inode_def)
  show "fs_ok (put_inode f j ino)" using ok unfolding h_def [symmetric] by (auto simp: fs_ok_def dirs_ok_def t d s n)
  show "dir_lookup (put_inode f j ino) q nm ty = dir_lookup f q nm ty" if q: "itype (inodes f q) = DIR"
  proof -
    have "matches h q nm ty = matches f q nm ty" by (simp add: fun_eq_iff matches_def t d [OF q])
    then show ?thesis unfolding h_def [symmetric] by (simp add: dir_lookup_def d [OF q])
  qed
qed

section \<open>The run of the program\<close>

definition test_name :: "u8 list" where "test_name = map of_char ''test''"

text \<open>The directories the program expects, as \<open>makeDir\<close> leaves them: boot, dev and usr in the inodes \<open>b\<close>, \<open>d\<close> and \<open>u\<close>.\<close>

definition has_dir :: "filesys \<Rightarrow> u8 list \<Rightarrow> nat \<Rightarrow> bool" where
  "has_dir f d j \<longleftrightarrow> dir_lookup f 0 (d @ [slash]) DIR = Some j \<and> used (inodes f j) 0 \<and> used (inodes f j) 1"

definition test_dirs :: "filesys \<Rightarrow> nat \<Rightarrow> nat \<Rightarrow> nat \<Rightarrow> bool" where
  "test_dirs f b d u \<longleftrightarrow> fs_ok f \<and> used (inodes f 0) 0 \<and> used (inodes f 0) 1
     \<and> has_dir f boot_name b \<and> has_dir f dev_name d \<and> has_dir f usr_name u"

text \<open>The strings of the program, each away from the two variables that change.\<close>

definition app_strings :: "app_image \<Rightarrow> (u32 \<times> u8 list) list" where
  "app_strings a = [(a_root a, [slash]), (a_boot a, slash # boot_name @ [slash]), (a_dev a, slash # dev_name @ [slash]),
     (a_usr a, slash # usr_name @ [slash]), (a_test a, slash # usr_name @ slash # test_name)]"

definition app_ready :: "(nat \<Rightarrow> u8) \<Rightarrow> app_image \<Rightarrow> bool" where
  "app_ready m a \<longleftrightarrow> user_area (unat (a_tmp a)) 1 \<and> user_area (unat (a_outbuf a)) 1024
     \<and> (\<forall>(x, s)\<in>set (app_strings a). string_at m x s
          \<and> (unat x + length s < unat (a_outbuf a) \<or> unat (a_outbuf a) + 1024 \<le> unat x)
          \<and> (unat x + length s < unat (a_tmp a) \<or> unat (a_tmp a) < unat x))"

lemma app_ready_cong:
  assumes "app_ready m a"
    and "\<And>c. c \<noteq> unat (a_tmp a) \<Longrightarrow> c < unat (a_outbuf a) \<or> unat (a_outbuf a) + 1024 \<le> c \<Longrightarrow> m' c = m c"
  shows "app_ready m' a"
proof -
  have "string_at m' x s" if "(x, s) \<in> set (app_strings a)" for x s
  proof (rule string_at_cong)
    show "string_at m x s" using that assms(1) by (auto simp: app_ready_def)
    fix c assume "unat x \<le> c" "c \<le> unat x + length s"
    then show "m' c = m c" using that assms(1) by (intro assms(2)) (auto simp: app_ready_def)
  qed
  then show ?thesis using assms(1) by (auto simp: app_ready_def)
qed

lemma test_dirs_same:
  assumes "test_dirs f b d u" and "same_files f f'"
  shows "test_dirs f' b d u"
  using assms fs_ok_same [OF _ assms(2)] dir_lookup_same [OF same_files_inodes [OF assms(2)]]
  by (simp add: test_dirs_def has_dir_def same_files_inodes)

lemma test_dirs_resolve: "test_dirs f b d u \<Longrightarrow> resolve f 0 [usr_name] = Some u"
  by (simp add: test_dirs_def has_dir_def)

lemma test_paths:
  assumes "test_dirs f b d u"
  shows "dir_path f ([slash] @ [0]) 0" and "dir_path f ((slash # boot_name @ [slash]) @ [0]) b"
    and "dir_path f ((slash # dev_name @ [slash]) @ [0]) d" and "dir_path f ((slash # usr_name @ [slash]) @ [0]) u"
proof -
  have "dir_path f ((slash # c @ [slash]) @ [0]) j" if "component c" "has_dir f c j" for c j
    unfolding dir_path_def using that component_last(2) [OF that(1)]
    by (intro disjI2 exI [of _ "[]"] exI [of _ "c @ [slash]"] exI [of _ 0]) (simp add: render_def has_dir_def)
  then show "dir_path f ((slash # boot_name @ [slash]) @ [0]) b" "dir_path f ((slash # dev_name @ [slash]) @ [0]) d"
    "dir_path f ((slash # usr_name @ [slash]) @ [0]) u"
    using assms names_ok by (auto simp: test_dirs_def)
  show "dir_path f ([slash] @ [0]) 0" by (simp add: dir_path_def)
qed

lemma app_ready_strings:
  assumes "app_ready m a"
  shows "string_at m (a_root a) [slash]" and "string_at m (a_boot a) (slash # boot_name @ [slash])"
    and "string_at m (a_dev a) (slash # dev_name @ [slash])" and "string_at m (a_usr a) (slash # usr_name @ [slash])"
    and "string_at m (a_test a) (slash # usr_name @ slash # test_name)"
    and "user_area (unat (a_tmp a)) 1" and "user_area (unat (a_outbuf a)) 1024"
  using assms by (simp_all add: app_ready_def app_strings_def)

definition ls_text :: "filesys \<Rightarrow> nat \<Rightarrow> u8 list" where
  "ls_text f j = listing (inodes f j) 2 @ [10]"

lemma ls_text_same: "same_files f f' \<Longrightarrow> ls_text f' j = ls_text f j"
  by (simp add: ls_text_def same_files_def)

lemma run_ls:
  assumes k: "prog sc k f m v t p" and td: "test_dirs f b d u" and a: "app_ready m a"
    and x: "(x, j) \<in> {(a_root a, 0), (a_boot a, b), (a_dev a, d), (a_usr a, u)}"
  shows "\<exists>k' f'. lib_ls x r (k, es) = Inr (k', es) \<and> same_files f f' \<and> test_dirs f' b d u
    \<and> prog sc k' f' m (put_text (ls_text f j) v) t p"
proof -
  have ok: "fs_ok f" and u: "used (inodes f j) 0" "used (inodes f j) 1"
    using td x by (auto simp: test_dirs_def has_dir_def)
  have "\<exists>s. string_at m x s \<and> dir_path f (s @ [0]) j"
    using x app_ready_strings(1-4) [OF a] test_paths [OF td] by (elim insertE) blast+
  then obtain s where "string_at m x s" "dir_path f (s @ [0]) j" by blast
  from prog_ls [OF k ok this u, of r es] show ?thesis using test_dirs_same [OF td] unfolding ls_text_def by blast
qed

lemma test_file: "file_name test_name" "component usr_name" "last_name test_name"
    "render [usr_name] test_name [] = (slash # usr_name @ slash # test_name) @ [0]"
  by (simp_all add: file_name_def test_name_def last_name_def render_def names_ok)

lemma openable_same: "openable f p n j \<Longrightarrow> same_files f f' \<Longrightarrow> openable f' p n j"
  using dir_lookup_same [of f' f] by (auto simp: openable_def same_files_def free_inode_def)

text \<open>What is in the file in the end.\<close>

lemma filled:
  assumes "unat (isz ino) \<le> 512"
  shows "unat (isz (written ino 0 alphabet 512)) = 512"
    and "get_bytes (idata (written ino 0 alphabet 512)) 0 512 = map alphabet [0..<512]"
proof -
  show "unat (isz (written ino 0 alphabet 512)) = 512"
    using unat_grown [of "isz ino" 512] assms by (simp add: written_def)
  show "get_bytes (idata (written ino 0 alphabet 512)) 0 512 = map alphabet [0..<512]"
  proof (rule nth_equalityI)
    fix i assume "i < length (get_bytes (idata (written ino 0 alphabet 512)) 0 512)"
    then have "i < 512" by simp
    then show "get_bytes (idata (written ino 0 alphabet 512)) 0 512 ! i = map alphabet [0..<512] ! i"
      using stored_same [of i 512 "idata ino" 0 alphabet] by (simp add: written_def)
  qed simp
qed

definition file_text :: "u8 list" where
  "file_text = map alphabet [0..<512]"

lemma create_text_format: "format_text (c_lit create_text) [] = Some (map of_char create_text)" "length (map of_char create_text) \<le> 1024"
  by (simp_all add: create_text_def c_lit_def)

text \<open>The first half: the lists, the message, the new file.\<close>

lemma run_open:
  assumes k: "prog sc k f m v t p" and td: "test_dirs f b d u" and a: "app_ready m a" and j: "openable f u test_name j"
    and i: "lowest_entry k i" and fd: "lowest_fd k n" and len: "length t = 512" "length p = 8"
  shows "\<exists>k1 k2 k3 k4 k5 k6 f6 m6. lib_ls (a_root a) r (k, es) = Inr (k1, es) \<and> lib_ls (a_boot a) r (k1, es) = Inr (k2, es)
    \<and> lib_ls (a_dev a) r (k2, es) = Inr (k3, es) \<and> lib_ls (a_usr a) r (k3, es) = Inr (k4, es)
    \<and> printf 0 (a_outbuf a) (c_lit create_text) [] r (k4, es) = Inr (k5, es)
    \<and> lib_open (a_test a) fl r (k5, es) = Inr (k6, es) \<and> retval (k6, es) = int n
    \<and> found_file f f6 u test_name j \<and> opened k6 (int n) i j 0 \<and> app_ready m6 a
    \<and> prog sc k6 f6 m6 (put_text (ls_text f 0 @ ls_text f b @ ls_text f d @ ls_text f u @ map of_char create_text) v)
        (t[i := \<lparr>inode_index = int j, link_num = 1, offset = 0\<rparr>]) (p[n := int i])"
proof -
  obtain k1 f1 where s1: "lib_ls (a_root a) r (k, es) = Inr (k1, es)" "same_files f f1" "test_dirs f1 b d u"
    "prog sc k1 f1 m (put_text (ls_text f 0) v) t p"
    using run_ls [OF k td a, of "a_root a" 0 r es] by blast
  obtain k2 f2 where s2: "lib_ls (a_boot a) r (k1, es) = Inr (k2, es)" "same_files f1 f2" "test_dirs f2 b d u"
    "prog sc k2 f2 m (put_text (ls_text f 0 @ ls_text f b) v) t p"
    using run_ls [OF s1(4,3) a, of "a_boot a" b r es] unfolding ls_text_same [OF s1(2)] put_text_append [symmetric] append_assoc by blast
  note f2 = same_files_trans [OF s1(2) s2(2)]
  obtain k3 f3 where s3: "lib_ls (a_dev a) r (k2, es) = Inr (k3, es)" "same_files f2 f3" "test_dirs f3 b d u"
    "prog sc k3 f3 m (put_text (ls_text f 0 @ ls_text f b @ ls_text f d) v) t p"
    using run_ls [OF s2(4,3) a, of "a_dev a" d r es] unfolding ls_text_same [OF f2] put_text_append [symmetric] append_assoc by blast
  note f3 = same_files_trans [OF f2 s3(2)]
  obtain k4 f4 where s4: "lib_ls (a_usr a) r (k3, es) = Inr (k4, es)" "same_files f3 f4" "test_dirs f4 b d u"
    "prog sc k4 f4 m (put_text (ls_text f 0 @ ls_text f b @ ls_text f d @ ls_text f u) v) t p"
    using run_ls [OF s3(4,3) a, of "a_usr a" u r es] unfolding ls_text_same [OF f3] put_text_append [symmetric] append_assoc by blast
  note f4 = same_files_trans [OF f3 s4(2)]
  obtain k5 m5 where s5: "printf 0 (a_outbuf a) (c_lit create_text) [] r (k4, es) = Inr (k5, es)"
    "prog sc k5 f4 m5 (put_text (map of_char create_text) (put_text (ls_text f 0 @ ls_text f b @ ls_text f d @ ls_text f u) v)) t p"
    "\<forall>c. c < unat (a_outbuf a) \<or> unat (a_outbuf a) + length create_text \<le> c \<longrightarrow> m5 c = m c"
    using prog_printf [OF s4(4) app_ready_strings(7) [OF a] create_text_format, of r es] by auto
  have a5: "app_ready m5 a" by (rule app_ready_cong [OF a]) (use s5(3) create_text_format(2) in auto)
  have g: "lowest_entry k5 i" "lowest_fd k5 n"
    using s5(2) k i fd by (simp_all add: prog_def lowest_entry_def lowest_fd_def)
  have ok: "fs_ok f4" using s4(3) by (simp add: test_dirs_def)
  have c: "\<forall>d\<in>set [usr_name]. component d" using test_file(2) by simp
  obtain k6 f6 where s6: "lib_open (a_test a) fl r (k5, es) = Inr (k6, es)" "retval (k6, es) = int n"
    "found_file f4 f6 u test_name j" "opened k6 (int n) i j 0"
    "prog sc k6 f6 m5 (put_text (map of_char create_text) (put_text (ls_text f 0 @ ls_text f b @ ls_text f d @ ls_text f u) v))
      (t[i := \<lparr>inode_index = int j, link_num = 1, offset = 0\<rparr>]) (p[n := int i])"
    using prog_open [OF s5(2) ok app_ready_strings(5) [OF a5] test_file(4) [symmetric] c test_file(1)
      test_dirs_resolve [OF s4(3)] openable_same [OF j f4] g len, of fl r es] by blast
  have "length (top_dir f6) = 28" using s6(3) by (simp add: found_file_def fs_ok_def dirs_ok_def)
  then have "found_file f f6 u test_name j" using found_file_trans [OF f4 s6(3) same_files_refl] by blast
  then show ?thesis using s1(1) s2(1) s3(1) s4(1) s5(1) s6(1,2,4,5) a5 unfolding put_text_append by blast
qed

text \<open>The directories are still there after the file was made and written.\<close>

lemma has_dir_place:
  assumes "fs_ok f" and "has_dir f c q"
  shows "q < 32 \<and> itype (inodes f q) = DIR"
proof -
  have "itype (inodes f 0) = DIR" using fs_ok_dirs [OF assms(1)] by (simp add: dirs_ok_def)
  then show ?thesis using dir_lookup_dir [OF assms(1) _ _, of 0 "c @ [slash]" q] assms(2) by (simp add: has_dir_def)
qed

lemma test_dirs_found:
  assumes td: "test_dirs f b d u" and ff: "found_file f f' u n j"
  shows "test_dirs f' b d u"
proof -
  have ok: "fs_ok f" and z: "(0::nat) < 32" "itype (inodes f 0) = DIR"
    using td fs_ok_dirs [of f] by (simp_all add: test_dirs_def dirs_ok_def)
  have "has_dir f' c q" if h: "has_dir f c q" for c q
    using has_dir_place [OF ok h] h ff z by (auto simp: has_dir_def found_file_def)
  then show ?thesis using td ff z by (auto simp: test_dirs_def found_file_def)
qed

lemma test_dirs_put:
  assumes td: "test_dirs f b d u" and j: "itype (inodes f j) \<noteq> DIR" "itype ino = itype (inodes f j)" "iname ino = iname (inodes f j)"
  shows "test_dirs (put_inode f j ino) b d u"
proof -
  have ok: "fs_ok f" and z: "itype (inodes f 0) = DIR"
    using td fs_ok_dirs [of f] by (simp_all add: test_dirs_def dirs_ok_def)
  note pf = put_file [OF ok j]
  have i: "inodes (put_inode f j ino) q = inodes f q" if "itype (inodes f q) = DIR" for q
    using j(1) that by (auto simp: put_inode_def)
  have "has_dir (put_inode f j ino) c q" if h: "has_dir f c q" for c q
    using has_dir_place [OF ok h] h pf(2) [OF z] i by (auto simp: has_dir_def)
  then show ?thesis using td pf(1) i [OF z] by (auto simp: test_dirs_def)
qed

text \<open>The second half: 512 writes, \<open>close\<close>, the list, the file, \<open>exit\<close>.\<close>

lemma run_fill:
  assumes k: "prog sc k f m v (t[i := \<lparr>inode_index = int j, link_num = 1, offset = 0\<rparr>]) (p[n := int i])"
    and td: "test_dirs f b d u" and a: "app_ready m a" and j: "dir_lookup f u test_name FL = Some j" "j < 32" "itype (inodes f j) = FL"
    and z: "unat (isz (inodes f j)) \<le> 512" and o: "opened k (int n) i j 0" and n: "3 \<le> n" "n < 8"
    and len: "i < length t" "length p = 8" "length (sb_id (superb f)) = 8"
  shows "\<exists>k1 k2 k3 k4 k5 f5 m1. write_alphabet 0 (a_tmp a) (int n) r 0 (k, es) = Inr (k1, es)
    \<and> lib_close (int n) r (k1, es) = Inr (k2, es) \<and> lib_ls (a_usr a) r (k2, es) = Inr (k3, es)
    \<and> lib_cat (a_test a) r (k3, es) = Inr (k4, es) \<and> lib_exit r (k4, es) = Inr (k5, es)
    \<and> fs k5 = f5 \<and> fs_ok f5 \<and> dir_lookup f5 u test_name FL = Some j
    \<and> unat (isz (inodes f5 j)) = 512 \<and> get_bytes (idata (inodes f5 j)) 0 512 = file_text
    \<and> scr k5 = put_text (ls_text f5 u @ file_text @ [10]) v
    \<and> sysFileTable k5 = t[i := \<lparr>inode_index = -1, link_num = 0, offset = 0\<rparr>]
    \<and> sched_rel k5 (spec_schedule DEAD sc) \<and> load_fs (disk k5) m2 = Inr m1 \<and> same_fs (get_fs fs_addr m1 g) f5"
proof -
  let ?e = "\<lparr>inode_index = int j, link_num = 1, offset = 0\<rparr> :: sysFile" and ?ino = "written (inodes f j) 0 alphabet 512"
  have e0: "?e\<lparr>offset := int 0\<rparr> = ?e" by simp
  have fd: "3 \<le> int n" "int n < 8" using n by simp_all
  obtain k1 m1 where s1: "write_alphabet 0 (a_tmp a) (int n) r 0 (k, es) = Inr (k1, es)" "\<forall>c. c \<noteq> unat (a_tmp a) \<longrightarrow> m1 c = m c"
    "prog sc k1 (put_inode f j ?ino) m1 v (t[i := ?e\<lparr>offset := 512\<rparr>]) (p[n := int i])" "opened k1 (int n) i j 512"
    using prog_fill [OF fd app_ready_strings(6) [OF a] len(1), of 0 sc k f j m v ?e "p[n := int i]" r es] k o
    unfolding written_none e0 by blast
  have a1: "app_ready m1 a" by (rule app_ready_cong [OF a]) (use s1(2) in auto)
  have it: "itype (inodes f j) \<noteq> DIR" "itype ?ino = itype (inodes f j)" "iname ?ino = iname (inodes f j)"
    using j(3) by (simp_all add: written_def)
  have td1: "test_dirs (put_inode f j ?ino) b d u" by (rule test_dirs_put [OF td it])
  obtain k2 where s2: "lib_close (int n) r (k1, es) = Inr (k2, es)"
    "prog sc k2 (put_inode f j ?ino) m1 v (t[i := \<lparr>inode_index = -1, link_num = 0, offset = 0\<rparr>]) (p[n := int i, n := -1])"
    using prog_close [OF s1(3,4), of r es] len(1,2) by auto
  obtain k3 f3 where s3: "lib_ls (a_usr a) r (k2, es) = Inr (k3, es)" "same_files (put_inode f j ?ino) f3" "test_dirs f3 b d u"
    "prog sc k3 f3 m1 (put_text (ls_text (put_inode f j ?ino) u) v) (t[i := \<lparr>inode_index = -1, link_num = 0, offset = 0\<rparr>]) (p[n := int i, n := -1])"
    using run_ls [OF s2(2) td1 a1, of "a_usr a" u r es] by blast
  have i3: "inodes f3 j = ?ino" using s3(2) by (simp add: same_files_def)
  have ok3: "fs_ok f3" using s3(3) by (simp add: test_dirs_def)
  have u: "itype (inodes f u) = DIR"
    using has_dir_place [of f usr_name u] td by (simp add: test_dirs_def)
  have ok: "fs_ok f" using td by (simp add: test_dirs_def)
  have l3: "dir_lookup f3 u test_name FL = Some j"
    using dir_lookup_same [OF same_files_inodes [OF s3(2)]] put_file(2) [OF ok it u] j(1) by simp
  note fl = filled [OF z]
  have sz: "unat (isz (inodes f3 j)) \<le> 32768" unfolding i3 fl(1) by simp
  have c: "\<forall>d\<in>set [usr_name]. component d" using test_file(2) by simp
  obtain k4 f4 where s4: "lib_cat (a_test a) r (k3, es) = Inr (k4, es)" "same_files f3 f4"
    "prog sc k4 f4 m1 (put_text (file_text @ [10]) (put_text (ls_text (put_inode f j ?ino) u) v))
      (t[i := \<lparr>inode_index = -1, link_num = 0, offset = 0\<rparr>]) (p[n := int i, n := -1])"
    using prog_cat [OF s3(4) ok3 app_ready_strings(5) [OF a1] test_file(4) [symmetric] c test_file(3)
      test_dirs_resolve [OF s3(3)] l3 sz, of r es] unfolding i3 fl file_text_def [symmetric] by blast
  have sf: "same_files (put_inode f j ?ino) f4" by (rule same_files_trans [OF s3(2) s4(2)])
  have ok4: "fs_ok f4" by (rule fs_ok_same [OF ok3 s4(2)])
  have "length (sb_id (superb f4)) = 8" using sf len(3) by (simp add: same_files_def)
  from prog_exit [OF s4(3) fs_ok_wf [OF ok4 this], of r es m2 g]
  obtain k5 mm where s5: "lib_exit r (k4, es) = Inr (k5, es)" "fs k5 = f4"
    "scr k5 = put_text (file_text @ [10]) (put_text (ls_text (put_inode f j ?ino) u) v)"
    "sysFileTable k5 = t[i := \<lparr>inode_index = -1, link_num = 0, offset = 0\<rparr>]"
    "sched_rel k5 (spec_schedule DEAD sc)" "load_fs (disk k5) m2 = Inr mm" "same_fs (get_fs fs_addr mm g) f4" by blast
  have l4: "dir_lookup f4 u test_name FL = Some j" using dir_lookup_same [OF same_files_inodes [OF s4(2)]] l3 by simp
  have i4: "inodes f4 j = ?ino" using sf by (simp add: same_files_def)
  have f: "unat (isz (inodes f4 j)) = 512" "get_bytes (idata (inodes f4 j)) 0 512 = file_text"
    unfolding i4 fl file_text_def by (rule refl)+
  have v: "scr k5 = put_text (ls_text f4 u @ file_text @ [10]) v"
    unfolding ls_text_same [OF sf] using s5(3) unfolding put_text_append [symmetric] append_assoc .
  show ?thesis
    by (intro exI [of _ k1] exI [of _ k2] exI [of _ k3] exI [of _ k4] exI [of _ k5] exI [of _ f4] exI [of _ mm] conjI)
      (rule s1(1) s2(1) s3(1) s4(1) s5 ok4 l4 f v)+
qed

text \<open>C29: the test program does what it says on the screen: it lists the four directories, makes /usr/test or finds it, fills it with
  the alphabet through 512 system calls, lists /usr/ again and shows the 512 characters. In the end its descriptor is closed,
  the process is dead and the files are on the disk. This holds for a running process other than number 2, in a state of the invariant with arrays of their declared lengths, whose five strings, its
  character and printf's buffer lie apart in its memory; on a file system with /, /boot, /dev and /usr and their entries for . and ..;
  if /usr/test is there, or an inode and an entry of /usr are free for it; if the inode of /usr/test, found or
  made, holds at most 512 bytes (a new file keeps the size the inode last had); and if a descriptor and an entry of the open file
  table are free.\<close>

theorem test_program_correct:
  assumes "at_user sc k" and "app_ready (mem k) a" and "test_dirs (fs k) b d u" and "openable (fs k) u test_name j"
    and "unat (isz (inodes (fs k) j)) \<le> 512" and "length (sb_id (superb (fs k))) = 8"
    and "length (sysFileTable k) = 512" and "length (filepointer (cur k)) = 8"
    and "lowest_entry k i" and "lowest_fd k n"
  shows "\<exists>k' m1. uEntry 0 a r (k, es) = Inr (k', es) \<and> fs_ok (fs k') \<and> dir_lookup (fs k') u test_name FL = Some j
    \<and> unat (isz (inodes (fs k') j)) = 512 \<and> get_bytes (idata (inodes (fs k') j)) 0 512 = map alphabet [0..<512]
    \<and> scr k' = put_text (ls_text (fs k) 0 @ ls_text (fs k) b @ ls_text (fs k) d @ ls_text (fs k) u @ map of_char create_text
        @ ls_text (fs k') u @ map alphabet [0..<512] @ [10]) (scr k)
    \<and> sysFileTable k' = (sysFileTable k)[i := \<lparr>inode_index = -1, link_num = 0, offset = 0\<rparr>]
    \<and> sched_rel k' (spec_schedule DEAD sc) \<and> load_fs (disk k') m2 = Inr m1 \<and> same_fs (get_fs fs_addr m1 g) (fs k')"
proof -
  have k: "prog sc k (fs k) (mem k) (scr k) (sysFileTable k) (filepointer (cur k))" using assms(1) by (simp add: prog_def)
  obtain k1 k2 k3 k4 k5 k6 f6 m6 where s: "lib_ls (a_root a) r (k, es) = Inr (k1, es)" "lib_ls (a_boot a) r (k1, es) = Inr (k2, es)"
    "lib_ls (a_dev a) r (k2, es) = Inr (k3, es)" "lib_ls (a_usr a) r (k3, es) = Inr (k4, es)"
    "printf 0 (a_outbuf a) (c_lit create_text) [] r (k4, es) = Inr (k5, es)"
    "lib_open (a_test a) (or O_RDWR O_CREAT) r (k5, es) = Inr (k6, es)" "retval (k6, es) = int n"
    and f6: "found_file (fs k) f6 u test_name j" "opened k6 (int n) i j 0" "app_ready m6 a"
    "prog sc k6 f6 m6 (put_text (ls_text (fs k) 0 @ ls_text (fs k) b @ ls_text (fs k) d @ ls_text (fs k) u @ map of_char create_text) (scr k))
        ((sysFileTable k)[i := \<lparr>inode_index = int j, link_num = 1, offset = 0\<rparr>]) ((filepointer (cur k))[n := int i])"
    using run_open [OF k assms(3,2,4,9,10,7,8), of r es "or O_RDWR O_CREAT"] by blast
  have n: "3 \<le> n" "n < 8" "i < length (sysFileTable k)"
    using assms(7,9,10) by (simp_all add: lowest_entry_def lowest_fd_def)
  have j: "dir_lookup f6 u test_name FL = Some j" "j < 32" "itype (inodes f6 j) = FL" "unat (isz (inodes f6 j)) \<le> 512"
    "length (sb_id (superb f6)) = 8"
    using f6(1) assms(5,6) by (simp_all add: found_file_def)
  from run_fill [OF f6(4) test_dirs_found [OF assms(3) f6(1)] f6(3) j(1-4) f6(2) n assms(8) j(5), of r es m2 g]
  obtain h1 h2 h3 h4 h5 f5 m1 where t: "write_alphabet 0 (a_tmp a) (int n) r 0 (k6, es) = Inr (h1, es)"
    "lib_close (int n) r (h1, es) = Inr (h2, es)" "lib_ls (a_usr a) r (h2, es) = Inr (h3, es)"
    "lib_cat (a_test a) r (h3, es) = Inr (h4, es)" "lib_exit r (h4, es) = Inr (h5, es)"
    and f5: "fs h5 = f5" "fs_ok f5" "dir_lookup f5 u test_name FL = Some j"
    "unat (isz (inodes f5 j)) = 512" "get_bytes (idata (inodes f5 j)) 0 512 = file_text"
    "scr h5 = put_text (ls_text f5 u @ file_text @ [10])
      (put_text (ls_text (fs k) 0 @ ls_text (fs k) b @ ls_text (fs k) d @ ls_text (fs k) u @ map of_char create_text) (scr k))"
    "sysFileTable h5 = (sysFileTable k)[i := \<lparr>inode_index = -1, link_num = 0, offset = 0\<rparr>]"
    "sched_rel h5 (spec_schedule DEAD sc)" "load_fs (disk h5) m2 = Inr m1" "same_fs (get_fs fs_addr m1 g) f5"
    by blast
  have "uEntry 0 a r (k, es) = Inr (h5, es)" unfolding uEntry_def by (simp only: s t bind_r_Inr Let_def)
  then show ?thesis unfolding file_text_def [symmetric]
    by (intro exI [of _ h5] exI [of _ m1] conjI)
      (use f5 in \<open>simp_all only: put_text_append [symmetric] append_assoc\<close>)
qed

lemma usr_dir: "dir_lookup tree_fs 3 test_name FL = None" "free_dent (inodes tree_fs 3) \<noteq> None"
proof -
  let ?f = "made (made root_fs boot_name) dev_name"
  have t: "tree 4 tree_fs" by (rule tree_fs_ok(1))
  have d: "dir_inode 3 0 zero_inode (inodes tree_fs 3)" using usr_made by blast
  have z: "\<forall>i < 1024. 1 < i \<longrightarrow> \<not> used zero_inode i" using zero_inode_clean by (simp add: clean_inode_def)
  have "itype (inodes tree_fs 3) = DIR" "itype (inodes tree_fs 0) = DIR"
    using t fs_ok_dirs [of tree_fs] by (simp_all add: tree_def dirs_ok_def)
  from dir_inode_lookup [OF d z _ _ this] show "dir_lookup tree_fs 3 test_name FL = None" by simp
  have "used (inodes tree_fs 3) i \<longleftrightarrow> i < 2" if "i < 1024" for i by (rule dir_inode_used [OF d z that])
  then show "free_dent (inodes tree_fs 3) \<noteq> None"
    using find_least [of 2 1024 "\<lambda>i. \<not> used (inodes tree_fs 3) i"] by (simp add: free_dent_def)
qed

text \<open>The first process with the program's image and the directories.\<close>

definition app_addrs :: app_image where
  "app_addrs = \<lparr>a_root = 0x300000, a_boot = 0x300010, a_dev = 0x300020, a_usr = 0x300030, a_test = 0x300040,
     a_tmp = 0x300100, a_outbuf = 0x310000\<rparr>"

definition app_mem :: "nat \<Rightarrow> u8" where
  "app_mem = put_bytes (put_bytes (put_bytes (put_bytes (put_bytes (\<lambda>i. 0) 0x300000 [slash])
     0x300010 (slash # boot_name @ [slash])) 0x300020 (slash # dev_name @ [slash])) 0x300030 (slash # usr_name @ [slash]))
     0x300040 (slash # usr_name @ slash # test_name)"

definition app_kernel :: kernel where
  "app_kernel = user_kernel\<lparr>fs := tree_fs, mem := app_mem\<rparr>"

lemma app_addrs_ready: "app_ready app_mem app_addrs"
proof -
  note d = string_at_def get_bytes_def app_mem_def put_bytes_def boot_name_def dev_name_def usr_name_def test_name_def
  have "string_at app_mem 0x300000 [slash]" "string_at app_mem 0x300010 (slash # boot_name @ [slash])"
    "string_at app_mem 0x300020 (slash # dev_name @ [slash])" "string_at app_mem 0x300030 (slash # usr_name @ [slash])"
    "string_at app_mem 0x300040 (slash # usr_name @ slash # test_name)"
    by (simp_all add: d)
  then show ?thesis
    by (simp add: app_ready_def app_strings_def app_addrs_def user_area_def boot_name_def dev_name_def usr_name_def test_name_def)
qed

lemma app_kernel_ok: "at_user user_sched app_kernel" "app_ready (mem app_kernel) app_addrs"
  "test_dirs (fs app_kernel) 1 2 3" "openable (fs app_kernel) 3 test_name 4"
  "unat (isz (inodes (fs app_kernel) 4)) \<le> 512" "length (sb_id (superb (fs app_kernel))) = 8"
  "length (sysFileTable app_kernel) = 512" "length (filepointer (cur app_kernel)) = 8"
  "lowest_entry app_kernel 0" "lowest_fd app_kernel 3"
proof -
  have sn: "same_nest user_kernel (user_kernel\<lparr>fs := tree_fs, mem := app_mem\<rparr>)"
    by (simp add: same_nest_def proc_same_def)
  have "at_user user_sched user_kernel"
  proof -
    have "current user_kernel = Pcb 1" using user_kernel_ok by blast
    moreover have "pid (cur user_kernel) = 1" by (rule user_kernel_fields(11))
    ultimately show ?thesis using user_inv by (simp add: at_user_def)
  qed
  then show "at_user user_sched app_kernel"
    unfolding app_kernel_def by (rule at_user_same [OF _ sn]) simp
  show "app_ready (mem app_kernel) app_addrs" by (simp add: app_kernel_def app_addrs_ready)
  have f: "fs app_kernel = tree_fs" by (simp add: app_kernel_def)
  have t: "tree 4 tree_fs" by (rule tree_fs_ok(1))
  show "test_dirs (fs app_kernel) 1 2 3"
    using t by (simp add: f test_dirs_def has_dir_def tree_fs_ok(2) tree_def names_ok)
  show "openable (fs app_kernel) 3 test_name 4"
    using usr_dir tree_free(1) [OF t] by (simp add: f openable_def)
  show "unat (isz (inodes (fs app_kernel) 4)) \<le> 512" "length (sb_id (superb (fs app_kernel))) = 8"
    using t by (simp_all add: f tree_def zero_inode_def)
  have k: "sysFileTable app_kernel = sysFileTable fs_kernel" "filepointer (cur app_kernel) = filepointer (cur fs_kernel)"
    by (simp_all add: app_kernel_def fs_kernel_def)
  show "length (sysFileTable app_kernel) = 512" "length (filepointer (cur app_kernel)) = 8"
    using fs_kernel_ok(2,3) by (simp_all add: k)
  have "lowest_entry fs_kernel 0" "lowest_fd fs_kernel 3"
    using fs_kernel_ok(4,5) unfolding getAvl_lowest [symmetric] by simp_all
  then show "lowest_entry app_kernel 0" "lowest_fd app_kernel 3" by (simp_all add: lowest_entry_def lowest_fd_def k)
qed

theorem test_program_correct_witness:
  "\<exists>k'. uEntry 0 app_addrs zero_tf (app_kernel, []) = Inr (k', []) \<and> unat (isz (inodes (fs k') 4)) = 512
    \<and> get_bytes (idata (inodes (fs k') 4)) 0 512 = map alphabet [0..<512]"
  using test_program_correct [OF app_kernel_ok, of zero_tf "[]"] by blast

end
