(* ===== verification/Typing.thy ===== *)
theory Typing
  imports Scheduling
begin

text \<open>
  The types of the kernel's state. A C \<open>int\<close> of the model is an integer of HOL and an array a list; here is shown that in every state
  a run reaches each \<open>int\<close> has a value of the machine's 32 bits, each array the length of its declaration, each descriptor a slot of
  the open file table and each slot an inode or -1. Unlike the invariant of Irqprops this asks nothing of the
  programs, so it holds on every path through the code that does not stop the machine.
\<close>

section \<open>Well-typed states\<close>

definition c_int :: "int \<Rightarrow> bool" where
  "c_int x \<longleftrightarrow> -2147483648 \<le> x \<and> x < 2147483648"

definition pcb_typed :: "pcb \<Rightarrow> bool" where
  "pcb_typed b \<longleftrightarrow> c_int (timeCount b) \<and> c_int (sleepTime b) \<and> c_int (pid b) \<and> c_int (ppid b) \<and> c_int (fp_num b)
     \<and> length (filepointer b) = 8 \<and> (\<forall>i\<in>set (filepointer b). -1 \<le> i \<and> i < 512)"

definition entry_typed :: "sysFile \<Rightarrow> bool" where
  "entry_typed e \<longleftrightarrow> -1 \<le> inode_index e \<and> inode_index e < 32 \<and> c_int (link_num e) \<and> c_int (offset e)"

definition fs_typed :: "filesys \<Rightarrow> bool" where
  "fs_typed f \<longleftrightarrow> length (top_dir f) = 28 \<and> length (sb_id (superb f)) = 8 \<and> (\<forall>j. length (iname (inodes f j)) = 28)"

definition kernel_typed :: "kernel \<Rightarrow> bool" where
  "kernel_typed k \<longleftrightarrow> (\<forall>p. pcb_typed (pcbs k p)) \<and> length (sysFileTable k) = 512 \<and> (\<forall>e\<in>set (sysFileTable k). entry_typed e)
     \<and> c_int (p_num k) \<and> c_int (sys_file_num k) \<and> c_int (buf_out k) \<and> length (BUF k) = 1024
     \<and> 0 \<le> buf_in k \<and> buf_in k \<le> 1024 \<and> fs_typed (fs k)"

named_theorems typed

lemma c_int_wrap32 [simp]: "c_int (wrap32 x)"
  using wrap32_range [of x] by (simp add: c_int_def)

lemma c_int_sint [simp]: "c_int (sint (w :: u32))"
  using sint_ge [of w] sint_lt [of w] by (simp add: c_int_def)

lemma c_int_small [simp]: "c_int 0" "c_int 1" "c_int (-1)" "c_int 10" "c_int 3"
  by (simp_all add: c_int_def)

lemma pcb_typed_frame [simp]:
  "pcb_typed (b\<lparr>pstate := s\<rparr>) = pcb_typed b" "pcb_typed (b\<lparr>tf := t\<rparr>) = pcb_typed b" "pcb_typed (b\<lparr>psem := a\<rparr>) = pcb_typed b"
  by (simp_all add: pcb_typed_def)

text \<open>What is read for the types; the other fields may change at will.\<close>

lemma kernel_typed_same:
  assumes "kernel_typed k" and "\<And>p. pcb_typed (pcbs k p) \<Longrightarrow> pcb_typed (pcbs k' p)" and "sysFileTable k' = sysFileTable k"
    and "p_num k' = p_num k" and "sys_file_num k' = sys_file_num k" and "buf_out k' = buf_out k" and "BUF k' = BUF k"
    and "buf_in k' = buf_in k" and "fs k' = fs k"
  shows "kernel_typed k'"
  using assms by (simp add: kernel_typed_def)

lemma kernel_typed_fields [simp]:
  "kernel_typed (k\<lparr>nxt := n\<rparr>) = kernel_typed k" "kernel_typed (k\<lparr>current := c\<rparr>) = kernel_typed k"
  "kernel_typed (k\<lparr>disk := d\<rparr>) = kernel_typed k" "kernel_typed (k\<lparr>mem := m\<rparr>) = kernel_typed k"
  "kernel_typed (k\<lparr>scr := s\<rparr>) = kernel_typed k" "kernel_typed (k\<lparr>serial := b\<rparr>) = kernel_typed k"
  "kernel_typed (k\<lparr>intr_nesting := i\<rparr>) = kernel_typed k" "kernel_typed (k\<lparr>tss_esp0 := e\<rparr>) = kernel_typed k"
  "kernel_typed (k\<lparr>currentstacktop := e\<rparr>) = kernel_typed k"
  by (simp_all add: kernel_typed_def)

lemma upd_pcb_typed [typed]:
  "kernel_typed k \<Longrightarrow> (\<And>b. pcb_typed b \<Longrightarrow> pcb_typed (g b)) \<Longrightarrow> kernel_typed (upd_pcb p g k)"
  by (simp add: kernel_typed_def)

lemma set_state_typed [typed]: "kernel_typed k \<Longrightarrow> kernel_typed (set_state p s k)"
  by (simp add: set_state_def upd_pcb_typed)

lemma set_eax_typed [typed]: "kernel_typed k \<Longrightarrow> kernel_typed (set_eax v k)"
  by (simp add: set_eax_def upd_pcb_typed)

lemma set_psem_typed [typed]: "kernel_typed k \<Longrightarrow> kernel_typed (set_psem v k)"
  by (simp add: set_psem_def upd_pcb_typed)

lemma set_sem_typed [typed]: "kernel_typed k \<Longrightarrow> kernel_typed (set_sem_value s v k)"
  "kernel_typed k \<Longrightarrow> kernel_typed (set_sem_list s p k)"
  by (simp_all add: set_sem_value_def set_sem_list_def)

lemma trap_typed [typed]: "kernel_typed k \<Longrightarrow> kernel_typed (trap f k)"
  by (simp add: trap_def upd_pcb_typed)

text \<open>The list operations touch the links only.\<close>

lemma add_to_typed [typed]: "add_to h p k = Inr k' \<Longrightarrow> kernel_typed k \<Longrightarrow> kernel_typed k'"
  by (auto simp: add_to_def exec_Inr_iffs)

lemma delete_from_typed [typed]: "delete_from h p k = Inr k' \<Longrightarrow> kernel_typed k \<Longrightarrow> kernel_typed k'"
  by (auto simp: delete_from_def exec_Inr_iffs)


section \<open>The scheduler\<close>

lemma dispatch_typed [typed]: "kernel_typed k \<Longrightarrow> kernel_typed (dispatch p k)"
  by (auto simp: dispatch_def pcb_typed_def intro!: upd_pcb_typed)

lemma run_idle_typed [typed]: "kernel_typed k \<Longrightarrow> kernel_typed (run_idle k)"
  by (auto simp: run_idle_def pcb_typed_def intro!: upd_pcb_typed)

lemma queue_current_typed [typed]: "queue_current k = Inr k' \<Longrightarrow> kernel_typed k \<Longrightarrow> kernel_typed k'"
  by (auto simp: queue_current_def Let_def exec_Inr_iffs intro: typed split: p_state.splits if_splits)

lemma timeCount_typed: "kernel_typed k \<Longrightarrow> kernel_typed (upd_pcb p (\<lambda>b. b\<lparr>timeCount := 10\<rparr>) k)"
  by (auto simp: pcb_typed_def intro!: upd_pcb_typed)

lemma switch_process_typed [typed]: "switch_process k = Inr k' \<Longrightarrow> kernel_typed k \<Longrightarrow> kernel_typed k'"
  by (auto simp: switch_process_def exec_Inr_iffs intro: typed timeCount_typed split: p_state.splits if_splits)

lemma schedule_typed [typed]: "schedule k = Inr k' \<Longrightarrow> kernel_typed k \<Longrightarrow> kernel_typed k'"
  by (auto simp: schedule_def exec_Inr_iffs dest: switch_process_typed)

lemma tick_sleep_typed [typed]: "kernel_typed k \<Longrightarrow> kernel_typed (tick_sleep q k)"
  by (auto simp: tick_sleep_def pcb_typed_def intro!: upd_pcb_typed)

lemma wake_one_typed [typed]: "wake_one q k = Inr k' \<Longrightarrow> kernel_typed k \<Longrightarrow> kernel_typed k'"
  by (auto simp: wake_one_def exec_Inr_iffs intro: typed)

lemma wake_loop_typed:
  assumes "wake_loop p k = Some r"
  shows "kernel_typed k \<longrightarrow> (\<forall>k'. r = Inr k' \<longrightarrow> kernel_typed k')"
  using wake_loop.raw_induct [OF _ assms, of "\<lambda>p k r. kernel_typed k \<longrightarrow> (\<forall>k'. r = Inr k' \<longrightarrow> kernel_typed k')"]
  by (fastforce simp: Let_def intro: tick_sleep_typed wake_one_typed split: option.splits if_splits sum.splits)

lemma try_to_wakeup_typed [typed]: "try_to_wakeup k = Inr k' \<Longrightarrow> kernel_typed k \<Longrightarrow> kernel_typed k'"
  by (auto simp: try_to_wakeup_def dest: wake_loop_typed split: option.splits)

lemma timerHandle_typed [typed]: "timerHandle tfp k = Inr k' \<Longrightarrow> kernel_typed k \<Longrightarrow> kernel_typed k'"
  by (auto simp: timerHandle_def Let_def exec_Inr_iffs pcb_typed_def intro!: upd_pcb_typed
      dest!: schedule_typed try_to_wakeup_typed split: if_splits)


section \<open>Processes and semaphores\<close>

lemma sem_P_typed [typed]: "sem_P s k = Inr k' \<Longrightarrow> kernel_typed k \<Longrightarrow> kernel_typed k'"
  by (auto simp: sem_P_def Let_def require_eq_Inr intro: typed split: if_splits)

lemma sem_V_typed [typed]: "sem_V s k = Inr k' \<Longrightarrow> kernel_typed k \<Longrightarrow> kernel_typed k'"
  by (auto simp: sem_V_def exec_Inr_iffs intro!: set_sem_typed dest!: add_to_typed delete_from_typed
      intro: set_state_typed split: if_splits)

lemma sem_init_typed [typed]: "sem_init_aux s v k = Inr k' \<Longrightarrow> kernel_typed k \<Longrightarrow> kernel_typed k'"
  by (auto simp: sem_init_aux_def Let_def require_eq_Inr intro!: set_eax_typed set_sem_typed set_psem_typed)

lemma sem_destroy_typed [typed]: "kernel_typed k \<Longrightarrow> kernel_typed (sem_destroy_aux s k)"
  by (simp add: sem_destroy_aux_def set_psem_typed set_eax_typed)

lemma sem_calls_typed [typed]: "sem_wait_aux s k = Inr k' \<Longrightarrow> kernel_typed k \<Longrightarrow> kernel_typed k'"
  "sem_post_aux s k = Inr k' \<Longrightarrow> kernel_typed k \<Longrightarrow> kernel_typed k'"
  by (auto simp: sem_wait_aux_def sem_post_aux_def dest: sem_P_typed sem_V_typed intro: set_eax_typed)

lemma p_num_typed: "kernel_typed k \<Longrightarrow> c_int n \<Longrightarrow> kernel_typed (k\<lparr>p_num := n\<rparr>)"
  by (simp add: kernel_typed_def)

lemma exit_typed [typed]:
  assumes "exit_aux k = Inr k'" and k: "kernel_typed k"
  shows "kernel_typed k'"
proof -
  obtain d where "schedule ((set_state (current k) DEAD k)\<lparr>p_num := wrap32 (p_num k - 1), disk := d\<rparr>) = Inr k'"
    using assms(1) by (auto simp: exit_aux_def Let_def writeBack_def exec_Inr_iffs set_state_def)
  then show ?thesis using p_num_typed [OF set_state_typed [OF k]] by (auto dest: schedule_typed)
qed

lemma sleep_typed [typed]: "sleep_aux t k = Inr k' \<Longrightarrow> c_int t \<Longrightarrow> kernel_typed k \<Longrightarrow> kernel_typed k'"
  by (auto simp: sleep_aux_def pcb_typed_def intro!: upd_pcb_typed dest!: schedule_typed)

lemma link_files_typed: "link_files fps t = Inr t' \<Longrightarrow> \<forall>e\<in>set t. entry_typed e \<Longrightarrow>
    length t' = length t \<and> (\<forall>e\<in>set t'. entry_typed e)"
proof (induction fps t rule: link_files.induct)
  case (2 i fps t)
  show ?case
  proof (cases "i = -1")
    case False
    let ?u = "t[nat i := (t ! nat i)\<lparr>link_num := wrap32 (link_num (t ! nat i) + 1)\<rparr>]"
    have i: "nat i < length t" "link_files fps ?u = Inr t'" using 2(3) False by (auto simp: require_eq_Inr Let_def)
    have "entry_typed (t ! nat i)" using 2(4) i(1) by simp
    then have "\<forall>e\<in>set ?u. entry_typed e"
      using 2(4) by (auto dest!: set_update_subset_insert [THEN subsetD] simp: entry_typed_def)
    then show ?thesis using 2(1) [OF False _ refl i(2)] 2(3) False by (auto simp: require_eq_Inr)
  qed (use 2 in simp)
qed simp

lemma child_typed: "pcb_typed b \<Longrightarrow> pcb_typed old \<Longrightarrow> c_int n \<Longrightarrow> pcb_typed (child_pcb n b old)"
  by (simp add: pcb_typed_def child_pcb_def)

lemma table_typed: "kernel_typed k \<Longrightarrow> length t = 512 \<Longrightarrow> \<forall>e\<in>set t. entry_typed e \<Longrightarrow> kernel_typed (k\<lparr>sysFileTable := t\<rparr>)"
  by (simp add: kernel_typed_def)

lemma fork_typed [typed]:
  assumes "fork_aux k = Inr k'" and "kernel_typed k"
  shows "kernel_typed k'"
proof -
  obtain c k1 t k2 where s: "delete_from free_list c k = Inr k1" "link_files (filepointer (cur k1)) (sysFileTable k1) = Inr t"
    "add_to runnable_list c (set_eax (word_of_int (p_num k1)) ((upd_pcb c (child_pcb (p_num k1) (cur k1)) (k1\<lparr>sysFileTable := t\<rparr>))
        \<lparr>mem := copy_image 0x200000 (mem k1)\<rparr>)) = Inr k2" "k' = k2\<lparr>p_num := wrap32 (p_num k2 + 1)\<rparr>"
    using assms(1) by (auto simp: fork_aux_def Let_def exec_Inr_iffs)
  have k1: "kernel_typed k1" by (rule delete_from_typed [OF s(1) assms(2)])
  have t: "length t = 512" "\<forall>e\<in>set t. entry_typed e"
    using link_files_typed [OF s(2)] k1 by (auto simp: kernel_typed_def)
  have "pcb_typed (cur k1)" "c_int (p_num k1)" using k1 by (simp_all add: kernel_typed_def)
  then have "kernel_typed (upd_pcb c (child_pcb (p_num k1) (cur k1)) (k1\<lparr>sysFileTable := t\<rparr>))"
    by (intro upd_pcb_typed table_typed k1 t child_typed)
  then have "kernel_typed k2" by (intro add_to_typed [OF s(3)] set_eax_typed) simp
  then show ?thesis unfolding s(4) by (intro p_num_typed) simp_all
qed


section \<open>The file system\<close>

lemma fs_typed_superb [typed]: "fs_typed f \<Longrightarrow> fs_typed (inuse_inc f)" "fs_typed f \<Longrightarrow> fs_typed (set_inode_map f j v)"
  by (simp_all add: fs_typed_def inuse_inc_def set_inode_map_def)

lemma put_inode_typed [typed]: "fs_typed f \<Longrightarrow> length (iname ino) = 28 \<Longrightarrow> fs_typed (put_inode f j ino)"
  by (simp add: fs_typed_def put_inode_def)

lemma strcpy_length: "strcpy d s = Inr d' \<Longrightarrow> length d' = length d"
  by (auto simp: strcpy_eq split: if_splits)

lemma top_from_length: "top_from path len i td = Inr (td', off) \<Longrightarrow> length td' = length td"
proof (induction path len i td rule: top_from.induct)
  case (1 path len i td)
  then show ?case
    by (auto simp: top_from.simps [of path len i td] exec_Inr_iffs Let_def split: if_splits)
qed

lemma next_level_typed: "next_level f path = Inr (f', dir, path') \<Longrightarrow> fs_typed f \<Longrightarrow> fs_typed f'"
  by (auto simp: next_level_def getTopDir_def exec_Inr_iffs fs_typed_def top_from_length)

lemma minus_one_uint [simp]: "-1 \<le> uint (w :: u32)"
  by (rule order_trans [of _ 0]) simp_all

text \<open>A scan gives an inode number or -1.\<close>

lemma scan_dir_range: "scan_dir f k nm t i cont = Inr n \<Longrightarrow> -1 \<le> n \<and> n < 32"
proof (induction f k nm t i cont rule: scan_dir.induct)
  case (1 f k nm t i cont)
  then show ?case
    by (auto simp: scan_dir.simps [of f k nm t i cont] exec_Inr_iffs inode_at_eq_Inr split: if_splits)
qed

lemma scan_at_range: "scan_at f j nm t = Inr n \<Longrightarrow> -1 \<le> n \<and> n < 32"
  by (auto simp: scan_at_def exec_Inr_iffs dest: scan_dir_range)

lemma walk_typed: "walk strict f path j = Inr (f', path', n) \<Longrightarrow> fs_typed f \<Longrightarrow> -1 \<le> j \<and> j < 32 \<Longrightarrow> fs_typed f' \<and> -1 \<le> n \<and> n < 32"
proof (induction strict f path j rule: walk.induct)
  case (1 strict f path j)
  obtain last where l: "lastLevel path = Inr last" using 1(3) by (auto simp: walk.simps [of strict f path j] exec_Inr_iffs)
  show ?case
  proof (cases last)
    case True
    then show ?thesis using 1 l by (simp add: walk.simps [of strict f path j])
  next
    case False
    obtain f1 dir p1 n1 where s: "next_level f path = Inr (f1, dir, p1)" "scan_at f1 j dir DIR = Inr n1"
      and w: "walk strict f1 p1 n1 = Inr (f', path', n)"
      using 1(3) l False by (auto simp: walk.simps [of strict f path j] exec_Inr_iffs split: option.splits)
    note r = next_level_typed [OF s(1) 1(4)] scan_at_range [OF s(2)]
    show ?thesis
    proof (cases strict)
      case None
      then show ?thesis using 1(1) [OF l False s(1) refl refl s(2)] w r by blast
    next
      case (Some line)
      moreover have "n1 \<noteq> -1" using 1(3) l False s Some by (auto simp: walk.simps [of "Some line" f path j] require_eq_Inr)
      ultimately show ?thesis using 1(2) [OF l False s(1) refl refl s(2)] w r by blast
    qed
  qed
qed

lemma find_typed:
  "findUpperDirPos f path = Inr (n, f') \<Longrightarrow> fs_typed f \<Longrightarrow> fs_typed f' \<and> -1 \<le> n \<and> n < 32"
  "findCurrentDirPos f path = Inr (n, f') \<Longrightarrow> fs_typed f \<Longrightarrow> fs_typed f' \<and> -1 \<le> n \<and> n < 32"
  "findCurrentFLPos f path = Inr (n, f') \<Longrightarrow> fs_typed f \<Longrightarrow> fs_typed f' \<and> -1 \<le> n \<and> n < 32"
  by (auto simp: findUpperDirPos_def findCurrentDirPos_def findCurrentFLPos_def exec_Inr_iffs split: if_splits
      dest!: next_level_typed walk_typed dest: scan_at_range)

lemma strcpy_dent_iname: "strcpy_dent ino i s = Inr ino' \<Longrightarrow> iname ino' = iname ino"
  by (auto simp: strcpy_dent_def exec_Inr_iffs)

lemma enter_dent_typed: "enter_dent f p i n name = Inr f' \<Longrightarrow> fs_typed f \<Longrightarrow> fs_typed f'"
  by (auto simp: enter_dent_def Let_def exec_Inr_iffs intro!: put_inode_typed dest!: strcpy_dent_iname) (simp add: fs_typed_def)

lemma makeFL_typed: "makeFL f path None = Inr f' \<Longrightarrow> fs_typed f \<Longrightarrow> fs_typed f'"
  by (auto simp: makeFL_def Let_def exec_Inr_iffs store_data_def strcpy_iname_def
      intro!: fs_typed_superb put_inode_typed dest!: find_typed(1) enter_dent_typed strcpy_length)
    (auto simp: fs_typed_def inuse_inc_def)

lemma rm_from_typed: "rm_from f p nm i cont = Inr f' \<Longrightarrow> fs_typed f \<Longrightarrow> fs_typed f'"
proof (induction f p nm i cont rule: rm_from.induct)
  case (1 f p nm i cont)
  then show ?case
    by (auto simp: rm_from.simps [of f p nm i cont] exec_Inr_iffs split: if_splits
        intro!: put_inode_typed dest!: strcpy_dent_iname) (simp_all add: fs_typed_def)
qed

lemma rmFL_typed: "rmFL f path = Inr f' \<Longrightarrow> fs_typed f \<Longrightarrow> fs_typed f'"
  by (auto simp: rmFL_def exec_Inr_iffs intro!: fs_typed_superb dest!: find_typed rm_from_typed)

lemma write_from_iname: "write_from ino buf len off i = Inr (n, ino') \<Longrightarrow> iname ino' = iname ino"
proof (induction ino buf len off i rule: write_from.induct)
  case (1 ino buf len off i)
  then show ?case by (auto simp: write_from.simps [of ino buf len off i] exec_Inr_iffs split: if_splits)
qed

lemma writeF_typed: "writeF f n buf len off = Inr (m, f') \<Longrightarrow> fs_typed f \<Longrightarrow> fs_typed f'"
  by (auto simp: writeF_def Let_def exec_Inr_iffs inode_at_eq_Inr intro!: put_inode_typed dest!: write_from_iname)
    (simp_all add: fs_typed_def)


section \<open>The file system calls and the console\<close>

lemma fs_field_typed [typed]: "kernel_typed k \<Longrightarrow> fs_typed f \<Longrightarrow> kernel_typed (k\<lparr>fs := f\<rparr>)"
  by (simp add: kernel_typed_def)

lemma fs_of_typed: "kernel_typed k \<Longrightarrow> fs_typed (fs k)"
  by (simp add: kernel_typed_def)

lemma set_entry_typed:
  assumes "kernel_typed k" and "\<And>e. entry_typed e \<Longrightarrow> entry_typed (g e)" and "i < 512"
  shows "kernel_typed (set_entry i g k)"
proof -
  have "entry_typed (g (sysFileTable k ! i))" using assms by (simp add: kernel_typed_def)
  then show ?thesis using assms(1)
    by (auto simp: kernel_typed_def set_entry_def dest!: set_update_subset_insert [THEN subsetD])
qed

lemma set_offset_typed: "kernel_typed k \<Longrightarrow> i < 512 \<Longrightarrow> kernel_typed (set_offset i v k)"
  by (auto simp: set_offset_def entry_typed_def intro!: set_entry_typed)

lemma fd_slot_bound: "fd_slot k fd = Inr i \<Longrightarrow> 0 \<le> fd \<and> fd < 8 \<and> i < 512"
  by (auto simp: fd_slot_def Let_def require_eq_Inr)

lemma ls_typed [typed]: "ls_aux path k = Inr k' \<Longrightarrow> kernel_typed k \<Longrightarrow> kernel_typed k'"
  by (auto simp: ls_aux_def exec_Inr_iffs dest!: find_typed(2) intro: fs_of_typed) (simp add: kernel_typed_def)

lemma cat_typed [typed]: "cat_aux path k = Inr k' \<Longrightarrow> kernel_typed k \<Longrightarrow> kernel_typed k'"
  by (auto simp: cat_aux_def exec_Inr_iffs dest!: find_typed(3) intro: fs_of_typed) (simp add: kernel_typed_def)

lemma remove_typed [typed]: "remove_aux path k = Inr k' \<Longrightarrow> kernel_typed k \<Longrightarrow> kernel_typed k'"
  by (auto simp: remove_aux_def exec_Inr_iffs dest!: rmFL_typed intro: fs_of_typed intro!: set_eax_typed fs_field_typed)

lemma lseek_typed [typed]: "lseek_aux fd off w k = Inr k' \<Longrightarrow> kernel_typed k \<Longrightarrow> kernel_typed k'"
  by (auto simp: lseek_aux_def exec_Inr_iffs dest!: fd_slot_bound intro!: set_offset_typed split: if_splits)

lemma write_typed [typed]: "write_aux fd p len k = Inr k' \<Longrightarrow> kernel_typed k \<Longrightarrow> kernel_typed k'"
  by (auto simp: write_aux_def Let_def exec_Inr_iffs dest!: fd_slot_bound writeF_typed intro: fs_of_typed
      intro!: set_offset_typed set_eax_typed fs_field_typed split: if_splits)

lemma pointer_typed:
  assumes "pcb_typed b" and "-1 \<le> i" and "i < 512" and "c_int n"
  shows "pcb_typed (b\<lparr>filepointer := (filepointer b)[d := i], fp_num := n\<rparr>)"
  using assms by (auto simp: pcb_typed_def dest!: set_update_subset_insert [THEN subsetD])

lemma sys_file_num_typed: "kernel_typed k \<Longrightarrow> c_int n \<Longrightarrow> kernel_typed (k\<lparr>sys_file_num := n\<rparr>)"
  by (simp add: kernel_typed_def)

lemma install_file_typed:
  assumes "kernel_typed k" and "-1 \<le> j" and "j < 32" and "i < 512"
  shows "kernel_typed (install_file j i d k)"
proof -
  have "kernel_typed (set_entry i (\<lambda>e. e\<lparr>inode_index := j, link_num := 1, offset := 0\<rparr>) k)"
    using assms by (intro set_entry_typed) (simp_all add: entry_typed_def)
  then show ?thesis
    unfolding install_file_def Let_def using assms(4)
    by (intro sys_file_num_typed set_eax_typed upd_pcb_typed pointer_typed) simp_all
qed

lemma getAvlSystemFile_bound: "getAvlSystemFile k \<noteq> -1 \<Longrightarrow> nat (getAvlSystemFile k) < 512"
  by (auto simp: getAvlSystemFile_def find_Some_iff split: option.splits)

lemma isFLExist_typed: "isFLExist f path = Inr (b, f') \<Longrightarrow> fs_typed f \<Longrightarrow> fs_typed f'"
  by (auto simp: isFLExist_def exec_Inr_iffs dest: find_typed(3))

lemma open_typed [typed]:
  assumes "open_aux path flags k = Inr k'" and "kernel_typed k"
  shows "kernel_typed k'"
proof -
  obtain b f1 f2 n f3 where s: "isFLExist (fs k) path = Inr (b, f1)" "(if \<not> b then makeFL f1 path None else Inr f1) = Inr f2"
    "findCurrentFLPos f2 path = Inr (n, f3)" "getAvlSystemFile k \<noteq> -1"
    "k' = install_file n (nat (getAvlSystemFile k)) (nat (getAvlFilepointer k)) (k\<lparr>fs := f3\<rparr>)"
    using assms(1) by (auto simp: open_aux_def Let_def exec_Inr_iffs)
  have "fs_typed f1" using isFLExist_typed [OF s(1)] assms(2) by (simp add: kernel_typed_def)
  then have "fs_typed f2" using s(2) makeFL_typed by (auto split: if_splits)
  then have "fs_typed f3" "-1 \<le> n" "n < 32" using find_typed(3) [OF s(3)] by simp_all
  then show ?thesis unfolding s(5) by (intro install_file_typed fs_field_typed assms(2) getAvlSystemFile_bound s(4))
qed

lemma drop_link_typed: "kernel_typed k \<Longrightarrow> i < 512 \<Longrightarrow> kernel_typed (drop_link i k)"
  unfolding drop_link_def Let_def
  by (auto simp: entry_typed_def intro!: set_entry_typed sys_file_num_typed)

lemma close_typed [typed]: "close_aux fd k = Inr k' \<Longrightarrow> kernel_typed k \<Longrightarrow> kernel_typed k'"
  by (auto simp: close_aux_def exec_Inr_iffs dest!: fd_slot_bound
      intro!: set_eax_typed upd_pcb_typed pointer_typed drop_link_typed)

lemma keyboardHandle_typed [typed]: "keyboardHandle c k = Inr k' \<Longrightarrow> kernel_typed k \<Longrightarrow> kernel_typed k'"
  by (auto simp: keyboardHandle_def Let_def require_eq_Inr kernel_typed_def split: if_splits)

lemma nested_irq_typed: "nested_irq tfp e k = Inr k' \<Longrightarrow> kernel_typed k \<Longrightarrow> kernel_typed k'"
  by (cases e) (auto simp: nested_irq_def exec_Inr_iffs dest: timerHandle_typed keyboardHandle_typed)

lemma wait_typed: "wait_for_keyboard tfp n es k = Inr (k', es') \<Longrightarrow> kernel_typed k \<Longrightarrow> kernel_typed k'"
proof (induction es arbitrary: k)
  case Nil
  then show ?case by (auto simp: wait_for_keyboard.simps [of _ _ "[]"] split: if_splits)
next
  case (Cons e es)
  then show ?case
    by (auto simp: wait_for_keyboard.simps [of _ _ "e # es"] exec_Inr_iffs dest!: nested_irq_typed split: if_splits)
qed

lemma buf_out_typed: "kernel_typed k \<Longrightarrow> c_int n \<Longrightarrow> kernel_typed (k\<lparr>mem := m, buf_out := n\<rparr>)"
  by (simp add: kernel_typed_def)

lemma read_typed [typed]: "read_aux tfp fd p len es k = Inr (k', es') \<Longrightarrow> kernel_typed k \<Longrightarrow> kernel_typed k'"
  by (auto simp: read_aux_def Let_def exec_Inr_iffs dest!: fd_slot_bound wait_typed
      intro!: set_offset_typed set_eax_typed buf_out_typed split: if_splits)


section \<open>Every interrupt, every run\<close>

lemma syscall_typed:
  assumes h: "syscallHandle tfp es k = Inr (k', es')" and k: "kernel_typed k"
  shows "kernel_typed k'"
proof -
  note calls = exit_typed [OF _ k] fork_typed [OF _ k] read_typed [OF _ k] write_typed [OF _ k] lseek_typed [OF _ k]
    open_typed [OF _ k] close_typed [OF _ k] remove_typed [OF _ k] sem_init_typed [OF _ k] sem_calls_typed [OF _ k]
    ls_typed [OF _ k] cat_typed [OF _ k] sleep_typed [OF _ c_int_sint k]
  show ?thesis using h sem_destroy_typed [OF k] unfolding syscallHandle_def require_eq_Inr Let_def
    by (auto simp: exec_Inr_iffs split: if_splits dest: calls)
qed

lemma irqHandle_typed:
  assumes h: "irqHandle tfp irq port es k = Inr (k', es')" and k: "kernel_typed k"
  shows "kernel_typed k'"
proof -
  obtain k1 es1 where m: "(if irq = -1 then Inr (k, es)
      else if irq = 0xd then bind_r (GProtectFaultHandle tfp k) (\<lambda>k. Inr (k, es))
      else if irq = 0x20 then bind_r (timerHandle tfp k) (\<lambda>k. Inr (k, es))
      else if irq = 0x21 then bind_r (keyboardHandle port k) (\<lambda>k. Inr (k, es))
      else if irq = 0x80 then syscallHandle tfp es k
      else Inl (AssertFail ''irqHandle.c'' 42)) = Inr (k1, es1)"
    and k': "bind_r (set_stacktop tfp k1) (\<lambda>k. Inr (k, es1)) = Inr (k', es')"
    using bind_r_pair [OF h [unfolded irqHandle_def]] by blast
  have "k1 = k \<or> keyboardHandle port k = Inr k1 \<or> timerHandle tfp k = Inr k1 \<or> syscallHandle tfp es k = Inr (k1, es1)"
    using m by (simp add: bind_r_eq_Inr GProtectFaultHandle_def require_eq_Inr split: if_splits)
  then have "kernel_typed k1"
    using k timerHandle_typed [OF _ k] keyboardHandle_typed [OF _ k] syscall_typed [OF _ k] by blast
  then show ?thesis using k' unfolding set_stacktop_eq by (auto split: if_splits)
qed

lemma init_pcbs_typed: "init_pcbs is k = Inr k' \<Longrightarrow> kernel_typed k \<Longrightarrow> kernel_typed k'"
proof (induction "is" arbitrary: k)
  case (Cons i "is")
  then obtain k1 where k1: "add_to free_list (Pcb i) (upd_pcb (Pcb i) free_pcb k) = Inr k1" "init_pcbs is k1 = Inr k'"
    by (auto simp: exec_Inr_iffs)
  have "kernel_typed (upd_pcb (Pcb i) free_pcb k)"
    using Cons.prems(2) by (rule upd_pcb_typed) (simp add: pcb_typed_def free_pcb_def)
  then show ?case using Cons.IH [OF k1(2)] add_to_typed [OF k1(1)] by blast
qed simp

lemma initPcb_typed:
  assumes "initPcb k = Inr k'" and "kernel_typed k"
  shows "kernel_typed k'"
proof -
  let ?k = "k\<lparr>sys_file_num := 0, sysFileTable := map (\<lambda>e. e\<lparr>inode_index := -1\<rparr>) (sysFileTable k),
          intr_nesting := False, nxt := (nxt k)(Dummy1 := None, Dummy2 := None, Dummy3 := None), p_num := 1\<rparr>"
  have "kernel_typed ?k" using assms(2) by (auto simp: kernel_typed_def entry_typed_def)
  moreover obtain k1 where "init_pcbs [1..<10] ?k = Inr k1"
    "k' = (upd_pcb IdlePcb (\<lambda>b. b\<lparr>pid := 0, pstate := RUNNING, timeCount := 10, sleepTime := 0, psem := 0\<rparr>) k1)\<lparr>current := IdlePcb\<rparr>"
    using assms(1) unfolding initPcb_def bind_r_eq_Inr by auto
  ultimately show ?thesis using init_pcbs_typed [of "[1..<10]" ?k k1]
    by (auto simp: pcb_typed_def intro!: upd_pcb_typed)
qed

lemma preparePCB_typed:
  assumes "preparePCB entry k = Inr k'" and "kernel_typed k"
  shows "kernel_typed k'"
proof -
  obtain c k1 k2 where s: "delete_from free_list c k = Inr k1"
    "add_to runnable_list c (upd_pcb c (first_pcb (p_num k1) entry) k1) = Inr k2" "k' = k2\<lparr>p_num := wrap32 (p_num k2 + 1)\<rparr>"
    using assms(1) by (auto simp: preparePCB_def exec_Inr_iffs)
  have k1: "kernel_typed k1" by (rule delete_from_typed [OF s(1) assms(2)])
  then have "c_int (p_num k1)" by (simp add: kernel_typed_def)
  then have "kernel_typed (upd_pcb c (first_pcb (p_num k1) entry) k1)"
    using k1 by (auto simp: pcb_typed_def first_pcb_def intro!: upd_pcb_typed)
  then show ?thesis unfolding s(3) using add_to_typed [OF s(2)] by (intro p_num_typed) auto
qed


text \<open>
  A step of any run: an interrupt with any frame, at any place of the stack, whether or not its system call is one that
  \<open>sane_call\<close> allows, or a change of the programs' memory.
\<close>

inductive any_step :: "kernel \<Rightarrow> kernel \<Rightarrow> bool" where
  any_interrupt: "irqHandle addr (tf_irq f) port es (trap f k) = Inr (k', es') \<Longrightarrow> any_step k k'"
| any_compute: "any_step k (k\<lparr>mem := m\<rparr>)"

inductive_cases any_stepE: "any_step k k'"

lemma kernel_step_any: "kernel_step k k' \<Longrightarrow> any_step k k'"
  by (auto elim!: kernel_stepE intro: any_step.intros)

text \<open>C4: in every state of every run from power on - boot with a zeroed or otherwise well-typed kernel and a file system from the disk, then
  any interrupts and system calls whatsoever, semaphores misused or not, that do not stop the machine - every \<open>int\<close> of the kernel is a
  32-bit value, every array has its declared length, and every descriptor, slot and inode number is in range: a slot reached
  through a descriptor is free or has an inode.\<close>

theorem kernel_types:
  assumes "kernel_typed k0" and "fs_typed f" and "initPcb k0 = Inr k1"
    and "preparePCB entry (k1\<lparr>fs := f, mem := m, scr := v, serial := out, buf_in := 0, buf_out := 0\<rparr>) = Inr k2"
    and "rtranclp any_step k2 k"
  shows "kernel_typed k \<and> (\<forall>fd i. fd_slot k fd = Inr i \<longrightarrow>
    inode_index (sysFileTable k ! i) = -1 \<or> inode_at (fs k) (inode_index (sysFileTable k ! i)) \<noteq> Inl OutOfBounds)"
proof -
  have "kernel_typed (k1\<lparr>fs := f, mem := m, scr := v, serial := out, buf_in := 0, buf_out := 0\<rparr>)"
    using initPcb_typed [OF assms(3,1)] assms(2) by (simp add: kernel_typed_def)
  then have k2: "kernel_typed k2" by (rule preparePCB_typed [OF assms(4)])
  have k: "kernel_typed k"
    using assms(5)
  proof (induction rule: rtranclp_induct)
    case (step a b)
    from step.hyps(2) show ?case
    proof (rule any_stepE)
      fix m assume "b = a\<lparr>mem := m\<rparr>"
      then show ?thesis using step.IH by (simp add: kernel_typed_def)
    qed (use irqHandle_typed trap_typed [OF step.IH] in blast)
  qed (rule k2)
  moreover have "inode_index (sysFileTable k ! i) = -1 \<or> inode_at (fs k) (inode_index (sysFileTable k ! i)) \<noteq> Inl OutOfBounds"
    if "fd_slot k fd = Inr i" for fd i
  proof -
    have "sysFileTable k ! i \<in> set (sysFileTable k)" using fd_slot_bound [OF that] k by (simp add: kernel_typed_def)
    then have "entry_typed (sysFileTable k ! i)" using k by (simp add: kernel_typed_def)
    then show ?thesis by (auto simp: entry_typed_def inode_at_def)
  qed
  ultimately show ?thesis by blast
qed

lemma zero_typed: "kernel_typed bss" "fs_typed zero_fs"
  by (auto simp: kernel_typed_def bss_def pcb_typed_def zero_pcb_def fs_typed_def entry_typed_def zero_fs_def zero_inode_def)

text \<open>The first key, an \<open>a\<close>, while the idle process runs; and the idle process destroying a semaphore, which it never does.\<close>

theorem kernel_types_witness: "(\<exists>k. any_step booted k \<and> buf_in k = 1 \<and> kernel_typed k)
    \<and> (\<exists>f k. \<not> sane_call f booted \<and> irqHandle (trap_addr booted) (tf_irq f) 0 [] (trap f booted) = Inr (k, []) \<and> kernel_typed k)"
proof -
  obtain k1 where k1: "initPcb bss = Inr k1" "clock_ok k1 boot_sched" "p_num k1 = 1" "buf_in k1 = 0" "buf_out k1 = 0"
    using initPcb_ok [of bss] by (auto simp: bss_def)
  obtain k2 where k2: "preparePCB 0x200000 k1 = Inr k2"
    using preparePCB_ok [OF k1(2,3)] by blast
  have b: "booted = k2" by (simp add: booted_def k1(1) k2)
  have e: "k1\<lparr>fs := zero_fs, mem := mem k1, scr := scr k1, serial := serial k1, buf_in := 0, buf_out := 0\<rparr> = k1\<lparr>fs := zero_fs\<rparr>"
    using k1(4,5) by (cases k1) simp
  have "fs k1 = zero_fs" using initPcb_ok [of bss] k1(1) by (auto simp: bss_def)
  then have "k1\<lparr>fs := zero_fs\<rparr> = k1" by (cases k1) simp
  then have p: "preparePCB 0x200000 (k1\<lparr>fs := zero_fs, mem := mem k1, scr := scr k1, serial := serial k1, buf_in := 0, buf_out := 0\<rparr>) = Inr booted"
    unfolding e using k2 by (simp add: b)
  let ?f = "zero_tf\<lparr>tf_irq := 0x21\<rparr>" and ?k = "trap (zero_tf\<lparr>tf_irq := 0x21\<rparr>) booted"
  have i: "buf_in ?k = 0" "\<not> intr_nesting ?k" using booted_ok by (simp_all add: trap_def)
  have "keyboard_event 30 \<noteq> 0" by (simp add: keyboard_event_def press_key_def letter_code_def)
  then obtain k3 where k3: "keyboardHandle 30 ?k = Inr k3" "buf_in k3 = 1" using i by (simp add: keyboardHandle_def Let_def)
  obtain k where k: "irqHandle (trap_addr booted) (tf_irq ?f) 30 [] ?k = Inr (k, [])" "buf_in k = 1"
    using k3 by (cases "intr_nesting k3") (auto simp: irqHandle_def set_stacktop_eq)
  have s: "any_step booted k" using k(1) by (rule any_step.any_interrupt)
  then have r: "rtranclp any_step booted k" by blast
  note ty = kernel_types [OF zero_typed k1(1) p]
  from ty [OF r] have key: "\<exists>k. any_step booted k \<and> buf_in k = 1 \<and> kernel_typed k" using s k(2) by blast
  let ?g = "zero_tf\<lparr>tf_irq := 0x80, tf_eax := 8\<rparr>"
  have cur: "current booted = IdlePcb" using booted_ok by (simp add: clock_ok_def sched_rel_def loaded_sched_def)
  have "\<not> sane_call ?g booted" using cur by (simp add: sane_call_def)
  moreover obtain k' where k': "irqHandle (trap_addr booted) (tf_irq ?g) 0 [] (trap ?g booted) = Inr (k', [])"
    using cur by (auto simp: irqHandle_def syscallHandle_def trap_def trap_addr_def tf_addr_def Let_def require_def set_stacktop_eq)
  moreover have "kernel_typed k'" using ty [of k'] any_step.any_interrupt [OF k'] by blast
  ultimately show ?thesis using key by blast
qed

end
