(* ===== verification/Device.thy ===== *)
theory Device
  imports Prelude
begin

text \<open>
  Devices that the drivers poll: what \<open>waitDisk\<close> of the two disk drivers and the wait of \<open>putChar\<close> rely on.
\<close>

text \<open>
  \<open>busy d\<close> is the number of polls that will still find the device busy, \<open>rest d\<close> the device when it is ready again; \<open>wait_for\<close> is
  the driver's loop.
\<close>

locale polled =
  fixes poll :: "'d \<Rightarrow> bool \<times> 'd" and busy :: "'d \<Rightarrow> nat" and rest :: "'d \<Rightarrow> 'd" and wait_for :: "'d \<Rightarrow> 'd"
  assumes ready: "busy d = 0 \<Longrightarrow> poll d = (True, rest d)"
    and not_ready: "busy d = Suc n \<Longrightarrow> \<exists>d'. poll d = (False, d') \<and> busy d' = n \<and> rest d' = rest d"
    and wait_for: "wait_for d = (let (r, d') = poll d in if r then d' else wait_for d')"
begin

lemma wait_ends: "wait_for d = rest d"
proof (induction "busy d" arbitrary: d)
  case 0
  then show ?case by (subst wait_for) (simp add: ready)
next
  case (Suc n)
  obtain d' where "poll d = (False, d')" "busy d' = n" "rest d' = rest d" using not_ready [of d n] Suc(2) by auto
  then show ?case using Suc(1) [of d'] by (subst wait_for) simp
qed

end

end
