(* ===== verification/Ata.thy ===== *)
theory Ata
  imports Disk Device
begin

unbundle bit_operations_syntax

text \<open>
  The two disk drivers, kernel/kernel/disk.c and the copy in bootloader/boot.c, port by port. The drive is a machine on the
  other side of the ports, stated from the ATA manual: it is busy for as long as it likes after a command, it ignores what is written
  while it is busy, and it moves the words of a sector one by one through its data port. The property says that
  both drivers do on it what \<open>readBytes\<close> and \<open>writeBytes\<close> of theory Disk say.
\<close>

section \<open>The drive\<close>

text \<open>
  \<open>Reading b n\<close>: \<open>n\<close> words from byte \<open>b\<close> on are still to be fetched; \<open>Writing\<close> likewise. \<open>d_busy\<close> is how many more times
  the status will show the drive busy, \<open>d_delay\<close> gives that number for the commands to come.
\<close>

datatype transfer = Ready | Reading nat nat | Writing nat nat

record drive =
  d_count :: u8
  d_lba0 :: u8  d_lba1 :: u8  d_lba2 :: u8  d_lba3 :: u8
  d_busy :: nat
  d_delay :: "nat \<Rightarrow> nat"
  d_transfer :: transfer
  d_hd :: "nat \<Rightarrow> u8"

definition begin_transfer :: "(nat \<Rightarrow> nat \<Rightarrow> transfer) \<Rightarrow> drive \<Rightarrow> drive" where
  "begin_transfer t d = d\<lparr>d_busy := d_delay d 0, d_delay := (\<lambda>i. d_delay d (Suc i)),
     d_transfer := t (512 * ata_lba (d_lba0 d, d_lba1 d, d_lba2 d, d_lba3 d)) (128 * (if d_count d = 0 then 256 else unat (d_count d)))\<rparr>"

text \<open>The status: BSY, or DRDY with DSC.\<close>

definition in_status :: "drive \<Rightarrow> u8 \<times> drive" where
  "in_status d = (if d_busy d = 0 then (0x50, d) else (0x80, d\<lparr>d_busy := d_busy d - 1\<rparr>))"

definition out_port :: "u16 \<Rightarrow> u8 \<Rightarrow> drive \<Rightarrow> drive" where
  "out_port port x d =
     (if d_busy d \<noteq> 0 then d
      else if port = 0x1F2 then d\<lparr>d_count := x\<rparr>
      else if port = 0x1F3 then d\<lparr>d_lba0 := x\<rparr>
      else if port = 0x1F4 then d\<lparr>d_lba1 := x\<rparr>
      else if port = 0x1F5 then d\<lparr>d_lba2 := x\<rparr>
      else if port = 0x1F6 then d\<lparr>d_lba3 := x\<rparr>
      else if port = 0x1F7 \<and> x = 0x20 then begin_transfer Reading d
      else if port = 0x1F7 \<and> x = 0x30 then begin_transfer Writing d
      else d)"

definition in_data :: "drive \<Rightarrow> u32 \<times> drive" where
  "in_data d = (case d_transfer d of
       Reading b (Suc n) \<Rightarrow> if d_busy d \<noteq> 0 then (0xFFFFFFFF, d)
         else (get32 (d_hd d) b, d\<lparr>d_transfer := (if n = 0 then Ready else Reading (b + 4) n)\<rparr>)
     | _ \<Rightarrow> (0xFFFFFFFF, d))"

definition out_data :: "u32 \<Rightarrow> drive \<Rightarrow> drive" where
  "out_data w d = (case d_transfer d of
       Writing b (Suc n) \<Rightarrow> if d_busy d \<noteq> 0 then d
         else d\<lparr>d_hd := put32 (d_hd d) b w, d_transfer := (if n = 0 then Ready else Writing (b + 4) n)\<rparr>
     | _ \<Rightarrow> d)"


section \<open>Port instructions\<close>

text \<open>\<open>inByte\<close>, \<open>inLong\<close>, \<open>outByte\<close> and \<open>outLong\<close> of kernel/include/x86/io.h; at ports without a device all lines are high. Those of
  boot.h differ in their types only, where the port is a \<open>short\<close> and the byte a \<open>char\<close>.\<close>

definition inByte :: "u16 \<Rightarrow> drive \<Rightarrow> u8 \<times> drive" where
  "inByte port d = (if port = 0x1F7 then in_status d else (0xFF, d))"

definition inLong :: "u16 \<Rightarrow> drive \<Rightarrow> u32 \<times> drive" where
  "inLong port d = (if port = 0x1F0 then in_data d else (0xFFFFFFFF, d))"

definition outByte_io :: "u16 \<Rightarrow> int \<Rightarrow> drive \<Rightarrow> drive" where
  "outByte_io port x d = out_port port (word_of_int x) d"

definition outLong :: "u16 \<Rightarrow> u32 \<Rightarrow> drive \<Rightarrow> drive" where
  "outLong port w d = (if port = 0x1F0 then out_data w d else d)"

definition boot_inByte :: "int \<Rightarrow> drive \<Rightarrow> int \<times> drive" where
  "boot_inByte port d = (let (s, d) = inByte (word_of_int port) d in (sint s, d))"

definition boot_inLong :: "int \<Rightarrow> drive \<Rightarrow> u32 \<times> drive" where
  "boot_inLong port d = inLong (word_of_int port) d"

definition boot_outByte :: "int \<Rightarrow> int \<Rightarrow> drive \<Rightarrow> drive" where
  "boot_outByte port x d = outByte_io (word_of_int port) x d"

lemma ports [simp]:
  "inByte 0x1F7 d = in_status d" "inLong 0x1F0 d = in_data d" "outLong 0x1F0 w d = out_data w d"
  "boot_inByte 0x1F7 d = (let (s, d) = in_status d in (sint s, d))" "boot_inLong 0x1F0 d = in_data d"
  by (simp_all add: inByte_def inLong_def outLong_def boot_inByte_def boot_inLong_def)


section \<open>The driver of the kernel\<close>

text \<open>\<open>waitDisk\<close>: \<open>inByte\<close> gives a \<open>uint8_t\<close>.\<close>

function waitDisk :: "drive \<Rightarrow> drive" where
  "waitDisk d = (let (s, d') = inByte 0x1F7 d in if uint s AND 0xC0 \<noteq> 0x40 then waitDisk d' else d')"
  by pat_completeness auto
termination by (relation "measure d_busy") (auto simp: in_status_def split: if_splits)

declare waitDisk.simps [simp del]

definition select_sector :: "int \<Rightarrow> drive \<Rightarrow> drive" where
  "select_sector offset d =
     (let d = outByte_io 0x1F2 1 d;
          d = outByte_io 0x1F3 offset d;
          d = outByte_io 0x1F4 (drop_bit 8 offset) d;
          d = outByte_io 0x1F5 (drop_bit 16 offset) d
      in outByte_io 0x1F6 (drop_bit 24 offset OR 0xE0) d)"

text \<open>\<open>((int *)dst)[i] = inLong(0x1F0)\<close> and \<open>outLong(0x1F0, ((uint32_t *)src)[i])\<close> for \<open>i\<close> up to a bound\<close>

primrec in_longs :: "nat \<Rightarrow> nat \<Rightarrow> drive \<times> (nat \<Rightarrow> u8) \<Rightarrow> drive \<times> (nat \<Rightarrow> u8)" where
  "in_longs 0 dst x = x"
| "in_longs (Suc i) dst x =
     (let (d, m) = in_longs i dst x; (w, d) = inLong 0x1F0 d in (d, put32 m (dst + 4 * i) w))"

primrec out_longs :: "nat \<Rightarrow> nat \<Rightarrow> (nat \<Rightarrow> u8) \<Rightarrow> drive \<Rightarrow> drive" where
  "out_longs 0 src m d = d"
| "out_longs (Suc i) src m d = outLong 0x1F0 (get32 m (src + 4 * i)) (out_longs i src m d)"

definition readSect_io :: "nat \<Rightarrow> int \<Rightarrow> drive \<times> (nat \<Rightarrow> u8) \<Rightarrow> drive \<times> (nat \<Rightarrow> u8)" where
  "readSect_io dst offset x =
     (let (d, m) = x;
          d = waitDisk d;
          d = select_sector offset d;
          d = outByte_io 0x1F7 0x20 d;
          d = waitDisk d
      in in_longs (SECTSIZE div 4) dst (d, m))"

definition writeSect_io :: "nat \<Rightarrow> int \<Rightarrow> (nat \<Rightarrow> u8) \<Rightarrow> drive \<Rightarrow> drive" where
  "writeSect_io src offset m d =
     (let d = waitDisk d;
          d = select_sector offset d;
          d = outByte_io 0x1F7 0x30 d;
          d = waitDisk d
      in out_longs (SECTSIZE div 4) src m d)"

function read_sects_io :: "nat \<Rightarrow> nat \<Rightarrow> int \<Rightarrow> drive \<times> (nat \<Rightarrow> u8) \<Rightarrow> drive \<times> (nat \<Rightarrow> u8)" where
  "read_sects_io addr addr_end sect x =
     (if addr < addr_end then read_sects_io (addr + SECTSIZE) addr_end (sect + 1) (readSect_io addr sect x) else x)"
  by pat_completeness auto
termination by (relation "measure (\<lambda>(addr, addr_end, _). addr_end - addr)") auto

function write_sects_io :: "nat \<Rightarrow> nat \<Rightarrow> int \<Rightarrow> (nat \<Rightarrow> u8) \<Rightarrow> drive \<Rightarrow> drive" where
  "write_sects_io addr addr_end sect m d =
     (if addr < addr_end then write_sects_io (addr + SECTSIZE) addr_end (sect + 1) m (writeSect_io addr sect m d) else d)"
  by pat_completeness auto
termination by (relation "measure (\<lambda>(addr, addr_end, _). addr_end - addr)") auto

declare read_sects_io.simps [simp del] write_sects_io.simps [simp del]

definition readBytes_io :: "nat \<Rightarrow> int \<Rightarrow> int \<Rightarrow> drive \<times> (nat \<Rightarrow> u8) \<Rightarrow> (drive \<times> (nat \<Rightarrow> u8)) exec" where
  "readBytes_io addr diskoff cont x =
     (let addr_end = int addr + cont;
          addr = int addr - diskoff smod int SECTSIZE;
          sect = diskoff sdiv int SECTSIZE
      in require (in_space addr \<and> in_space addr_end) OutOfBounds (Inr (read_sects_io (nat addr) (nat addr_end) sect x)))"

definition writeBytes_io :: "nat \<Rightarrow> int \<Rightarrow> int \<Rightarrow> (nat \<Rightarrow> u8) \<Rightarrow> drive \<Rightarrow> drive exec" where
  "writeBytes_io addr diskoff cont m d =
     (let addr_end = int addr + cont
      in require (diskoff smod int SECTSIZE = 0) (AssertFail ''disk.c'' 60)
           (let diskoff = diskoff - diskoff smod int SECTSIZE;
                sect = diskoff sdiv int SECTSIZE
            in require (in_space (int addr) \<and> in_space addr_end) OutOfBounds
                 (Inr (write_sects_io addr (nat addr_end) sect m d))))"


section \<open>The driver of the boot loader\<close>

text \<open>The status is a signed \<open>char\<close> here, which is extended with its sign before the test.\<close>

function boot_waitDisk :: "drive \<Rightarrow> drive" where
  "boot_waitDisk d = (let (s, d') = boot_inByte 0x1F7 d in if s AND 0xC0 \<noteq> 0x40 then boot_waitDisk d' else d')"
  by pat_completeness auto
termination by (relation "measure d_busy") (auto simp: in_status_def split: if_splits)

declare boot_waitDisk.simps [simp del]

primrec boot_in_longs :: "nat \<Rightarrow> nat \<Rightarrow> drive \<times> (nat \<Rightarrow> u8) \<Rightarrow> drive \<times> (nat \<Rightarrow> u8)" where
  "boot_in_longs 0 dst x = x"
| "boot_in_longs (Suc i) dst x =
     (let (d, m) = boot_in_longs i dst x; (w, d) = boot_inLong 0x1F0 d in (d, put32 m (dst + 4 * i) w))"

definition boot_readSect :: "nat \<Rightarrow> int \<Rightarrow> drive \<times> (nat \<Rightarrow> u8) \<Rightarrow> drive \<times> (nat \<Rightarrow> u8)" where
  "boot_readSect dst offset x =
     (let (d, m) = x;
          d = boot_waitDisk d;
          d = boot_outByte 0x1F2 1 d;
          d = boot_outByte 0x1F3 offset d;
          d = boot_outByte 0x1F4 (drop_bit 8 offset) d;
          d = boot_outByte 0x1F5 (drop_bit 16 offset) d;
          d = boot_outByte 0x1F6 (drop_bit 24 offset OR 0xE0) d;
          d = boot_outByte 0x1F7 0x20 d;
          d = boot_waitDisk d
      in boot_in_longs (SECTSIZE div 4) dst (d, m))"

function boot_read_sects :: "nat \<Rightarrow> nat \<Rightarrow> int \<Rightarrow> drive \<times> (nat \<Rightarrow> u8) \<Rightarrow> drive \<times> (nat \<Rightarrow> u8)" where
  "boot_read_sects addr addr_end section x =
     (if addr < addr_end then boot_read_sects (addr + SECTSIZE) addr_end (section + 1) (boot_readSect addr section x) else x)"
  by pat_completeness auto
termination by (relation "measure (\<lambda>(addr, addr_end, _). addr_end - addr)") auto

declare boot_read_sects.simps [simp del]

definition boot_readBytes :: "nat \<Rightarrow> int \<Rightarrow> int \<Rightarrow> drive \<times> (nat \<Rightarrow> u8) \<Rightarrow> (drive \<times> (nat \<Rightarrow> u8)) exec" where
  "boot_readBytes addr diskoff cont x =
     (let addr_end = int addr + cont;
          addr = int addr - diskoff smod int SECTSIZE;
          sect = diskoff sdiv int SECTSIZE
      in require (in_space addr \<and> in_space addr_end) OutOfBounds (Inr (boot_read_sects (nat addr) (nat addr_end) sect x)))"


section \<open>One sector\<close>

text \<open>Both loops wait for a polled device; the sign of the status makes no difference.\<close>

interpretation kernel_poll: polled "\<lambda>d. let (s, d') = inByte 0x1F7 d in (uint s AND 0xC0 = 0x40, d')" d_busy
    "\<lambda>d. d\<lparr>d_busy := 0\<rparr>" waitDisk
proof unfold_locales
  fix d
  show "waitDisk d = (let (r, d') = (let (s, d') = inByte 0x1F7 d in (uint s AND 0xC0 = 0x40, d')) in if r then d' else waitDisk d')"
    by (subst waitDisk.simps) (auto split: prod.split)
qed (auto simp: in_status_def)

interpretation boot_poll: polled "\<lambda>d. let (s, d') = boot_inByte 0x1F7 d in (s AND 0xC0 = 0x40, d')" d_busy
    "\<lambda>d. d\<lparr>d_busy := 0\<rparr>" boot_waitDisk
proof unfold_locales
  fix d
  show "boot_waitDisk d = (let (r, d') = (let (s, d') = boot_inByte 0x1F7 d in (s AND 0xC0 = 0x40, d')) in if r then d' else boot_waitDisk d')"
    by (subst boot_waitDisk.simps) (auto split: prod.split)
qed (auto simp: in_status_def)

lemmas waitDisk_eq = kernel_poll.wait_ends

lemma boot_waitDisk_eq: "boot_waitDisk d = waitDisk d"
  by (simp add: kernel_poll.wait_ends boot_poll.wait_ends)

text \<open>A drive that has been told the sector and the command.\<close>

definition told :: "(nat \<Rightarrow> nat \<Rightarrow> transfer) \<Rightarrow> int \<Rightarrow> drive \<Rightarrow> drive \<Rightarrow> bool" where
  "told t off d d' \<longleftrightarrow> d_busy d' = 0 \<and> d_transfer d' = t (512 * ata_lba (lba_ports off)) 128 \<and> d_hd d' = d_hd d"

lemma select_told:
  fixes x :: int
  assumes "x = 0x20 \<and> t = Reading \<or> x = 0x30 \<and> t = Writing"
  shows "told t off d (waitDisk (outByte_io 0x1F7 x (select_sector off (waitDisk d))))"
proof -
  have l: "lba_ports off = (word_of_int off, word_of_int (drop_bit 8 off), word_of_int (drop_bit 16 off),
      word_of_int (drop_bit 24 off OR 0xE0))"
    by (simp add: lba_ports_def drop_bit_eq_div of_int_or_eq)
  show ?thesis using assms unfolding told_def l waitDisk_eq
    by (auto simp: select_sector_def outByte_io_def out_port_def begin_transfer_def Let_def)
qed

lemma in_longs_eq:
  assumes "d_busy d = 0" and "d_transfer d = Reading b n" and "0 < n"
  shows "i \<le> n \<Longrightarrow> in_longs i dst (d, m) = (d\<lparr>d_transfer := (if i = n then Ready else Reading (b + 4 * i) (n - i))\<rparr>,
    read_longs i dst b (d_hd d) m)"
proof (induction i)
  case 0
  then show ?case using assms by simp
next
  case (Suc i)
  obtain j where "n - i = Suc j" using Suc.prems by (metis Suc_diff_Suc Suc_le_lessD)
  moreover have "Suc i = n \<longleftrightarrow> j = 0" "n - Suc i = j" using calculation by linarith+
  ultimately show ?case using Suc assms by (simp add: in_data_def algebra_simps)
qed

lemma out_longs_eq:
  assumes "d_busy d = 0" and "d_transfer d = Writing b n" and "0 < n"
  shows "i \<le> n \<Longrightarrow> out_longs i src m d = d\<lparr>d_transfer := (if i = n then Ready else Writing (b + 4 * i) (n - i)),
    d_hd := read_longs i b src m (d_hd d)\<rparr>"
proof (induction i)
  case 0
  then show ?case using assms by simp
next
  case (Suc i)
  obtain j where "n - i = Suc j" using Suc.prems by (metis Suc_diff_Suc Suc_le_lessD)
  moreover have "Suc i = n \<longleftrightarrow> j = 0" "n - Suc i = j" using calculation by linarith+
  ultimately show ?case using Suc assms by (simp add: out_data_def algebra_simps)
qed

text \<open>The drive between two sectors, when its disk holds \<open>hd\<close>.\<close>

definition at_rest :: "(nat \<Rightarrow> u8) \<Rightarrow> drive \<Rightarrow> bool" where
  "at_rest hd0 d \<longleftrightarrow> d_busy d = 0 \<and> d_transfer d = Ready \<and> d_hd d = hd0"

lemma readSect_io_ok:
  assumes "d_hd d = hd0"
  shows "\<exists>d'. readSect_io dst off (d, m) = (d', readSect dst off hd0 m) \<and> at_rest hd0 d'"
proof -
  define e where "e = waitDisk (outByte_io 0x1F7 0x20 (select_sector off (waitDisk d)))"
  have t: "told Reading off d e" unfolding e_def by (rule select_told) simp
  then have "in_longs 128 dst (e, m) = (e\<lparr>d_transfer := Ready\<rparr>, readSect dst off hd0 m)"
    using in_longs_eq [of e "512 * ata_lba (lba_ports off)" 128 128 dst m] assms by (simp add: told_def readSect_def)
  then show ?thesis using t assms by (simp add: readSect_io_def e_def [symmetric] told_def at_rest_def)
qed

lemma writeSect_io_ok:
  assumes "d_hd d = hd0"
  shows "at_rest (writeSect src off m hd0) (writeSect_io src off m d)"
proof -
  define e where "e = waitDisk (outByte_io 0x1F7 0x30 (select_sector off (waitDisk d)))"
  have t: "told Writing off d e" unfolding e_def by (rule select_told) simp
  then have "out_longs 128 src m e = e\<lparr>d_transfer := Ready, d_hd := writeSect src off m hd0\<rparr>"
    using out_longs_eq [of e "512 * ata_lba (lba_ports off)" 128 128 src m] assms by (simp add: told_def writeSect_def)
  then show ?thesis using t by (simp add: writeSect_io_def e_def [symmetric] told_def at_rest_def)
qed

lemma boot_in_longs_eq: "boot_in_longs i dst x = in_longs i dst x"
  by (induction i) simp_all

lemma boot_readSect_eq: "boot_readSect dst off x = readSect_io dst off x"
  by (simp add: boot_readSect_def readSect_io_def select_sector_def boot_outByte_def boot_waitDisk_eq boot_in_longs_eq Let_def
      split: prod.split)


section \<open>Runs of sectors\<close>

lemma read_sects_io_ok:
  "d_hd d = hd0 \<Longrightarrow> \<exists>d'. read_sects_io a e s (d, m) = (d', read_sects a e s hd0 m) \<and> d_hd d' = hd0 \<and> (a < e \<longrightarrow> at_rest hd0 d')"
proof (induction a e s hd0 m arbitrary: d rule: read_sects.induct)
  case (1 a e s hd0 m)
  show ?case
  proof (cases "a < e")
    case True
    obtain d1 where d1: "readSect_io a s (d, m) = (d1, readSect a s hd0 m)" "at_rest hd0 d1"
      using readSect_io_ok [OF 1(2)] by blast
    then obtain d2 where "read_sects_io (a + 512) e (s + 1) (d1, readSect a s hd0 m) =
        (d2, read_sects (a + 512) e (s + 1) hd0 (readSect a s hd0 m))" "d_hd d2 = hd0" "a + 512 < e \<longrightarrow> at_rest hd0 d2"
      using 1(1) [OF True, of d1] by (auto simp: at_rest_def)
    moreover have "d2 = d1" if "\<not> a + 512 < e"
      using calculation(1) that by (simp add: read_sects_io.simps [of "a + 512"])
    ultimately show ?thesis using True d1
      by (subst read_sects_io.simps, subst read_sects.simps) auto
  next
    case False
    then show ?thesis using 1(2) by (subst read_sects_io.simps, subst read_sects.simps) simp
  qed
qed

lemma write_sects_io_ok:
  "d_hd d = hd0 \<Longrightarrow> d_hd (write_sects_io a e s m d) = write_sects a e s m hd0"
proof (induction a e s m hd0 arbitrary: d rule: write_sects.induct)
  case (1 a e s m hd0)
  show ?case
  proof (cases "a < e")
    case True
    have "d_hd (writeSect_io a s m d) = writeSect a s m hd0" using writeSect_io_ok [OF 1(2)] by (simp add: at_rest_def)
    from 1(1) [OF True this] show ?thesis using True
      by (subst write_sects_io.simps, subst write_sects.simps) simp
  next
    case False
    then show ?thesis using 1(2) by (subst write_sects_io.simps, subst write_sects.simps) simp
  qed
qed

lemma boot_read_sects_eq: "boot_read_sects a e s x = read_sects_io a e s x"
  by (induction a e s x rule: read_sects_io.induct)
    (subst boot_read_sects.simps, subst read_sects_io.simps, simp add: boot_readSect_eq)

text \<open>C22: on a drive that is busy for any number of polls after each command, both drivers end, and do what the byte level
  says: \<open>readBytes\<close> brings the same bytes into memory and leaves the disk as it was, \<open>writeBytes\<close> changes the disk in the
  same way, both fail on the same arguments, and the boot loader's copy, whose status byte is signed, is the kernel's driver.\<close>

theorem disk_ports_refine:
  "(case readBytes addr off n (d_hd d) m of
      Inl f \<Rightarrow> readBytes_io addr off n (d, m) = Inl f
    | Inr m' \<Rightarrow> (\<exists>d'. readBytes_io addr off n (d, m) = Inr (d', m') \<and> d_hd d' = d_hd d))
    \<and> (case writeBytes addr off n m (d_hd d) of
      Inl f \<Rightarrow> writeBytes_io addr off n m d = Inl f
    | Inr hd' \<Rightarrow> (\<exists>d'. writeBytes_io addr off n m d = Inr d' \<and> d_hd d' = hd'))
    \<and> boot_readBytes addr off n (d, m) = readBytes_io addr off n (d, m)"
  using read_sects_io_ok [OF refl, of "nat (int addr - off smod 512)" "nat (int addr + n)" "off sdiv 512" d m]
    write_sects_io_ok [OF refl, of addr "nat (int addr + n)" "off sdiv 512" m d]
  by (auto simp: readBytes_def readBytes_io_def writeBytes_def writeBytes_io_def boot_readBytes_def boot_read_sects_eq require_def Let_def)

end
