(* ===== verification/Uart.thy ===== *)
theory Uart
  imports Format Device
begin

unbundle bit_operations_syntax

text \<open>
  The serial port behind \<open>putChar\<close> of kernel/kernel/serial.c, poll by poll: the transmitter takes one byte and is busy with it for
  as long as it likes; a byte that is written before it is idle again overwrites the waiting one.
\<close>

section \<open>The transmitter\<close>

text \<open>\<open>u_sent\<close> are the bytes given to the port so far, \<open>u_busy\<close> the number of polls that will still find the last one waiting.\<close>

record uart =
  u_busy :: nat
  u_delay :: "nat \<Rightarrow> nat"
  u_sent :: "u8 list"

text \<open>The line status register: bit 5 says that the holding register is empty.\<close>

definition line_status :: "uart \<Rightarrow> u8 \<times> uart" where
  "line_status u = (if u_busy u = 0 then (0x60, u) else (0, u\<lparr>u_busy := u_busy u - 1\<rparr>))"

definition transmit :: "u8 \<Rightarrow> uart \<Rightarrow> uart" where
  "transmit ch u = u\<lparr>u_sent := (if u_busy u = 0 then u_sent u else butlast (u_sent u)) @ [ch],
     u_busy := u_delay u 0, u_delay := (\<lambda>i. u_delay u (Suc i))\<rparr>"


section \<open>The driver\<close>

definition serialIdle :: "uart \<Rightarrow> bool \<times> uart" where
  "serialIdle u = (let (s, u) = line_status u in (uint s AND 0x20 \<noteq> 0, u))"

function wait_idle :: "uart \<Rightarrow> uart" where
  "wait_idle u = (let (idle, u') = serialIdle u in if idle \<noteq> True then wait_idle u' else u')"
  by pat_completeness auto
termination by (relation "measure u_busy") (auto simp: serialIdle_def line_status_def split: if_splits)

declare wait_idle.simps [simp del]

definition putChar_io :: "u8 \<Rightarrow> uart \<Rightarrow> uart" where
  "putChar_io ch u = transmit ch (wait_idle u)"


section \<open>No byte is lost\<close>

interpretation serial_poll: polled serialIdle u_busy "\<lambda>u. u\<lparr>u_busy := 0\<rparr>" wait_idle
proof unfold_locales
  fix u
  show "wait_idle u = (let (r, u') = serialIdle u in if r then u' else wait_idle u')"
    by (subst wait_idle.simps) (auto split: prod.split)
qed (auto simp: serialIdle_def line_status_def)

lemmas wait_idle_eq = serial_poll.wait_ends

text \<open>\<open>putChar\<close> of theory Format, which appends to the text sent, is what the driver does, for one character and for a text.\<close>

lemma putChar_io_ok: "putChar ch (u_sent u) = Inr (u_sent (putChar_io ch u))"
  by (simp add: putChar_def putChar_io_def wait_idle_eq transmit_def)

lemma text_sent: "u_sent (fold putChar_io t u) = u_sent u @ t"
  by (induction t arbitrary: u) (simp_all add: putChar_io_def wait_idle_eq transmit_def)

end
