(* ===== verification/Stubs.thy ===== *)
theory Stubs
  imports Tables Kmain Irq
begin

unbundle bit_operations_syntax

text \<open>
  The processor between the programs and \<open>irqHandle\<close>: its registers, the task state segment of
  kernel/include/x86/memory.h, the instructions that the inline assembly of kernel/include/x86/cpu.h, memory.h and
  kernel/kernel/kvm.c stands for, the entry points of kernel/kernel/doIrq.S with the way back, and
  \<open>enterUserSpace\<close>. What the processor does on an interrupt and on \<open>iret\<close>
  (\<open>deliver\<close>, \<open>iret\<close>) is stated from the Intel manual, without its protection faults. Every access to the stack is to a word at
  a distance of a multiple of 4 from the others, so the stack is a map from addresses to words.
\<close>

section \<open>Registers\<close>

record cpu =
  r_eax :: u32  r_ecx :: u32  r_edx :: u32  r_ebx :: u32
  r_esp :: u32  r_ebp :: u32  r_esi :: u32  r_edi :: u32
  r_eip :: u32  r_eflags :: u32
  r_cs :: u16  r_ds :: u16  r_es :: u16  r_fs :: u16  r_gs :: u16  r_ss :: u16
  r_gdt :: "u16 list"  r_idt :: "u16 list"  r_ldt :: u16  r_tr :: u16
  stk :: "u32 \<Rightarrow> u32"

text \<open>\<open>struct TSS\<close>; \<open>ts_rest\<close> are the 22 words of its union, of which the processor uses nothing here.\<close>

record task_state =
  ts_link :: u32
  ts_esp0 :: u32
  ts_ss0 :: u32
  ts_rest :: "u32 list"

definition IF :: u32 where "IF = 0x200"

text \<open>\<open>sti\<close> and \<open>cli\<close>\<close>

definition enableInterrupt :: "cpu \<Rightarrow> cpu" where
  "enableInterrupt c = c\<lparr>r_eflags := r_eflags c OR IF\<rparr>"

definition disableInterrupt :: "cpu \<Rightarrow> cpu" where
  "disableInterrupt c = c\<lparr>r_eflags := r_eflags c AND NOT IF\<rparr>"

text \<open>\<open>lidt\<close>, \<open>lgdt\<close> and \<open>lldt\<close>\<close>

definition saveIdt :: "u32 \<Rightarrow> u32 \<Rightarrow> cpu \<Rightarrow> cpu" where
  "saveIdt a sz c = c\<lparr>r_idt := table_register a sz\<rparr>"

definition setGdt :: "u32 \<Rightarrow> u32 \<Rightarrow> cpu \<Rightarrow> cpu" where
  "setGdt a sz c = c\<lparr>r_gdt := table_register a sz\<rparr>"

definition lLdt :: "u16 \<Rightarrow> cpu \<Rightarrow> cpu" where
  "lLdt sel c = c\<lparr>r_ldt := sel\<rparr>"

text \<open>The part of \<open>initSeg\<close> behind the table: \<open>gdt\<close> is the address of the table, of 9 descriptors of 8 bytes.\<close>

definition initSeg_cpu :: "u32 \<Rightarrow> pcbref \<Rightarrow> kernel \<Rightarrow> task_state \<Rightarrow> cpu \<Rightarrow> task_state \<times> cpu" where
  "initSeg_cpu gdt p k ts c =
     (let c = setGdt gdt (9 * 8) c;
          ts = ts\<lparr>ts_esp0 := kaddr k p + 4 * 4096 + sizeof_TrapFrame\<rparr>;
          ts = ts\<lparr>ts_ss0 := KSEL SEG_KDATA\<rparr>;
          c = c\<lparr>r_eax := KSEL SEG_TSS\<rparr>; c = c\<lparr>r_tr := ucast (r_eax c)\<rparr>;
          c = c\<lparr>r_eax := KSEL SEG_KDATA\<rparr>; c = c\<lparr>r_es := ucast (r_eax c)\<rparr>;
          c = c\<lparr>r_eax := KSEL SEG_KDATA\<rparr>; c = c\<lparr>r_ds := ucast (r_eax c)\<rparr>;
          c = c\<lparr>r_eax := KSEL SEG_KDATA\<rparr>; c = c\<lparr>r_ss := ucast (r_eax c)\<rparr>;
          c = c\<lparr>r_eax := KSEL SEG_KDATA\<rparr>; c = c\<lparr>r_fs := ucast (r_eax c)\<rparr>;
          c = c\<lparr>r_eax := KSEL SEG_KDISPLAY\<rparr>; c = c\<lparr>r_gs := ucast (r_eax c)\<rparr>
      in (ts, lLdt 0 c))"


text \<open>The end of \<open>kEntry\<close>: the idle loop on its own stack, halted until an interrupt comes.\<close>

definition idle_loop :: "kernel \<Rightarrow> cpu \<Rightarrow> cpu" where
  "idle_loop k c =
     (let c = c\<lparr>r_eax := idle_esp k\<rparr>; c = c\<lparr>r_esp := r_eax c\<rparr>
      in enableInterrupt c)"

text \<open>\<open>abort\<close> of kernel/lib/abort.c: the message, then the processor halts with interrupts off, for ever.\<close>

definition abort :: "u8 list \<Rightarrow> nat \<Rightarrow> u8 list \<Rightarrow> cpu \<Rightarrow> (u8 list \<times> cpu) exec" where
  "abort fname line out c =
     (let c = disableInterrupt c
      in bind_r (displayMessage fname line out) (\<lambda>out. Inr (out, c)))"


section \<open>The stack\<close>

definition pushl :: "u32 \<Rightarrow> cpu \<Rightarrow> cpu" where
  "pushl v c = c\<lparr>r_esp := r_esp c - 4, stk := (stk c)(r_esp c - 4 := v)\<rparr>"

definition popl :: "cpu \<Rightarrow> u32 \<times> cpu" where
  "popl c = (stk c (r_esp c), c\<lparr>r_esp := r_esp c + 4\<rparr>)"

text \<open>\<open>pushal\<close> and \<open>popal\<close>; the latter skips the word of \<open>esp\<close>.\<close>

definition pushal :: "cpu \<Rightarrow> cpu" where
  "pushal c = pushl (r_edi c) (pushl (r_esi c) (pushl (r_ebp c) (pushl (r_esp c)
     (pushl (r_ebx c) (pushl (r_edx c) (pushl (r_ecx c) (pushl (r_eax c) c)))))))"

definition popal :: "cpu \<Rightarrow> cpu" where
  "popal c =
     (let (v, c) = popl c; c = c\<lparr>r_edi := v\<rparr>;
          (v, c) = popl c; c = c\<lparr>r_esi := v\<rparr>;
          (v, c) = popl c; c = c\<lparr>r_ebp := v\<rparr>;
          (v, c) = popl c;
          (v, c) = popl c; c = c\<lparr>r_ebx := v\<rparr>;
          (v, c) = popl c; c = c\<lparr>r_edx := v\<rparr>;
          (v, c) = popl c; c = c\<lparr>r_ecx := v\<rparr>;
          (v, c) = popl c
      in c\<lparr>r_eax := v\<rparr>)"


section \<open>What the processor does\<close>

text \<open>The privilege a selector asks for, and the descriptor it names.\<close>

definition rpl :: "u16 \<Rightarrow> nat" where
  "rpl sel = unat (sel AND 3)"

definition desc_of :: "segdesc list \<Rightarrow> u16 \<Rightarrow> segdesc" where
  "desc_of gdt sel = gdt ! unat (drop_bit 3 sel)"

text \<open>
  An interrupt through gate \<open>g\<close>: to a more privileged segment the stack of the task state
  is taken and the old one is pushed first. An interrupt gate (type 0xE) clears \<open>IF\<close>; every gate clears
  TF, NT, RF and VM. \<open>err\<close> is the error code of the exceptions that have one.
\<close>

definition deliver :: "segdesc list \<Rightarrow> task_state \<Rightarrow> gate \<Rightarrow> u32 option \<Rightarrow> cpu \<Rightarrow> cpu" where
  "deliver gdt ts g err c =
     (let c1 = (if unat (dpl (desc_of gdt (segment g))) < rpl (r_cs c)
                then pushl (r_esp c) (pushl (ucast (r_ss c)) (c\<lparr>r_esp := ts_esp0 ts, r_ss := ucast (ts_ss0 ts)\<rparr>))
                else c);
          c2 = pushl (r_eip c) (pushl (ucast (r_cs c)) (pushl (r_eflags c) c1));
          c3 = (case err of None \<Rightarrow> c2 | Some e \<Rightarrow> pushl e c2)
      in c3\<lparr>r_cs := segment g, r_eip := gate_offset g,
            r_eflags := r_eflags c AND NOT (0x34100 OR (if gtype g = 0xE then IF else 0))\<rparr>)"

text \<open>
  \<open>iret\<close>: on the way to less privilege the stack is popped as well, and data segment registers whose segment is more
  privileged are emptied.
\<close>

definition keep_seg :: "segdesc list \<Rightarrow> nat \<Rightarrow> u16 \<Rightarrow> u16" where
  "keep_seg gdt cpl sel = (if unat (dpl (desc_of gdt sel)) < cpl then 0 else sel)"

definition iret :: "segdesc list \<Rightarrow> cpu \<Rightarrow> cpu" where
  "iret gdt c =
     (let (ip, c1) = popl c; (cs, c1) = popl c1; (fl, c1) = popl c1;
          c2 = c1\<lparr>r_eip := ip, r_cs := ucast cs, r_eflags := fl\<rparr>
      in if rpl (r_cs c) < rpl (ucast cs)
         then let (sp, c3) = popl c2; (s, c3) = popl c3; keep = keep_seg gdt (rpl (ucast cs))
              in c3\<lparr>r_esp := sp, r_ss := ucast s, r_ds := keep (r_ds c3), r_es := keep (r_es c3),
                   r_fs := keep (r_fs c3), r_gs := keep (r_gs c3)\<rparr>
         else c2)"


section \<open>The entry points of doIrq.S\<close>

text \<open>The vectors for which the processor pushes an error code; their stubs push none.\<close>

definition stub :: "entry_point \<Rightarrow> cpu \<Rightarrow> cpu" where
  "stub e c = (case e of
       Vec i \<Rightarrow> if i \<in> {8, 10, 11, 12, 13, 14} then pushl (word_of_nat i) c else pushl (word_of_nat i) (pushl 0 c)
     | IrqEmpty \<Rightarrow> pushl (- 1) (pushl 0 (disableInterrupt c))
     | IrqGProtectFault \<Rightarrow> pushl 0xd (pushl 0 (disableInterrupt c))
     | IrqSyscall \<Rightarrow> pushl 0x80 (pushl 0 (disableInterrupt c))
     | Irq0 \<Rightarrow> pushl 0x20 (pushl 0 (disableInterrupt c))
     | Irq1 \<Rightarrow> pushl 0x21 (pushl 0 (disableInterrupt c)))"

text \<open>\<open>asmDoIrq\<close> up to the call; the argument of \<open>irqHandle\<close> is the stack pointer.\<close>

definition asmDoIrq :: "cpu \<Rightarrow> u32 \<times> cpu" where
  "asmDoIrq c =
     (let c = pushal c;
          c = pushl (ucast (r_ds c)) c; c = pushl (ucast (r_es c)) c;
          c = pushl (ucast (r_fs c)) c; c = pushl (ucast (r_gs c)) c;
          c = c\<lparr>r_eax := (r_eax c AND 0xFFFF0000) OR 16, r_ds := 16, r_es := 16, r_fs := 16\<rparr>
      in (r_esp c, pushl (r_esp c) c))"

text \<open>The rest of \<open>asmDoIrq\<close>; \<open>stop\<close> is \<open>currentstacktop\<close>.\<close>

definition asmDoIrq_return :: "segdesc list \<Rightarrow> u32 \<Rightarrow> cpu \<Rightarrow> cpu" where
  "asmDoIrq_return gdt stop c =
     (let c = c\<lparr>r_esp := stop\<rparr>;
          (v, c) = popl c; c = c\<lparr>r_gs := ucast v\<rparr>;
          (v, c) = popl c; c = c\<lparr>r_fs := ucast v\<rparr>;
          (v, c) = popl c; c = c\<lparr>r_es := ucast v\<rparr>;
          (v, c) = popl c; c = c\<lparr>r_ds := ucast v\<rparr>;
          c = popal c;
          c = c\<lparr>r_esp := r_esp c + 4\<rparr>;
          c = c\<lparr>r_esp := r_esp c + 4\<rparr>
      in iret gdt c)"

text \<open>A whole entry: interrupt \<open>v\<close> from the running code to the call of \<open>irqHandle\<close>.\<close>

definition enter_kernel :: "gate list \<Rightarrow> segdesc list \<Rightarrow> task_state \<Rightarrow> nat \<Rightarrow> u32 option \<Rightarrow> cpu \<Rightarrow> u32 \<times> cpu" where
  "enter_kernel idt gdt ts v err c = asmDoIrq (stub (handler_of v) (deliver gdt ts (idt ! v) err c))"

text \<open>\<open>struct TrapFrame\<close> at address \<open>a\<close>.\<close>

definition frame_at :: "(u32 \<Rightarrow> u32) \<Rightarrow> u32 \<Rightarrow> trapframe" where
  "frame_at m a = \<lparr>tf_gs = m a, tf_fs = m (a + 4), tf_es = m (a + 8), tf_ds = m (a + 12),
     tf_edi = m (a + 16), tf_esi = m (a + 20), tf_ebp = m (a + 24), tf_xxx = m (a + 28),
     tf_ebx = m (a + 32), tf_edx = m (a + 36), tf_ecx = m (a + 40), tf_eax = m (a + 44),
     tf_irq = sint (m (a + 48)), tf_error = m (a + 52),
     tf_eip = m (a + 56), tf_cs = m (a + 60), tf_eflags = m (a + 64), tf_esp = m (a + 68), tf_ss = m (a + 72)\<rparr>"


section \<open>Entering a program\<close>

text \<open>\<open>enterUserSpace\<close>; an operand \<open>"a"(x)\<close> is loaded into \<open>eax\<close> first.\<close>

definition enterUserSpace :: "segdesc list \<Rightarrow> u32 \<Rightarrow> cpu \<Rightarrow> cpu" where
  "enterUserSpace gdt entry c =
     (let c = c\<lparr>r_eax := USEL SEG_UDATA1\<rparr>; c = pushl (r_eax c) c;
          c = pushl 0x300000 c;
          c = c\<lparr>r_eax := KSEL SEG_KDISPLAY\<rparr>; c = c\<lparr>r_gs := ucast (r_eax c)\<rparr>;
          c = c\<lparr>r_eax := USEL SEG_UDATA1\<rparr>; c = c\<lparr>r_fs := ucast (r_eax c)\<rparr>;
          c = c\<lparr>r_ds := ucast (r_eax c)\<rparr>;
          c = c\<lparr>r_es := ucast (r_eax c)\<rparr>;
          c = pushl 0x202 c;
          c = c\<lparr>r_eax := USEL SEG_UCODE1\<rparr>; c = pushl (r_eax c) c;
          c = c\<lparr>r_eax := entry\<rparr>; c = pushl (r_eax c) c
      in iret gdt c)"

end
