(* ===== verification/Stubprops.thy ===== *)
theory Stubprops
  imports Stubs
begin

unbundle bit_operations_syntax

text \<open>
  The properties of the way into the kernel and back.
\<close>

lemma push_off: "b + numeral m - numeral n = b + (numeral m - numeral n :: u32)"
  by (rule add_diff_eq [symmetric])

lemma pop_off: "b + numeral m + numeral n = b + (numeral m + numeral n :: u32)"
  by (rule add.assoc)

lemma ucast_u16 [simp]: "ucast (ucast (w :: u16) :: u32) = w"
  by (rule bit_word_eqI) (simp add: bit_simps)

text \<open>The words that an entry pushes, from the top of the frame down.\<close>

lemma asmDoIrq_frame:
  assumes "r_esp c = b + 48"
  shows "asmDoIrq c = (b, pushl b (c\<lparr>r_esp := b, r_eax := (r_eax c AND 0xFFFF0000) OR 16, r_ds := 16, r_es := 16, r_fs := 16,
    stk := (stk c)(b + 44 := r_eax c, b + 40 := r_ecx c, b + 36 := r_edx c, b + 32 := r_ebx c, b + 28 := b + 48,
      b + 24 := r_ebp c, b + 20 := r_esi c, b + 16 := r_edi c, b + 12 := ucast (r_ds c), b + 8 := ucast (r_es c),
      b + 4 := ucast (r_fs c), b := ucast (r_gs c))\<rparr>))"
  by (simp add: asmDoIrq_def pushal_def pushl_def assms push_off)


section \<open>The frame of an interrupt\<close>

text \<open>The vector number a stub pushes, and the exceptions with an error code.\<close>

fun stub_irq :: "entry_point \<Rightarrow> u32" where
  "stub_irq (Vec i) = word_of_nat i"
| "stub_irq IrqEmpty = - 1"
| "stub_irq IrqGProtectFault = 0xd"
| "stub_irq IrqSyscall = 0x80"
| "stub_irq Irq0 = 0x20"
| "stub_irq Irq1 = 0x21"

definition error_vector :: "nat \<Rightarrow> bool" where
  "error_vector v \<longleftrightarrow> v \<in> {8, 10, 11, 12, 13, 14}"

text \<open>The state of the running code as a frame; \<open>w\<close> is the word \<open>pushal\<close> stores for \<open>esp\<close>.\<close>

definition saved_frame :: "u32 \<Rightarrow> u32 \<Rightarrow> u32 \<Rightarrow> cpu \<Rightarrow> trapframe" where
  "saved_frame w irq err c =
     \<lparr>tf_gs = ucast (r_gs c), tf_fs = ucast (r_fs c), tf_es = ucast (r_es c), tf_ds = ucast (r_ds c),
      tf_edi = r_edi c, tf_esi = r_esi c, tf_ebp = r_ebp c, tf_xxx = w,
      tf_ebx = r_ebx c, tf_edx = r_edx c, tf_ecx = r_ecx c, tf_eax = r_eax c,
      tf_irq = sint irq, tf_error = err,
      tf_eip = r_eip c, tf_cs = ucast (r_cs c), tf_eflags = r_eflags c, tf_esp = r_esp c, tf_ss = ucast (r_ss c)\<rparr>"

text \<open>A program of the first process at a system call, with the task state that \<open>schedule\<close> set for it, and the tables.\<close>

definition example_cpu :: cpu where
  "example_cpu = \<lparr>r_eax = 13, r_ecx = 0, r_edx = 0, r_ebx = 0x200100, r_esp = 0x2FFFF0, r_ebp = 0, r_esi = 0, r_edi = 0,
     r_eip = 0x200010, r_eflags = 0x202, r_cs = 0x1B, r_ds = 0x23, r_es = 0x23, r_fs = 0x23, r_gs = 0x40, r_ss = 0x23,
     r_gdt = [], r_idt = [], r_ldt = 0, r_tr = 0x38, stk = (\<lambda>a. 0)\<rparr>"

definition example_ts :: task_state where
  "example_ts = \<lparr>ts_link = 0, ts_esp0 = tf_addr bss (Pcb 1) + 76, ts_ss0 = KSEL 2, ts_rest = replicate 22 0\<rparr>"

abbreviation "example_idt \<equiv> replicate 256 (setTrap 0 0 0)"
abbreviation "example_gdt \<equiv> replicate 9 (SEG 0 0 0 0)"

lemma example_facts:
  "length example_idt = 256" "length example_gdt = 9" "(128 :: nat) < 256" "(128 :: nat) \<noteq> 13"
  "None = (None :: u32 option) \<longleftrightarrow> \<not> error_vector 128" "r_cs example_cpu AND 3 \<noteq> 0"
  by (simp_all add: error_vector_def example_cpu_def)

text \<open>The stub after the processor's own pushes: error code and number complete the upper part of the frame.\<close>

definition quiet :: "nat \<Rightarrow> cpu \<Rightarrow> cpu" where
  "quiet v c = (if v < 15 then c else disableInterrupt c)"

lemma stub_eq:
  assumes "v \<noteq> 13"
  shows "stub (handler_of v) c =
    pushl (stub_irq (handler_of v)) (if error_vector v then c else pushl 0 (quiet v c))"
proof -
  have "handler_of v = Vec v" if "v < 15" using assms that by (simp add: handler_of_def)
  moreover have "handler_of v \<in> {IrqEmpty, IrqSyscall, Irq0, Irq1} \<and> \<not> error_vector v" if "\<not> v < 15"
    using assms that by (simp add: handler_of_def error_vector_def)
  ultimately show ?thesis using assms by (cases "v < 15") (auto simp: stub_def error_vector_def quiet_def)
qed

lemma stub_pushes:
  assumes "v \<noteq> 13" and "err = None \<longleftrightarrow> \<not> error_vector v" and "r_esp c = b + 56"
  shows "stub (handler_of v) ((case err of None \<Rightarrow> (\<lambda>c. c) | Some x \<Rightarrow> pushl x) c) = (quiet v c)\<lparr>r_esp := b + 48,
    stk := (stk c)(b + 52 := (case err of None \<Rightarrow> 0 | Some x \<Rightarrow> x), b + 48 := stub_irq (handler_of v))\<rparr>"
proof (cases "error_vector v")
  case True
  then obtain x where "err = Some x" using assms(2) by auto
  moreover have "quiet v c = c" using True by (auto simp: quiet_def error_vector_def)
  ultimately show ?thesis using True by (simp add: stub_eq [OF assms(1)] pushl_def assms(3) push_off)
next
  case False
  then show ?thesis using assms(2)
    by (simp add: stub_eq [OF assms(1)] pushl_def assms(3) push_off quiet_def disableInterrupt_def)
qed

lemma deliver_user:
  assumes "r_cs c AND 3 \<noteq> 0" and "dpl (desc_of gdt (segment g)) = 0" and "ts_esp0 ts = b + 76"
  shows "deliver gdt ts g err c = (case err of None \<Rightarrow> (\<lambda>c. c) | Some x \<Rightarrow> pushl x)
    (c\<lparr>r_esp := b + 56, r_ss := ucast (ts_ss0 ts), r_cs := segment g, r_eip := gate_offset g,
       r_eflags := r_eflags c AND NOT (0x34100 OR (if gtype g = 0xE then IF else 0)),
       stk := (stk c)(b + 72 := ucast (r_ss c), b + 68 := r_esp c, b + 64 := r_eflags c, b + 60 := ucast (r_cs c), b + 56 := r_eip c)\<rparr>)"
  by (cases err) (use assms(1) in \<open>simp_all add: deliver_def rpl_def assms(2,3) pushl_def push_off Let_def unat_gt_0\<close>)

lemma deliver_kernel:
  assumes "r_cs c AND 3 = 0" and "r_esp c = b + 68"
  shows "deliver gdt ts g err c = (case err of None \<Rightarrow> (\<lambda>c. c) | Some x \<Rightarrow> pushl x)
    (c\<lparr>r_esp := b + 56, r_cs := segment g, r_eip := gate_offset g,
       r_eflags := r_eflags c AND NOT (0x34100 OR (if gtype g = 0xE then IF else 0)),
       stk := (stk c)(b + 64 := r_eflags c, b + 60 := ucast (r_cs c), b + 56 := r_eip c)\<rparr>)"
  by (cases err) (simp_all add: deliver_def rpl_def assms pushl_def push_off Let_def)


text \<open>Reading the frame back past the argument that was pushed below it.\<close>

lemma below_frame [simp]: "(b :: u32) + numeral n = b - 4 \<longleftrightarrow> (numeral n :: u32) = - 4" "(b :: u32) \<noteq> b - 4"
proof -
  have "b - 4 = b + (- 4)" by simp
  then show "b + numeral n = b - 4 \<longleftrightarrow> (numeral n :: u32) = - 4" "b \<noteq> b - 4"
    by (simp_all only: add_left_cancel) (simp add: eq_diff_eq)
qed

text \<open>\<open>b\<close> is where the frame will begin; it lies in the 80 bytes from \<open>b - 4\<close> on, the rest of the stack stays.\<close>

lemma enter_user:
  assumes "r_cs c AND 3 \<noteq> 0" and "dpl (desc_of gdt (segment g)) = 0" and "ts_esp0 ts = b + 76"
    and "v \<noteq> 13" and "err = None \<longleftrightarrow> \<not> error_vector v"
  defines "x \<equiv> asmDoIrq (stub (handler_of v) (deliver gdt ts g err c))"
  shows "fst x = b" and "frame_at (stk (snd x)) b =
      saved_frame (b + 48) (stub_irq (handler_of v)) (case err of None \<Rightarrow> 0 | Some x \<Rightarrow> x) c"
    and "80 \<le> y - (b - 4) \<Longrightarrow> stk (snd x) y = stk c y"
    and "r_ss (snd x) = ucast (ts_ss0 ts)" and "r_cs (snd x) = segment g" and "r_ds (snd x) = 16" and "r_es (snd x) = 16"
    and "r_fs (snd x) = 16"
    and "r_eflags (snd x) = r_eflags (quiet v (c\<lparr>r_eflags := r_eflags c AND NOT (0x34100 OR (if gtype g = 0xE then IF else 0))\<rparr>))"
  unfolding x_def deliver_user [where b = b, OF assms(1-3)]
  by (subst stub_pushes [where b = b, OF assms(4,5)], simp, subst asmDoIrq_frame [where b = b], simp,
      force simp: pushl_def frame_at_def saved_frame_def quiet_def disableInterrupt_def)+

lemma enter_kernel_mode:
  fixes gdt g ts
  assumes "r_cs c AND 3 = 0" and "r_esp c = b + 68" and "v \<noteq> 13" and "err = None \<longleftrightarrow> \<not> error_vector v"
  defines "x \<equiv> asmDoIrq (stub (handler_of v) (deliver gdt ts g err c))"
  shows "fst x = b" and "frame_at (stk (snd x)) b =
      (saved_frame (b + 48) (stub_irq (handler_of v)) (case err of None \<Rightarrow> 0 | Some x \<Rightarrow> x) c)
        \<lparr>tf_esp := stk c (b + 68), tf_ss := stk c (b + 72)\<rparr>"
    and "72 \<le> y - (b - 4) \<Longrightarrow> stk (snd x) y = stk c y"
    and "r_ss (snd x) = r_ss c" and "r_cs (snd x) = segment g" and "r_ds (snd x) = 16" and "r_es (snd x) = 16"
    and "r_fs (snd x) = 16"
    and "r_eflags (snd x) = r_eflags (quiet v (c\<lparr>r_eflags := r_eflags c AND NOT (0x34100 OR (if gtype g = 0xE then IF else 0))\<rparr>))"
  unfolding x_def deliver_kernel [where b = b, OF assms(1,2)]
  by (subst stub_pushes [where b = b, OF assms(3,4)], simp, subst asmDoIrq_frame [where b = b], simp,
      force simp: pushl_def frame_at_def saved_frame_def quiet_def disableInterrupt_def assms(2))+

lemma quiet_flags:
  assumes "v < 15 \<longrightarrow> z = 0xE"
  shows "r_eflags (quiet v (c\<lparr>r_eflags := f AND NOT (0x34100 OR (if z = 0xE then IF else 0))\<rparr>)) AND IF = 0"
proof (cases "v < 15")
  case True
  then have "r_eflags (quiet v (c\<lparr>r_eflags := f AND NOT (0x34100 OR (if z = 0xE then IF else 0))\<rparr>)) AND IF
      = f AND (NOT (0x34100 OR IF) AND IF)"
    using assms by (simp add: quiet_def and.assoc)
  then show ?thesis by (simp add: IF_def)
next
  case False
  then show ?thesis by (simp add: quiet_def disableInterrupt_def and.assoc)
qed


text \<open>The gate of vector \<open>v\<close>, and the entry through it from a program and from the kernel itself.\<close>

lemma entry_gate:
  fixes addr :: "entry_point \<Rightarrow> u32"
  assumes "length idt = 256" and "length gdt = 9" and "initSeg tss gdt k0 = Inr (g, k1)" and "v < 256"
  defines "i \<equiv> initIdt addr idt ! v"
  shows "gate_offset i = addr (handler_of v)" "segment i = 8" "v < 15 \<longrightarrow> gtype i = 0xE" "dpl (desc_of g (segment i)) = 0"
  using initIdt_nth [OF assms(1,4), of addr] initSeg_entries(1) [OF assms(2,3)]
  by (simp_all add: i_def Let_def desc_of_def)

lemma entered_program:
  assumes "length idt = 256" and "length gdt = 9" and "initSeg tss gdt k0 = Inr (g, k1)" and "v < 256" and "v \<noteq> 13"
    and "err = None \<longleftrightarrow> \<not> error_vector v" and "enter_kernel (initIdt addr idt) g ts v err c = (a, c')" and "r_cs c AND 3 \<noteq> 0"
  shows "a = ts_esp0 ts - 76" "frame_at (stk c') a = saved_frame (a + 48) (stub_irq (handler_of v)) (case err of None \<Rightarrow> 0 | Some x \<Rightarrow> x) c"
    "r_ss c' = ucast (ts_ss0 ts)" "r_cs c' = 8" "r_ds c' = 16" "r_es c' = 16" "r_fs c' = 16" "r_eflags c' AND IF = 0"
    "80 \<le> y - (a - 4) \<Longrightarrow> stk c' y = stk c y"
proof -
  note i = entry_gate [OF assms(1-4), of addr]
  define b where "b = ts_esp0 ts - 76"
  have b: "ts_esp0 ts = b + 76" by (simp add: b_def)
  have x: "asmDoIrq (stub (handler_of v) (deliver g ts (initIdt addr idt ! v) err c)) = (a, c')"
    using assms(7) by (simp add: enter_kernel_def)
  note u = enter_user [OF assms(8) i(4) b assms(5,6), unfolded x fst_conv snd_conv]
  note u' = u [folded u(1)]
  from u' b_def quiet_flags [OF i(3)] i(2)
  show "a = ts_esp0 ts - 76" "frame_at (stk c') a = saved_frame (a + 48) (stub_irq (handler_of v)) (case err of None \<Rightarrow> 0 | Some x \<Rightarrow> x) c"
    "r_ss c' = ucast (ts_ss0 ts)" "r_cs c' = 8" "r_ds c' = 16" "r_es c' = 16" "r_fs c' = 16" "r_eflags c' AND IF = 0"
    "80 \<le> y - (a - 4) \<Longrightarrow> stk c' y = stk c y"
    by (simp_all only: u(1) [symmetric])
qed

lemma entered_nested:
  assumes "length idt = 256" and "length gdt = 9" and "initSeg tss gdt k0 = Inr (g, k1)" and "v < 256" and "v \<noteq> 13"
    and "err = None \<longleftrightarrow> \<not> error_vector v" and "enter_kernel (initIdt addr idt) g ts v err c = (a, c')" and "r_cs c AND 3 = 0"
  shows "r_esp c = a + 68" "frame_at (stk c') a = (saved_frame (a + 48) (stub_irq (handler_of v)) (case err of None \<Rightarrow> 0 | Some x \<Rightarrow> x) c)
      \<lparr>tf_esp := stk c (a + 68), tf_ss := stk c (a + 72)\<rparr>"
    "r_ss c' = r_ss c" "r_cs c' = 8" "r_ds c' = 16" "r_es c' = 16" "r_fs c' = 16" "r_eflags c' AND IF = 0"
    "72 \<le> y - (a - 4) \<Longrightarrow> stk c' y = stk c y"
proof -
  note i = entry_gate [OF assms(1-4), of addr]
  define b where "b = r_esp c - 68"
  have b: "r_esp c = b + 68" by (simp add: b_def)
  have x: "asmDoIrq (stub (handler_of v) (deliver g ts (initIdt addr idt ! v) err c)) = (a, c')"
    using assms(7) by (simp add: enter_kernel_def)
  note u = enter_kernel_mode [OF assms(8) b assms(5,6), where gdt = g and ts = ts and g = "initIdt addr idt ! v", unfolded x fst_conv snd_conv]
  from u b quiet_flags [OF i(3)] i(2)
  show "r_esp c = a + 68" "frame_at (stk c') a = (saved_frame (a + 48) (stub_irq (handler_of v)) (case err of None \<Rightarrow> 0 | Some x \<Rightarrow> x) c)
      \<lparr>tf_esp := stk c (a + 68), tf_ss := stk c (a + 72)\<rparr>"
    "r_ss c' = r_ss c" "r_cs c' = 8" "r_ds c' = 16" "r_es c' = 16" "r_fs c' = 16" "r_eflags c' AND IF = 0"
    "72 \<le> y - (a - 4) \<Longrightarrow> stk c' y = stk c y"
    by (simp_all only: u(1))
qed

text \<open>The state \<open>initSeg\<close> leaves: the kernel's own segments start at 0, and traps from programs switch to its stack segment.\<close>

lemma initSeg_cpu_ok:
  assumes "length gdt = 9" and "initSeg tss gdt k = Inr (g, k1)" and "pcb_ref (p_num k) = Inr p"
    and "initSeg_cpu gdt_addr p k ts c = (ts', c')"
  shows "ts_esp0 ts' = tss_esp0 k1" "ts_ss0 ts' = KSEL 2" "r_gdt c' = [71, ucast gdt_addr, ucast (drop_bit 16 gdt_addr)]" "r_ldt c' = 0"
    "\<forall>s\<in>{r_ss c', r_ds c', r_es c', r_fs c'}. seg_base (desc_of g s) = 0 \<and> seg_limit (desc_of g s) = 0xffffffff"
    "seg_base (desc_of g (r_gs c')) = 0xB8000" "seg_base (desc_of g (r_tr c')) = tss"
proof -
  have e: "tss_esp0 k1 = kaddr k p + tf_offset + sizeof_TrapFrame" using assms(2,3) by (auto simp: initSeg_def Let_def)
  have t: "seg_base (g ! 7) = tss"
    using seg_base_SEG(2) [of STS_T32A tss "sizeof_TSS - 1" DPL_KERN] by (simp add: initSeg_entries(7) [OF assms(1,2)] seg_base_def)
  show "ts_esp0 ts' = tss_esp0 k1" "ts_ss0 ts' = KSEL 2" "r_gdt c' = [71, ucast gdt_addr, ucast (drop_bit 16 gdt_addr)]" "r_ldt c' = 0"
    "\<forall>s\<in>{r_ss c', r_ds c', r_es c', r_fs c'}. seg_base (desc_of g s) = 0 \<and> seg_limit (desc_of g s) = 0xffffffff"
    "seg_base (desc_of g (r_gs c')) = 0xB8000" "seg_base (desc_of g (r_tr c')) = tss"
    using assms(4) initSeg_entries(2,8) [OF assms(1,2)] e t
    by (auto simp: initSeg_cpu_def Let_def setGdt_def lLdt_def table_register_def desc_of_def KSEL_def)
qed

text \<open>An interrupt of the idle loop, and the state after a failed assertion.\<close>

lemma idle_interrupted:
  assumes "length idt = 256" and "length gdt = 9" and "initSeg tss gdt k0 = Inr (g, k1)" and "v < 256" and "v \<noteq> 13"
    and "err = None \<longleftrightarrow> \<not> error_vector v" and "enter_kernel (initIdt addr idt) g ts v err (idle_loop k c) = (a, c')"
    and "r_cs c AND 3 = 0" and "current k = IdlePcb"
  shows "a = trap_addr k"
proof -
  have "r_cs (idle_loop k c) AND 3 = 0" "r_esp (idle_loop k c) = idle_esp k"
    using assms(8) by (simp_all add: idle_loop_def enableInterrupt_def)
  with entered_nested(1) [OF assms(1-7)] have "idle_esp k = a + 68" by simp
  then show ?thesis using assms(9) by (auto simp: idle_esp_def trap_addr_def tf_addr_def)
qed

lemma abort_halts:
  assumes "terminated fname" and "line < 2147483648" and "length (cstr fname) < 226"
  shows "\<exists>c'. abort fname line out c = Inr (out @ map of_char ''Assertion failed: '' @ cstr fname @ [58] @ dec_digits line @ [10], c')
    \<and> r_eflags c' AND IF = 0"
  by (simp add: abort_def abort_message [OF assms] disableInterrupt_def and.assoc)

text \<open>Every interrupt but the general protection fault reaches the kernel with a complete trap frame, interrupts off and the
  kernel's segments: the registers of the interrupted code lie in the fields of \<open>struct TrapFrame\<close>, with an error
  code for each vector, its own or 0. From a program the frame lies just below \<open>tss.esp0\<close>, which is \<open>current->tf\<close>; from the idle
  loop, whose stack pointer and stack segment the processor does not push, in \<open>idle.tf\<close>; from the kernel waiting for a
  key below the words that are on its stack, which stay as they are.\<close>

lemma trap_frame_built:
  assumes "length idt = 256" and "length gdt = 9" and "initSeg tss gdt k0 = Inr (g, k1)" and "v < 256" and "v \<noteq> 13"
    and "err = None \<longleftrightarrow> \<not> error_vector v" and "enter_kernel (initIdt addr idt) g ts v err c = (a, c')"
  defines "f \<equiv> saved_frame (a + 48) (stub_irq (handler_of v)) (case err of None \<Rightarrow> 0 | Some x \<Rightarrow> x) c"
  shows "r_eip (deliver g ts (initIdt addr idt ! v) err c) = addr (handler_of v)
    \<and> r_eflags c' AND IF = 0 \<and> r_cs c' = ucast (KSEL 1) \<and> r_ds c' = ucast (KSEL 2) \<and> r_es c' = ucast (KSEL 2) \<and> r_fs c' = ucast (KSEL 2)
    \<and> (r_cs c AND 3 \<noteq> 0 \<longrightarrow> a = ts_esp0 ts - sizeof_TrapFrame \<and> frame_at (stk c') a = f \<and> r_ss c' = ucast (ts_ss0 ts)
         \<and> (\<forall>k. current k \<noteq> IdlePcb \<longrightarrow> tss_esp0 k = ts_esp0 ts \<longrightarrow> trap_addr k = a))
    \<and> (r_cs c AND 3 = 0 \<longrightarrow> a = r_esp c - (sizeof_TrapFrame - 2 * 4) \<and> r_ss c' = r_ss c
         \<and> frame_at (stk c') a = f\<lparr>tf_esp := stk c (r_esp c), tf_ss := stk c (r_esp c + 4)\<rparr>
         \<and> (\<forall>y. 72 \<le> y - (a - 4) \<longrightarrow> stk c' y = stk c y)
         \<and> (\<forall>k. current k = IdlePcb \<longrightarrow> r_esp c = idle_esp k \<longrightarrow> trap_addr k = a))"
proof -
  note i = entry_gate [OF assms(1-4), of addr]
  have p: "r_eip (deliver g ts (initIdt addr idt ! v) err c) = addr (handler_of v)"
    by (cases err) (simp_all add: deliver_def Let_def pushl_def i(1))
  have k: "ucast (KSEL 1) = (8 :: u16)" "ucast (KSEL 2) = (16 :: u16)" by (simp_all add: KSEL_def)
  show ?thesis
  proof (cases "r_cs c AND 3 = 0")
    case True
    note e = entered_nested [OF assms(1-7) True]
    have "\<forall>k. current k = IdlePcb \<longrightarrow> r_esp c = idle_esp k \<longrightarrow> trap_addr k = a"
      using e(1) by (auto simp: idle_esp_def trap_addr_def tf_addr_def)
    moreover have "\<forall>y. 72 \<le> y - (a - 4) \<longrightarrow> stk c' y = stk c y" using e(9) by blast
    moreover have "frame_at (stk c') a = f\<lparr>tf_esp := stk c (r_esp c), tf_ss := stk c (r_esp c + 4)\<rparr>"
      using e(1,2) by (simp add: f_def pop_off)
    ultimately show ?thesis using True p e(3-8) unfolding k by (simp add: e(1))
  next
    case False
    note e = entered_program [OF assms(1-7) False]
    show ?thesis using False p e by (simp add: k f_def trap_addr_def)
  qed
qed


lemma trap_frame_built_witness:
  "\<exists>g k1 a c'. initSeg 0x120000 example_gdt bss = Inr (g, k1)
    \<and> enter_kernel (initIdt (\<lambda>e. 0x100000) example_idt) g example_ts 128 None example_cpu = (a, c')
    \<and> a = tf_addr bss (Pcb 1) \<and> tf_eip (frame_at (stk c') a) = 0x200010 \<and> tf_irq (frame_at (stk c') a) = 0x80"
proof -
  obtain g k1 where i: "initSeg 0x120000 example_gdt bss = Inr (g, k1)" using initSeg_bss by blast
  obtain a c' where e: "enter_kernel (initIdt (\<lambda>e. 0x100000) example_idt) g example_ts 128 None example_cpu = (a, c')"
    by (rule prod.exhaust)
  have "a = ts_esp0 example_ts - 76 \<and> frame_at (stk c') a = saved_frame (a + 48) (stub_irq (handler_of 128)) 0 example_cpu"
    using trap_frame_built [OF example_facts(1,2) i example_facts(3-5) e] example_facts(6) unfolding option.case(1) by blast
  then have "a = tf_addr bss (Pcb 1) \<and> tf_eip (frame_at (stk c') a) = 0x200010 \<and> tf_irq (frame_at (stk c') a) = 0x80"
    by (elim conjE, intro conjI) (simp add: example_ts_def, simp_all only:, simp_all add: saved_frame_def handler_of_def example_cpu_def)
  then show ?thesis using i e by blast
qed


section \<open>The way back\<close>

lemma popal_eq: "popal c = c\<lparr>r_edi := stk c (r_esp c), r_esi := stk c (r_esp c + 4), r_ebp := stk c (r_esp c + 8),
    r_ebx := stk c (r_esp c + 16), r_edx := stk c (r_esp c + 20), r_ecx := stk c (r_esp c + 24), r_eax := stk c (r_esp c + 28),
    r_esp := r_esp c + 32\<rparr>"
  by (simp add: popal_def popl_def Let_def pop_off)

lemma before_iret: "asmDoIrq_return gdt a c = iret gdt (c\<lparr>r_gs := ucast (stk c a), r_fs := ucast (stk c (a + 4)),
    r_es := ucast (stk c (a + 8)), r_ds := ucast (stk c (a + 12)), r_edi := stk c (a + 16), r_esi := stk c (a + 20),
    r_ebp := stk c (a + 24), r_ebx := stk c (a + 32), r_edx := stk c (a + 36), r_ecx := stk c (a + 40), r_eax := stk c (a + 44),
    r_esp := a + 56\<rparr>)"
  by (simp add: asmDoIrq_return_def popl_def popal_eq Let_def pop_off)

lemma iret_same:
  assumes "rpl (ucast (stk c (r_esp c + 4))) \<le> rpl (r_cs c)"
  shows "iret gdt c = c\<lparr>r_eip := stk c (r_esp c), r_cs := ucast (stk c (r_esp c + 4)), r_eflags := stk c (r_esp c + 8), r_esp := r_esp c + 12\<rparr>"
  using assms by (simp add: iret_def popl_def Let_def pop_off not_less)

lemma iret_outer:
  assumes "rpl (r_cs c) < rpl cs" and "cs = ucast (stk c (r_esp c + 4))"
    and "\<forall>s\<in>{r_ds c, r_es c, r_fs c, r_gs c}. rpl cs \<le> unat (dpl (desc_of gdt s))"
  shows "iret gdt c = c\<lparr>r_eip := stk c (r_esp c), r_cs := cs, r_eflags := stk c (r_esp c + 8), r_esp := stk c (r_esp c + 12),
    r_ss := ucast (stk c (r_esp c + 16))\<rparr>"
  using assms(1,3) unfolding assms(2) by (simp add: iret_def popl_def Let_def pop_off keep_seg_def not_less)

text \<open>What a program finds when the kernel returns to the frame \<open>f\<close>.\<close>

definition load_frame :: "trapframe \<Rightarrow> cpu \<Rightarrow> cpu" where
  "load_frame f c = c\<lparr>r_eax := tf_eax f, r_ecx := tf_ecx f, r_edx := tf_edx f, r_ebx := tf_ebx f, r_ebp := tf_ebp f,
     r_esi := tf_esi f, r_edi := tf_edi f, r_eip := tf_eip f, r_cs := ucast (tf_cs f), r_eflags := tf_eflags f,
     r_ds := ucast (tf_ds f), r_es := ucast (tf_es f), r_fs := ucast (tf_fs f), r_gs := ucast (tf_gs f)\<rparr>"

definition segs_open :: "segdesc list \<Rightarrow> u16 \<Rightarrow> cpu \<Rightarrow> bool" where
  "segs_open gdt cs c \<longleftrightarrow> (\<forall>s\<in>{r_ds c, r_es c, r_fs c, r_gs c}. rpl cs \<le> unat (dpl (desc_of gdt s)))"

lemma return_user:
  assumes "r_cs c AND 3 = 0" and "frame_at (stk c) a = f" and "(ucast (tf_cs f) :: u16) AND 3 \<noteq> 0"
    and "segs_open gdt (ucast (tf_cs f)) (load_frame f c)"
  shows "asmDoIrq_return gdt a c = (load_frame f c)\<lparr>r_esp := tf_esp f, r_ss := ucast (tf_ss f)\<rparr>"
proof -
  have "rpl (r_cs c) < rpl (ucast (tf_cs f))" using assms(1,3) by (simp add: rpl_def unat_gt_0)
  then show ?thesis using assms(4) unfolding before_iret segs_open_def load_frame_def assms(2) [symmetric] frame_at_def trapframe.simps
    by (subst iret_outer [OF _ refl]) (simp_all add: pop_off)
qed

lemma return_kernel:
  assumes "r_cs c AND 3 = 0" and "frame_at (stk c) a = f" and "(ucast (tf_cs f) :: u16) AND 3 = 0"
  shows "asmDoIrq_return gdt a c = (load_frame f c)\<lparr>r_esp := a + 68\<rparr>"
proof -
  have "rpl (ucast (tf_cs f)) \<le> rpl (r_cs c)" using assms(3) by (simp add: rpl_def)
  then show ?thesis unfolding before_iret load_frame_def assms(2) [symmetric] frame_at_def trapframe.simps
    by (subst iret_same) (simp_all add: pop_off)
qed


text \<open>C12: the way back is the inverse of the way in: when the kernel returns through the frame of an interrupt, in which it has changed at
  most the result in \<open>eax\<close>, every register of the interrupted code is as it was, its stack pointer and flags included. A
  program needs data segments open to its own privilege for this, as those of \<open>initSeg\<close> are; otherwise \<open>iret\<close> would empty
  the register.\<close>

theorem interrupt_returns:
  assumes "length idt = 256" and "length gdt = 9" and "initSeg tss gdt k0 = Inr (g, k1)" and "v < 256" and "v \<noteq> 13"
    and "err = None \<longleftrightarrow> \<not> error_vector v" and "enter_kernel (initIdt addr idt) g ts v err c = (a, c')"
    and "r_cs c AND 3 \<noteq> 0 \<Longrightarrow> segs_open g (r_cs c) c"
    and "r_cs c1 = r_cs c'" and "r_ss c1 = r_ss c'" and "frame_at (stk c1) a = (frame_at (stk c') a)\<lparr>tf_eax := r\<rparr>"
  shows "asmDoIrq_return g a c1 =
    c\<lparr>r_eax := r, r_gdt := r_gdt c1, r_idt := r_idt c1, r_ldt := r_ldt c1, r_tr := r_tr c1, stk := stk c1\<rparr>"
proof (cases "r_cs c AND 3 = 0")
  case True
  note e = entered_nested [OF assms(1-7) True]
  have k: "r_cs c1 AND 3 = 0" using e(4) assms(9) by simp
  have "asmDoIrq_return g a c1 = (load_frame (frame_at (stk c1) a) c1)\<lparr>r_esp := a + 68\<rparr>"
    by (rule return_kernel [OF k refl]) (simp add: assms(11) e(2) saved_frame_def True)
  then show ?thesis unfolding assms(11) e(2) saved_frame_def load_frame_def using e(1,3) assms(10) by simp
next
  case False
  note e = entered_program [OF assms(1-7) False]
  have k: "r_cs c1 AND 3 = 0" using e(4) assms(9) by simp
  have "asmDoIrq_return g a c1 = (load_frame (frame_at (stk c1) a) c1)
      \<lparr>r_esp := tf_esp (frame_at (stk c1) a), r_ss := ucast (tf_ss (frame_at (stk c1) a))\<rparr>"
    by (rule return_user [OF k refl])
      (use False assms(8) in \<open>simp_all add: assms(11) e(2) saved_frame_def load_frame_def segs_open_def\<close>)
  then show ?thesis unfolding assms(11) e(2) saved_frame_def load_frame_def by simp
qed


theorem interrupt_returns_witness:
  "\<exists>g k1 a c'. initSeg 0x120000 example_gdt bss = Inr (g, k1)
    \<and> enter_kernel (initIdt (\<lambda>e. 0x100000) example_idt) g example_ts 128 None example_cpu = (a, c')
    \<and> r_eip (asmDoIrq_return g a (c'\<lparr>stk := (stk c')(a + 44 := 7)\<rparr>)) = 0x200010
    \<and> r_eax (asmDoIrq_return g a (c'\<lparr>stk := (stk c')(a + 44 := 7)\<rparr>)) = 7"
proof -
  obtain g k1 where i: "initSeg 0x120000 example_gdt bss = Inr (g, k1)" using initSeg_bss by blast
  obtain a c' where e: "enter_kernel (initIdt (\<lambda>e. 0x100000) example_idt) g example_ts 128 None example_cpu = (a, c')"
    by (rule prod.exhaust)
  have o: "segs_open g (r_cs example_cpu) example_cpu"
    using initSeg_entries(4,8) [OF example_facts(2) i] by (simp add: segs_open_def example_cpu_def rpl_def desc_of_def)
  have f: "frame_at (stk (c'\<lparr>stk := (stk c')(a + 44 := 7)\<rparr>)) a = (frame_at (stk c') a)\<lparr>tf_eax := 7\<rparr>"
    by (simp add: frame_at_def)
  have "asmDoIrq_return g a (c'\<lparr>stk := (stk c')(a + 44 := 7)\<rparr>) = example_cpu\<lparr>r_eax := 7, r_gdt := r_gdt c', r_idt := r_idt c',
      r_ldt := r_ldt c', r_tr := r_tr c', stk := (stk c')(a + 44 := 7)\<rparr>"
    using interrupt_returns [OF example_facts(1,2) i example_facts(3-5) e o _ _ f] by simp
  then show ?thesis using i e by (simp add: example_cpu_def)
qed


section \<open>Programs begin\<close>

text \<open>The segments of a program can be kept at its privilege.\<close>

lemma program_segs:
  assumes "length gdt = 9" and "initSeg tss gdt k0 = Inr (g, k1)" and "f = tf (first_pcb n entry b) \<or> f = child_tf t"
  shows "segs_open g (ucast (tf_cs f)) (load_frame f c)" "(ucast (tf_cs f) :: u16) AND 3 = 3"
  using assms(3) initSeg_entries(4,6,8) [OF assms(1,2)]
  by (auto simp: segs_open_def load_frame_def first_pcb_def child_tf_def USEL_def KSEL_def desc_of_def rpl_def)

lemma enterUserSpace_eq:
  assumes "r_esp c = b + 20" and "r_cs c AND 3 = 0" and "unat (dpl (g ! 4)) = 3" and "unat (dpl (g ! 8)) = 3"
  shows "enterUserSpace g entry c = c\<lparr>r_eax := entry, r_eip := entry, r_cs := 0x1B, r_eflags := 0x202, r_esp := 0x300000, r_ss := 0x23,
    r_ds := 0x23, r_es := 0x23, r_fs := 0x23, r_gs := 0x40,
    stk := (stk c)(b + 16 := 0x23, b + 12 := 0x300000, b + 8 := 0x202, b + 4 := 0x1B, b := entry)\<rparr>"
proof -
  have "enterUserSpace g entry c = iret g (c\<lparr>r_eax := entry, r_esp := b, r_ds := 0x23, r_es := 0x23, r_fs := 0x23, r_gs := 0x40,
      stk := (stk c)(b + 16 := 0x23, b + 12 := 0x300000, b + 8 := 0x202, b + 4 := 0x1B, b := entry)\<rparr>)"
    unfolding enterUserSpace_def Let_def
    by (intro arg_cong [of _ _ "iret g"] cpu.equality) (simp_all add: pushl_def assms(1) push_off USEL_def KSEL_def)
  then show ?thesis
    by (simp only:) (subst iret_outer [where cs = "0x1B"], simp_all add: assms(2-4) rpl_def desc_of_def)
qed

text \<open>\<open>enterUserSpace\<close> and the return to a process that \<open>preparePCB\<close> set up are two ways to the same state: the
  entry point with the stack at 0x300000, interrupts on, and the segments of the first program at privilege 3, the display segment
  included, which the processor does not empty. Neither leaves anything on the kernel's stack.\<close>

lemma enter_user_space_correct:
  assumes "length gdt = 9" and "initSeg tss gdt k0 = Inr (g, k1)" and "r_cs c AND 3 = 0" and "r_cs c' AND 3 = 0"
    and "frame_at (stk c') a = tf (first_pcb n entry b)"
  defines "p \<equiv> (\<lambda>c. (r_eip c, r_esp c, r_eflags c, [r_cs c, r_ss c, r_ds c, r_es c, r_fs c, r_gs c]))"
  shows "p (enterUserSpace g entry c) = p (asmDoIrq_return g a c')
    \<and> p (enterUserSpace g entry c) = (entry, 0x300000, 0x202, map ucast [USEL 3, USEL 4, USEL 4, USEL 4, USEL 4, KSEL 8])
    \<and> rpl (r_cs (enterUserSpace g entry c)) = 3 \<and> r_eflags (enterUserSpace g entry c) AND IF \<noteq> 0"
proof -
  note s = program_segs [OF assms(1,2) disjI1 [OF refl]]
  have r: "asmDoIrq_return g a c' = (load_frame (tf (first_pcb n entry b)) c')
      \<lparr>r_esp := tf_esp (tf (first_pcb n entry b)), r_ss := ucast (tf_ss (tf (first_pcb n entry b)))\<rparr>"
    by (rule return_user [OF assms(4,5)]) (simp_all add: s)
  have d: "unat (dpl (g ! 4)) = 3" "unat (dpl (g ! 8)) = 3" using initSeg_entries(4,8) [OF assms(1,2)] by simp_all
  have b: "r_esp c = r_esp c - 20 + 20" by simp
  have e: "p (enterUserSpace g entry c) = (entry, 0x300000, 0x202, [0x1B, 0x23, 0x23, 0x23, 0x23, 0x40])"
    unfolding enterUserSpace_eq [OF b assms(3) d] by (simp add: p_def)
  then have "r_cs (enterUserSpace g entry c) = 0x1B" "r_eflags (enterUserSpace g entry c) = 0x202" by (simp_all add: p_def)
  then show ?thesis unfolding e by (simp add: r p_def load_frame_def first_pcb_def USEL_def KSEL_def rpl_def IF_def)
qed


lemma enter_user_space_correct_witness:
  "\<exists>g k1. initSeg 0x120000 example_gdt bss = Inr (g, k1)
    \<and> r_eip (enterUserSpace g 0x200000 (example_cpu\<lparr>r_cs := 8\<rparr>)) = 0x200000 \<and> r_cs (enterUserSpace g 0x200000 (example_cpu\<lparr>r_cs := 8\<rparr>)) = 0x1B"
proof -
  obtain g k1 where i: "initSeg 0x120000 example_gdt bss = Inr (g, k1)" using initSeg_bss by blast
  define f where "f = tf (first_pcb 1 0x200000 (pcbs bss (Pcb 1)))"
  define c' where "c' = example_cpu\<lparr>r_cs := 8, stk := (\<lambda>a. 0)(56 := tf_eip f, 60 := tf_cs f, 64 := tf_eflags f, 68 := tf_esp f, 72 := tf_ss f,
    12 := tf_ds f, 8 := tf_es f, 4 := tf_fs f, 0 := tf_gs f)\<rparr>"
  have f: "frame_at (stk c') 0 = tf (first_pcb 1 0x200000 (pcbs bss (Pcb 1)))"
    unfolding f_def [symmetric] by (simp add: frame_at_def c'_def) (simp add: f_def first_pcb_def bss_def zero_pcb_def zero_tf_def)
  have c: "r_cs (example_cpu\<lparr>r_cs := 8\<rparr>) AND 3 = 0" "r_cs c' AND 3 = 0" by (simp_all add: c'_def)
  from enter_user_space_correct [OF example_facts(2) i c f] i show ?thesis by (auto simp: USEL_def)
qed


section \<open>The general protection fault\<close>

text \<open>The entry point of the general protection fault pushes an error code although the processor has pushed one, so
  the frame begins 4 bytes below \<open>current->tf\<close> and its upper fields are shifted: \<open>eip\<close> holds the error code, \<open>cs\<close> the
  address of the faulting instruction, \<open>esp\<close> the flags. \<open>GProtectFaultHandle\<close> stops the machine, as it means to, but at
  its first assertion, on the place of the frame.\<close>

lemma gp_fault_frame_shifted:
  assumes "length idt = 256" and "length gdt = 9" and "initSeg tss gdt k0 = Inr (g, k1)" and "r_cs c AND 3 \<noteq> 0"
    and "enter_kernel (initIdt addr idt) g ts 13 (Some e) c = (a, c')" and "ts_esp0 ts = tf_addr k (current k) + sizeof_TrapFrame"
  shows "a = tf_addr k (current k) - 4 \<and> tf_irq (frame_at (stk c') a) = 0xd \<and> tf_error (frame_at (stk c') a) = 0
    \<and> tf_eip (frame_at (stk c') a) = e \<and> tf_cs (frame_at (stk c') a) = r_eip c
    \<and> tf_eflags (frame_at (stk c') a) = ucast (r_cs c) \<and> tf_esp (frame_at (stk c') a) = r_eflags c
    \<and> tf_ss (frame_at (stk c') a) = r_esp c
    \<and> irqHandle a (tf_irq (frame_at (stk c') a)) port es k = Inl (AssertFail ''irqHandle.c'' 298)"
proof -
  have l: "(13 :: nat) < 256" by simp
  note i = entry_gate [OF assms(1-3) l, of addr]
  define b where "b = ts_esp0 ts - 80"
  have b: "ts_esp0 ts = b + 4 + 76" by (simp add: b_def)
  define c0 where "c0 = c\<lparr>r_esp := b + 60, r_ss := ucast (ts_ss0 ts), r_cs := segment (initIdt addr idt ! 13),
    r_eip := gate_offset (initIdt addr idt ! 13),
    r_eflags := r_eflags c AND NOT (0x34100 OR (if gtype (initIdt addr idt ! 13) = 0xE then IF else 0)),
    stk := (stk c)(b + 76 := ucast (r_ss c), b + 72 := r_esp c, b + 68 := r_eflags c, b + 64 := ucast (r_cs c), b + 60 := r_eip c)\<rparr>"
  have "stub (handler_of 13) (deliver g ts (initIdt addr idt ! 13) (Some e) c) = pushl 0xd (pushl 0 (disableInterrupt (pushl e c0)))"
    unfolding deliver_user [OF assms(4) i(4) b] by (simp add: handler_of_def stub_def add.assoc c0_def)
  then have x: "asmDoIrq (pushl 0xd (pushl 0 (disableInterrupt (pushl e c0)))) = (a, c')"
    using assms(5) by (simp add: enter_kernel_def)
  have t: "b = a \<and> tf_irq (frame_at (stk c') a) = 0xd \<and> tf_error (frame_at (stk c') a) = 0
    \<and> tf_eip (frame_at (stk c') a) = e \<and> tf_cs (frame_at (stk c') a) = r_eip c
    \<and> tf_eflags (frame_at (stk c') a) = ucast (r_cs c) \<and> tf_esp (frame_at (stk c') a) = r_eflags c
    \<and> tf_ss (frame_at (stk c') a) = r_esp c"
    using x by (subst (asm) asmDoIrq_frame [where b = b])
      (simp_all add: c0_def pushl_def push_off disableInterrupt_def frame_at_def, auto)
  moreover have "b = tf_addr k (current k) - 4" using assms(6) by (simp add: b_def)
  moreover from this have "tf_addr k (current k) \<noteq> b" by simp
  ultimately show ?thesis by (simp add: irqHandle_def GProtectFaultHandle_def require_def)
qed

lemma gp_fault_frame_shifted_witness:
  "\<exists>g k1 a c'. initSeg 0x120000 example_gdt bss = Inr (g, k1)
    \<and> enter_kernel (initIdt (\<lambda>e. 0x100000) example_idt) g example_ts 13 (Some 0x40) example_cpu = (a, c')
    \<and> irqHandle a 0xd 0 [] (bss\<lparr>current := Pcb 1\<rparr>) = Inl (AssertFail ''irqHandle.c'' 298)"
proof -
  obtain g k1 where i: "initSeg 0x120000 example_gdt bss = Inr (g, k1)" using initSeg_bss by blast
  obtain a c' where e: "enter_kernel (initIdt (\<lambda>e. 0x100000) example_idt) g example_ts 13 (Some 0x40) example_cpu = (a, c')"
    by (rule prod.exhaust)
  have t: "ts_esp0 example_ts = tf_addr (bss\<lparr>current := Pcb 1\<rparr>) (current (bss\<lparr>current := Pcb 1\<rparr>)) + sizeof_TrapFrame"
    by (simp add: example_ts_def tf_addr_def)
  from gp_fault_frame_shifted [OF example_facts(1,2) i example_facts(6) e t, of 0 "[]"] i e show ?thesis by auto
qed

end
