(* ===== verification/Bootsector.thy ===== *)
theory Bootsector
  imports Stubs
begin

unbundle bit_operations_syntax

text \<open>
  The first code of the boot sector, bootloader/start.S: from real mode into protected mode with a first table of segments, up to
  the jump to \<open>bootMain\<close>. The lemmas say that the addresses of \<open>bootMain\<close> are physical ones and that the kernel keeps
  running while \<open>initSeg\<close> replaces the table.
\<close>

section \<open>The table\<close>

text \<open>An entry as the assembler lays it out: \<open>.word lim, base\<close> and \<open>.byte base, access, flags, base\<close>.\<close>

definition desc_bytes :: "u16 \<Rightarrow> u16 \<Rightarrow> u8 \<Rightarrow> u8 \<Rightarrow> u8 \<Rightarrow> u8 \<Rightarrow> segdesc" where
  "desc_bytes l b b2 access flags b3 =
     \<lparr>lim_15_0 = l, base_15_0 = b, base_23_16 = b2, stype = ucast access, sflag = ucast (drop_bit 4 access),
      dpl = ucast (drop_bit 5 access), pflag = ucast (drop_bit 7 access), lim_19_16 = ucast flags,
      avl = ucast (drop_bit 4 flags), rsv1 = ucast (drop_bit 5 flags), db = ucast (drop_bit 6 flags), gran = ucast (drop_bit 7 flags),
      base_31_24 = b3\<rparr>"

definition start_gdt :: "segdesc list" where
  "start_gdt =
     [desc_bytes 0 0 0 0 0 0,
      desc_bytes 0xffff 0 0 0x9a 0xcf 0,
      desc_bytes 0xffff 0 0 0x92 0xcf 0,
      desc_bytes 0xffff 0x8000 0x0b 0x92 0xcf 0]"


section \<open>The code\<close>

text \<open>
  The processor with \<open>cr0\<close> and port 0x92, whose bit 1 opens the address line 20. \<open>gdt\<close>, \<open>start32_addr\<close> and \<open>bootMain_addr\<close> are addresses
  from the linker; \<open>lgdt\<close> takes 24 bits of its address in real mode, which is all a boot sector needs; a write to \<open>ax\<close> or \<open>al\<close> keeps the rest of \<open>eax\<close>.
\<close>

type_synonym boot_state = "cpu \<times> u32 \<times> u8"

definition set_ax :: "u32 \<Rightarrow> cpu \<Rightarrow> cpu" where
  "set_ax v c = c\<lparr>r_eax := (r_eax c AND 0xFFFF0000) OR v\<rparr>"

definition set_al :: "u32 \<Rightarrow> cpu \<Rightarrow> cpu" where
  "set_al v c = c\<lparr>r_eax := (r_eax c AND 0xFFFFFF00) OR v\<rparr>"

definition start :: "u32 \<Rightarrow> u32 \<Rightarrow> boot_state \<Rightarrow> boot_state" where
  "start gdt start32_addr x =
     (let (c, cr0, p92) = x;
          c = disableInterrupt c;
          c = set_ax 0 c;
          c = c\<lparr>r_ds := ucast (r_eax c)\<rparr>; c = c\<lparr>r_es := ucast (r_eax c)\<rparr>; c = c\<lparr>r_ss := ucast (r_eax c)\<rparr>;
          c = set_al (ucast p92) c;
          c = set_al (ucast ((ucast (r_eax c) :: u8) OR 2)) c;
          p92 = ucast (r_eax c);
          c = setGdt gdt 32 c;
          c = c\<lparr>r_eax := cr0\<rparr>;
          c = set_al (ucast ((ucast (r_eax c) :: u8) OR 1)) c;
          cr0 = r_eax c
      in (c\<lparr>r_cs := 8, r_eip := start32_addr\<rparr>, cr0, p92))"

definition start32 :: "u32 \<Rightarrow> cpu \<Rightarrow> cpu" where
  "start32 bootMain_addr c =
     (let c = set_ax 0x10 c;
          c = c\<lparr>r_ds := ucast (r_eax c)\<rparr>; c = c\<lparr>r_es := ucast (r_eax c)\<rparr>; c = c\<lparr>r_ss := ucast (r_eax c)\<rparr>;
          c = c\<lparr>r_fs := ucast (r_eax c)\<rparr>;
          c = set_ax 0x18 c;
          c = c\<lparr>r_gs := ucast (r_eax c)\<rparr>;
          c = c\<lparr>r_esp := 0x8000\<rparr>
      in c\<lparr>r_eip := bootMain_addr\<rparr>)"


section \<open>What bootMain finds\<close>

lemma start_gdt_entries:
  "seg_base (start_gdt ! 1) = 0" "seg_limit (start_gdt ! 1) = 0xffffffff" "stype (start_gdt ! 1) = 0xa" "dpl (start_gdt ! 1) = 0"
  "seg_base (start_gdt ! 2) = 0" "seg_limit (start_gdt ! 2) = 0xffffffff" "stype (start_gdt ! 2) = 0x2" "dpl (start_gdt ! 2) = 0"
  "seg_base (start_gdt ! 3) = 0xB8000" "seg_limit (start_gdt ! 3) = 0xffffffff" "dpl (start_gdt ! 3) = 0"
  by (simp_all add: start_gdt_def desc_bytes_def seg_base_def seg_limit_def)

lemma ax_seg: "(ucast ((w AND 0xFFFF0000) OR v :: u32) :: u16) = ucast v"
proof (rule bit_word_eqI)
  have m: "(0xFFFF0000 :: u32) = push_bit 16 (mask 16)" by (simp add: mask_eq_exp_minus_1)
  fix n assume "n < LENGTH(16)"
  then show "bit (ucast ((w AND 0xFFFF0000) OR v) :: u16) n = bit (ucast v :: u16) n"
    unfolding m by (auto simp: bit_simps)
qed

lemma al_bit: "bit (((w AND 0xFFFFFF00) OR ucast (x OR 1 :: u8)) :: u32) 0"
  by (simp add: bit_simps)

lemma a20_bit: "bit (ucast (w OR ucast (x OR 2 :: u8) :: u32) :: u8) 1"
proof -
  have "bit (2 :: u8) (Suc 0)" by simp
  then show ?thesis by (simp add: bit_simps)
qed

text \<open>\<open>bootMain\<close> runs in protected mode with interrupts off, on a stack below 0x8000, where it reads the headers, and with
  all of memory in its segments.\<close>

lemma boot_sector_ok:
  assumes "start gdt a (c, cr0, p92) = (c1, cr0', p92')" and "start32 b c1 = c2"
  shows "bit cr0' 0" "bit p92' 1" "r_eflags c2 AND IF = 0" "r_eip c2 = b" "r_esp c2 = 0x8000" "r_gdt c2 = [31, ucast gdt, ucast (drop_bit 16 gdt)]"
    "r_cs c2 = 8" "r_ds c2 = 0x10" "r_es c2 = 0x10" "r_ss c2 = 0x10" "r_fs c2 = 0x10" "r_gs c2 = 0x18"
    "\<forall>s\<in>{r_cs c2, r_ds c2, r_es c2, r_ss c2, r_fs c2}. linear start_gdt (ucast s) x = x"
    "linear start_gdt (ucast (r_gs c2)) x = 0xB8000 + x"
  using assms(1) unfolding assms(2) [symmetric]
  by (auto simp: start_def start32_def Let_def set_ax_def set_al_def setGdt_def table_register_def disableInterrupt_def
      and.assoc ax_seg al_bit a20_bit [simplified] linear_def start_gdt_entries [simplified])

text \<open>The selectors of \<open>cs\<close>, \<open>ds\<close>, \<open>es\<close>, \<open>ss\<close> and \<open>fs\<close> mean the same memory in the table of \<open>initSeg\<close>; the one of \<open>gs\<close> does not, and \<open>initSeg\<close>
  reloads it.\<close>

lemma tables_agree:
  assumes "length gdt = 9" and "initSeg tss gdt k0 = Inr (g, k1)" and "s = 8 \<or> s = 0x10"
  shows "linear g s x = linear start_gdt s x" "linear g 0x40 x = linear start_gdt 0x18 x" "linear g 0x18 x = x"
  using assms(3) initSeg_entries(1-3,8) [OF assms(1,2)] by (auto simp: linear_def start_gdt_entries [simplified])

end
