(* ===== verification/Machine.thy ===== *)
theory Machine
  imports Stubprops Scheduling
begin

unbundle bit_operations_syntax

text \<open>
  The kernel on the processor: the trap frames of theory Kdata are words on the stacks of the processes, and a step
  of \<open>kernel_step\<close> is what happens between two moments at which a program or the idle loop runs.
\<close>

section \<open>Stacks and process control blocks\<close>

text \<open>Every process has its trap frame at \<open>tf\<close> of its PCB; the PCBs are as far apart as their stacks are long.\<close>

definition frames_ok :: "(u32 \<Rightarrow> u32) \<Rightarrow> kernel \<Rightarrow> bool" where
  "frames_ok m k \<longleftrightarrow> (\<forall>p\<in>insert IdlePcb procs. frame_at m (tf_addr k p) = tf (pcbs k p))"

definition apart :: "kernel \<Rightarrow> bool" where
  "apart k \<longleftrightarrow> (\<forall>p\<in>insert IdlePcb procs. \<forall>q\<in>insert IdlePcb procs. p \<noteq> q \<longrightarrow> 16384 \<le> kaddr k q - kaddr k p)"

text \<open>The current process runs: a program at a lower privilege, with its stack in the task state, or the idle loop.\<close>

definition runs :: "task_state \<Rightarrow> cpu \<Rightarrow> kernel \<Rightarrow> bool" where
  "runs ts c k \<longleftrightarrow> (if current k = IdlePcb then r_cs c AND 3 = 0 \<and> r_esp c = idle_esp k
     else r_cs c AND 3 \<noteq> 0 \<and> ts_esp0 ts = tss_esp0 k)"

lemma frame_cong:
  assumes "\<And>d. d \<le> 72 \<Longrightarrow> m (a + d) = m' (a + d)"
  shows "frame_at m a = frame_at m' a"
  using assms [of 0] assms [of 4] assms [of 8] assms [of 12] assms [of 16] assms [of 20] assms [of 24] assms [of 28] assms [of 32]
    assms [of 36] assms [of 40] assms [of 44] assms [of 48] assms [of 52] assms [of 56] assms [of 60] assms [of 64] assms [of 68]
    assms [of 72]
  by (simp add: frame_at_def)

lemma far_enough:
  fixes x y d :: u32
  assumes "16384 \<le> x - y" and "16384 \<le> y - x" and "d \<le> 72"
  shows "80 \<le> x + d - (y - 4)"
proof -
  define z where "z = x - y"
  have z: "16384 \<le> z" "16384 \<le> - z" using assms by (simp_all add: z_def)
  then have "uint z \<noteq> 0" by (auto simp: word_le_def)
  then have "uint (- z) = 4294967296 - uint z"
    using zmod_zminus1_eq_if [of "uint z" 4294967296] mod_pos_pos_trivial [of "uint z" 4294967296] unsigned_less [of z, where 'a = int]
    by (simp add: uint_word_ariths)
  then have "16384 \<le> uint z" "uint z + 16384 \<le> 4294967296" using z by (simp_all add: word_le_def)
  then have "16384 \<le> unat z" "unat z + 16384 \<le> 4294967296"
    using uint_nat [of z] by linarith+
  moreover have "unat d \<le> 72" using assms(3) by (simp add: word_le_nat_alt)
  ultimately have "unat (z + (d + 4)) = unat z + (unat d + 4)" by (simp add: unat_word_ariths)
  moreover have e: "x + d - (y - 4) = z + (d + 4)" by (simp add: z_def)
  ultimately show ?thesis using \<open>16384 \<le> unat z\<close> unfolding e by (simp add: word_le_nat_alt)
qed


lemma frames_kept:
  assumes "apart k" and "p \<in> insert IdlePcb procs" and "\<And>y. 80 \<le> y - (tf_addr k p - 4) \<Longrightarrow> m' y = m y"
    and "frames_ok m k"
  shows "frames_ok m' (k\<lparr>pcbs := (pcbs k)(p := (pcbs k p)\<lparr>tf := frame_at m' (tf_addr k p)\<rparr>)\<rparr>)"
  unfolding frames_ok_def
proof (rule ballI)
  fix q assume q: "q \<in> insert IdlePcb procs"
  have t: "tf_addr (k\<lparr>pcbs := x\<rparr>) q = tf_addr k q" for x by (simp add: tf_addr_def)
  show "frame_at m' (tf_addr (k\<lparr>pcbs := (pcbs k)(p := (pcbs k p)\<lparr>tf := frame_at m' (tf_addr k p)\<rparr>)\<rparr>) q) =
      tf (pcbs (k\<lparr>pcbs := (pcbs k)(p := (pcbs k p)\<lparr>tf := frame_at m' (tf_addr k p)\<rparr>)\<rparr>) q)"
  proof (cases "q = p")
    case False
    have "16384 \<le> kaddr k q - kaddr k p" "16384 \<le> kaddr k p - kaddr k q" using assms(1,2) q False by (auto simp: apart_def)
    then have "16384 \<le> tf_addr k q - tf_addr k p" "16384 \<le> tf_addr k p - tf_addr k q" by (simp_all add: tf_addr_def)
    then have "m' (tf_addr k q + d) = m (tf_addr k q + d)" if "d \<le> 72" for d using assms(3) far_enough that by blast
    then have "frame_at m' (tf_addr k q) = frame_at m (tf_addr k q)" by (rule frame_cong)
    moreover have "frame_at m (tf_addr k q) = tf (pcbs k q)" using assms(4) q by (simp only: frames_ok_def)
    ultimately show ?thesis using False by (simp add: t)
  qed (simp add: tf_addr_def)
qed


section \<open>One interrupt, from program to program\<close>

text \<open>Where the processor goes on: with the registers of the current process; \<open>iret\<close> takes a program's stack from the frame.\<close>

definition resumed :: "segdesc list \<Rightarrow> kernel \<Rightarrow> cpu \<Rightarrow> cpu \<Rightarrow> bool" where
  "resumed g k c c' \<longleftrightarrow>
     (let f = tf (cur k); cs = ucast (tf_cs f) :: u16
      in (cs AND 3 = 0 \<longrightarrow> c' = (load_frame f c)\<lparr>r_esp := tf_addr k (current k) + 68\<rparr>)
       \<and> (cs AND 3 \<noteq> 0 \<longrightarrow> segs_open g cs (load_frame f c) \<longrightarrow> c' = (load_frame f c)\<lparr>r_esp := tf_esp f, r_ss := ucast (tf_ss f)\<rparr>))"

lemma reachable_current:
  assumes "reachable k"
  shows "current k \<in> insert IdlePcb procs" "esp_ok k" "\<not> intr_nesting k"
proof -
  obtain a where a: "kernel_inv k a" using reachable_inv [OF assms] by blast
  note p = kernel_inv_parts [OF a]
  show "current k \<in> insert IdlePcb procs" using p(1) by (auto simp: sched_rel_def placed_def)
  show "esp_ok k" "\<not> intr_nesting k" using p by simp_all
qed

lemma stacktop_current:
  assumes "irqHandle a i port es k = Inr (k', es')" and "\<not> intr_nesting k'"
  shows "currentstacktop k' = tf_addr k' (current k')"
proof -
  obtain k1 es1 where "bind_r (set_stacktop a k1) (\<lambda>k. Inr (k, es1)) = Inr (k', es')"
    using bind_r_pair [OF assms(1) [unfolded irqHandle_def]] by blast
  then show ?thesis using assms(2) unfolding set_stacktop_eq by (auto split: if_splits simp: tf_addr_def)
qed


lemma interrupt_enters:
  assumes "length idt = 256" and "length gdt = 9" and "initSeg tss gdt k0 = Inr (g, k1)" and "v < 256" and "v \<noteq> 13"
    and "err = None \<longleftrightarrow> \<not> error_vector v" and "enter_kernel (initIdt addr idt) g ts v err c = (a, c')"
    and "reachable k" and "apart k" and "frames_ok (stk c) k" and "runs ts c k"
  defines "f \<equiv> frame_at (stk c') a"
  shows "a = trap_addr k" "frames_ok (stk c') (trap f k)" "r_cs c' = 8"
    "f = saved_frame (a + 48) (stub_irq (handler_of v)) (case err of None \<Rightarrow> 0 | Some x \<Rightarrow> x) c
      \<or> r_cs c AND 3 = 0 \<and> f = (saved_frame (a + 48) (stub_irq (handler_of v)) (case err of None \<Rightarrow> 0 | Some x \<Rightarrow> x) c)
          \<lparr>tf_esp := stk c (a + 68), tf_ss := stk c (a + 72)\<rparr>"
proof -
  note r = reachable_current [OF assms(8)]
  have t: "trap_addr k = tf_addr k (current k)" by (rule trap_addr_tf [OF r(2)])
  have e: "a = trap_addr k \<and> r_cs c' = 8 \<and> (\<forall>y. 80 \<le> y - (a - 4) \<longrightarrow> stk c' y = stk c y)"
  proof (cases "r_cs c AND 3 = 0")
    case True
    note n = entered_nested [OF assms(1-7) True]
    have "current k = IdlePcb" "r_esp c = idle_esp k" using assms(11) True by (auto simp: runs_def split: if_splits)
    then have "a = trap_addr k" using n(1) by (auto simp: idle_esp_def trap_addr_def tf_addr_def)
    moreover have "stk c' y = stk c y" if "80 \<le> y - (a - 4)" for y using n(9) [of y] that by (simp add: word_le_nat_alt)
    ultimately show ?thesis using n(4) by simp
  next
    case False
    note n = entered_program [OF assms(1-7) False]
    have "current k \<noteq> IdlePcb" "ts_esp0 ts = tss_esp0 k" using assms(11) False by (auto simp: runs_def split: if_splits)
    then have "a = trap_addr k" using n(1) by (simp add: trap_addr_def)
    then show ?thesis using n(4,9) by simp
  qed
  then show "a = trap_addr k" "r_cs c' = 8" by simp_all
  show "frames_ok (stk c') (trap f k)"
    using frames_kept [OF assms(9) r(1) _ assms(10), of "stk c'"] e unfolding t trap_def upd_pcb_def f_def by simp
  show "f = saved_frame (a + 48) (stub_irq (handler_of v)) (case err of None \<Rightarrow> 0 | Some x \<Rightarrow> x) c
      \<or> r_cs c AND 3 = 0 \<and> f = (saved_frame (a + 48) (stub_irq (handler_of v)) (case err of None \<Rightarrow> 0 | Some x \<Rightarrow> x) c)
          \<lparr>tf_esp := stk c (a + 68), tf_ss := stk c (a + 72)\<rparr>"
    using entered_nested(2) [OF assms(1-7)] entered_program(2) [OF assms(1-7)] unfolding f_def by blast
qed

lemma interrupt_leaves:
  assumes "reachable k" and "sane_call f k" and "irqHandle (trap_addr k) (tf_irq f) port es (trap f k) = Inr (k', es')"
    and "r_cs c1 AND 3 = 0" and "frames_ok (stk c1) k'"
  shows "kernel_step k k'" "reachable k'" "currentstacktop k' = tf_addr k' (current k')"
    "frame_at (stk c1) (tf_addr k' (current k')) = tf (cur k')"
    "resumed g k' c1 (asmDoIrq_return g (currentstacktop k') c1)"
proof -
  show st: "kernel_step k k'" using assms(2,3) by (rule kernel_step.interrupt)
  show re: "reachable k'" by (rule reachable.step [OF assms(1) st])
  note r' = reachable_current [OF re]
  show s: "currentstacktop k' = tf_addr k' (current k')" by (rule stacktop_current [OF assms(3) r'(3)])
  show fr: "frame_at (stk c1) (tf_addr k' (current k')) = tf (cur k')" using assms(5) r'(1) by (simp only: frames_ok_def)
  show "resumed g k' c1 (asmDoIrq_return g (currentstacktop k') c1)"
    unfolding resumed_def s Let_def using return_user [OF assms(4) fr] return_kernel [OF assms(4) fr] by blast
qed


text \<open>C11: the kernel of theory Irq is what runs on the processor. While the current process runs, or the idle loop, every
  interrupt but the general protection fault stores a frame at the place \<open>trap_addr\<close> that is the registers of the process, and
  nothing else of any process: the state becomes \<open>trap f k\<close>. When \<open>irqHandle\<close> then returns with the state \<open>k'\<close>, which
  is reachable again, \<open>asmDoIrq\<close> loads the registers of whichever process is current in \<open>k'\<close>: a context switch.\<close>

theorem interrupt_cycle:
  assumes "length idt = 256" and "length gdt = 9" and "initSeg tss gdt k0 = Inr (g, k1)" and "v < 256" and "v \<noteq> 13"
    and "err = None \<longleftrightarrow> \<not> error_vector v" and "enter_kernel (initIdt addr idt) g ts v err c = (a, c')"
    and "reachable k" and "apart k" and "frames_ok (stk c) k" and "runs ts c k"
  defines "f \<equiv> frame_at (stk c') a"
  shows "a = trap_addr k \<and> frames_ok (stk c') (trap f k) \<and> tf_irq f = sint (stub_irq (handler_of v))
    \<and> tf_eip f = r_eip c \<and> tf_eax f = r_eax c \<and> tf_cs f = ucast (r_cs c)
    \<and> (\<forall>port es k' es' c1. sane_call f k \<longrightarrow> irqHandle a (tf_irq f) port es (trap f k) = Inr (k', es')
        \<longrightarrow> r_cs c1 = r_cs c' \<longrightarrow> frames_ok (stk c1) k'
        \<longrightarrow> kernel_step k k' \<and> reachable k' \<and> resumed g k' c1 (asmDoIrq_return g (currentstacktop k') c1))"
proof -
  note e = interrupt_enters [OF assms(1-11), folded f_def]
  have s: "tf_irq f = sint (stub_irq (handler_of v)) \<and> tf_eip f = r_eip c \<and> tf_eax f = r_eax c \<and> tf_cs f = ucast (r_cs c)"
    using e(4) by (auto simp: saved_frame_def)
  have "kernel_step k k' \<and> reachable k' \<and> resumed g k' c1 (asmDoIrq_return g (currentstacktop k') c1)"
    if h: "sane_call f k" "irqHandle a (tf_irq f) port es (trap f k) = Inr (k', es')" "r_cs c1 = r_cs c'" "frames_ok (stk c1) k'"
    for port es k' es' c1
  proof -
    have "r_cs c1 AND 3 = 0" using h(3) e(3) by simp
    from interrupt_leaves [OF assms(8) h(1) h(2) [unfolded e(1)] this h(4)] show ?thesis by blast
  qed
  then show ?thesis using e(1,2) s by blast
qed


text \<open>The idle loop of the kernel after the start, with the frames of its processes on their stacks, and the timer.\<close>

definition example_stacks :: "u32 \<Rightarrow> u32" where
  "example_stacks = (let b = tf_addr booted (Pcb 1); f = tf (pcbs booted (Pcb 1))
     in (\<lambda>a. 0)(b := tf_gs f, b + 4 := tf_fs f, b + 8 := tf_es f, b + 12 := tf_ds f, b + 56 := tf_eip f, b + 60 := tf_cs f,
       b + 64 := tf_eflags f, b + 68 := tf_esp f, b + 72 := tf_ss f))"

definition idle_example :: cpu where
  "idle_example = idle_loop booted (example_cpu\<lparr>r_cs := 8, stk := example_stacks\<rparr>)"

lemma procs_eq: "insert IdlePcb procs = {IdlePcb, Pcb 1, Pcb 2, Pcb 3, Pcb 4, Pcb 5, Pcb 6, Pcb 7, Pcb 8, Pcb 9}"
proof -
  have "{1..<10 :: nat} = {1, 2, 3, 4, 5, 6, 7, 8, 9}" by auto
  then show ?thesis by (simp add: procs_def)
qed

lemma booted_apart: "apart booted"
proof -
  have k: "kaddr booted = pcb_addr" using booted_ok by blast
  show ?thesis unfolding apart_def procs_eq by (simp add: k)
qed

lemma init_pcbs_tf: "init_pcbs is k = Inr k' \<Longrightarrow> tf (pcbs k' p) = tf (pcbs k p)"
proof (induction "is" arbitrary: k)
  case (Cons i "is")
  then obtain n where "init_pcbs is ((upd_pcb (Pcb i) free_pcb k)\<lparr>nxt := n\<rparr>) = Inr k'"
    by (auto simp: add_to_def bind_r_eq_Inr)
  from Cons.IH [OF this] show ?case by (simp add: free_pcb_def)
qed simp

lemma booted_tf: "tf (pcbs booted p) = (if p = Pcb 1 then zero_tf\<lparr>tf_eip := 0x200000, tf_eflags := 0x202, tf_esp := 0x300000,
    tf_cs := USEL 3, tf_ds := USEL 4, tf_es := USEL 4, tf_ss := USEL 4, tf_fs := USEL 4, tf_gs := KSEL 8\<rparr> else zero_tf)"
proof -
  obtain k1 where k1: "initPcb bss = Inr k1" "clock_ok k1 boot_sched" "p_num k1 = 1"
    using initPcb_ok [of bss] by (auto simp: bss_def)
  obtain k2 where k2: "preparePCB 0x200000 k1 = Inr k2" using preparePCB_ok [OF k1(2,3)] by blast
  have "tf (pcbs k1 p) = tf (pcbs bss p)" for p
    using k1(1) by (auto simp: initPcb_def bind_r_eq_Inr dest!: init_pcbs_tf [where p = p])
  then have "tf (pcbs k1 p) = zero_tf" for p by (simp add: bss_def zero_pcb_def)
  moreover have "booted = k2" by (simp add: booted_def k1(1) k2)
  moreover have "pcbs k2 = (pcbs k1)(Pcb 1 := first_pcb 1 0x200000 (pcbs k1 (Pcb 1)))"
    using k2 k1(3) by (auto simp: preparePCB_def bind_r_eq_Inr require_eq_Inr pcb_ref_def add_to_def delete_from_def)
  ultimately show ?thesis by (simp add: first_pcb_def)
qed

lemma booted_frames: "frames_ok example_stacks booted"
proof -
  have k: "kaddr booted = pcb_addr" using booted_ok by blast
  show ?thesis unfolding frames_ok_def procs_eq
    by (simp add: example_stacks_def tf_addr_def frame_at_def booted_tf [simplified] booted_tf k Let_def zero_tf_def)
qed

lemma timer_frames:
  assumes "frames_ok m k" and "clock_ok k a" and "\<not> intr_nesting k" and "i = 0x20" and "x = tf_addr k (current k)"
  shows "\<exists>k'. irqHandle x i port es k = Inr (k', es) \<and> frames_ok m k' \<and> clock_ok k' (spec_tick k a)
    \<and> timeCount (cur k') = (if timeCount (cur k) = 1 then 10 else timeCount (cur k) - 1)"
proof -
  obtain k1 where k1: "timerHandle x k = Inr k1" "sched_frame k k1" "clock_ok k1 (spec_tick k a)"
    "timeCount (cur k1) = (if timeCount (cur k) = 1 then 10 else timeCount (cur k) - 1)"
    using timer_step [OF assms(2,3)] assms(5) by blast
  have "\<not> intr_nesting k1" using sched_frame_fields(11) [OF k1(2)] assms(3) by simp
  then have h: "irqHandle x i port es k = Inr (k1\<lparr>currentstacktop := tf_addr k1 (current k1)\<rparr>, es)"
    using k1(1) by (simp add: irqHandle_def set_stacktop_eq assms(4))
  have t: "tf (pcbs k1 p) = tf (pcbs k p)" for p
    using k1(2) unfolding sched_frame_def by (metis pcb.select_convs(1) pcb.surjective pcb.update_convs(2-4))
  have "tf_addr k1 p = tf_addr k p" for p using sched_frame_fields(12) [OF k1(2)] by (simp add: tf_addr_def)
  then have "frames_ok m k1" using assms(1) by (simp add: frames_ok_def t)
  then have "frames_ok m (k1\<lparr>currentstacktop := tf_addr k1 (current k1)\<rparr>)" by (simp add: frames_ok_def tf_addr_def)
  moreover have "clock_ok (k1\<lparr>currentstacktop := tf_addr k1 (current k1)\<rparr>) (spec_tick k a)"
    using k1(3) by (auto simp: clock_ok_def sched_rel_def states_ok_def)
  ultimately show ?thesis using h k1(4) by fastforce
qed

theorem interrupt_cycle_witness:
  "\<exists>g k1 a c' k'. initSeg 0x120000 example_gdt bss = Inr (g, k1)
    \<and> enter_kernel (initIdt (\<lambda>e. 0x100000) example_idt) g example_ts 32 None idle_example = (a, c')
    \<and> irqHandle a 0x20 0 [] (trap (frame_at (stk c') a) booted) = Inr (k', []) \<and> reachable k'
    \<and> resumed g k' c' (asmDoIrq_return g (currentstacktop k') c')"
proof -
  obtain g k1 where i: "initSeg 0x120000 example_gdt bss = Inr (g, k1)" using initSeg_bss by blast
  obtain a c' where e: "enter_kernel (initIdt (\<lambda>e. 0x100000) example_idt) g example_ts 32 None idle_example = (a, c')"
    by (rule prod.exhaust)
  have v: "(32 :: nat) < 256" "(32 :: nat) \<noteq> 13" "None = (None :: u32 option) \<longleftrightarrow> \<not> error_vector 32"
    by (simp_all add: error_vector_def)
  have b: "clock_ok booted loaded_sched" "\<not> intr_nesting booted" using booted_ok by simp_all
  then have idle: "current booted = IdlePcb" by (simp add: clock_ok_def sched_rel_def loaded_sched_def)
  have r: "runs example_ts idle_example booted" "frames_ok (stk idle_example) booted"
    using booted_frames by (simp_all add: runs_def idle idle_example_def idle_loop_def enableInterrupt_def)
  note c = interrupt_cycle [OF example_facts(1,2) i v e booted_reachable booted_apart r(2,1)]
  let ?f = "frame_at (stk c') a"
  have a: "a = trap_addr booted" and fr: "frames_ok (stk c') (trap ?f booted)"
    and "tf_irq ?f = sint (stub_irq (handler_of 32))" using c by blast+
  then have irq: "tf_irq ?f = 0x20" by (simp add: handler_of_def)
  have at: "a = tf_addr (trap ?f booted) (current (trap ?f booted))"
    unfolding a trap_addr_tf [OF reachable_current(2) [OF booted_reachable]] by (simp add: trap_def tf_addr_def)
  have "clock_ok (trap ?f booted) loaded_sched" "\<not> intr_nesting (trap ?f booted)"
    using b by (auto simp: trap_def clock_ok_def sched_rel_def states_ok_def)
  from timer_frames [OF fr this irq at, of 0 "[]"]
  obtain k' where k': "irqHandle a (tf_irq ?f) 0 [] (trap ?f booted) = Inr (k', [])" "frames_ok (stk c') k'" by blast
  have s: "sane_call ?f booted" by (simp add: sane_call_def irq)
  from c s k' have "reachable k' \<and> resumed g k' c' (asmDoIrq_return g (currentstacktop k') c')" by blast
  then show ?thesis using i e k'(1) unfolding irq by blast
qed

end
