(* ===== verification/Contexts.thy ===== *)
theory Contexts
  imports Scheduling
begin

text \<open>
  What an interrupt does to the registers of the processes, which lie in their trap frames: those of every process but the
  running one stay as they are, the running one gets at most a result in \<open>eax\<close>, and a process that appears begins with the frame
  \<open>fork\<close> makes. Every operation of the kernel is gone through once; the scheduler's are covered by their refinement.
\<close>

section \<open>Operations that do not switch\<close>

definition regs_kept :: "kernel \<Rightarrow> kernel \<Rightarrow> bool" where
  "regs_kept k k' \<longleftrightarrow> current k' = current k \<and> kaddr k' = kaddr k
     \<and> (\<forall>p. pstate (pcbs k' p) = pstate (pcbs k p) \<and> (p \<noteq> current k \<longrightarrow> tf (pcbs k' p) = tf (pcbs k p)))
     \<and> (tf (pcbs k' (current k)))\<lparr>tf_eax := 0\<rparr> = (tf (pcbs k (current k)))\<lparr>tf_eax := 0\<rparr>"

lemma regs_kept_refl [simp]: "regs_kept k k"
  by (simp add: regs_kept_def)

lemma regs_kept_trans [trans]: "regs_kept k k' \<Longrightarrow> regs_kept k' k'' \<Longrightarrow> regs_kept k k''"
  by (simp add: regs_kept_def)

lemmas regs_simps = regs_kept_def set_entry_def set_offset_def set_eax_def set_psem_def set_sem_value_def set_sem_list_def

lemma regs_fields [simp]:
  "regs_kept k (k\<lparr>fs := f\<rparr>)" "regs_kept k (k\<lparr>fs := f, scr := s\<rparr>)" "regs_kept k (k\<lparr>scr := s\<rparr>)" "regs_kept k (k\<lparr>mem := m\<rparr>)"
  "regs_kept k (k\<lparr>currentstacktop := v\<rparr>)" "regs_kept k (k\<lparr>intr_nesting := b\<rparr>)" "regs_kept k (k\<lparr>buf_out := n\<rparr>)"
  "regs_kept k (set_entry i g k)" "regs_kept k (set_offset i n k)" "regs_kept k (set_eax v' k)" "regs_kept k (set_psem v' k)"
  "regs_kept k (set_sem_value v' n k)"
  by (simp_all add: regs_simps)

lemma ls_aux_regs: "ls_aux path k = Inr k' \<Longrightarrow> regs_kept k k'"
  by (auto simp: ls_aux_def exec_Inr_iffs)

lemma cat_aux_regs: "cat_aux path k = Inr k' \<Longrightarrow> regs_kept k k'"
  by (auto simp: cat_aux_def exec_Inr_iffs)

lemma remove_aux_regs: "remove_aux path k = Inr k' \<Longrightarrow> regs_kept k k'"
  by (auto simp: remove_aux_def exec_Inr_iffs regs_simps)

lemma lseek_aux_regs: "lseek_aux fd off w k = Inr k' \<Longrightarrow> regs_kept k k'"
  by (auto simp: lseek_aux_def exec_Inr_iffs split: if_splits)

lemma write_aux_regs: "write_aux fd p len k = Inr k' \<Longrightarrow> regs_kept k k'"
  by (auto simp: write_aux_def Let_def exec_Inr_iffs regs_simps split: if_splits)

lemma open_aux_regs:
  assumes "open_aux path fl k = Inr k'"
  shows "regs_kept k k'"
proof -
  obtain f index i fd where "k' = install_file index i fd (k\<lparr>fs := f\<rparr>)"
    using assms unfolding open_aux_def Let_def exec_Inr_iffs by (auto simp: exec_Inr_iffs)
  then show ?thesis by (simp add: install_file_def Let_def regs_simps)
qed

lemma close_aux_regs:
  assumes "close_aux fd k = Inr k'"
  shows "regs_kept k k'"
proof -
  obtain i where "k' = set_eax 0 (upd_pcb (current k) (\<lambda>b. b\<lparr>filepointer := (filepointer b)[nat fd := -1],
              fp_num := wrap32 (fp_num b - 1)\<rparr>) (drop_link i k))"
    using assms by (auto simp: close_aux_def exec_Inr_iffs)
  moreover have "regs_kept k (drop_link i k)" by (simp add: drop_link_def Let_def regs_simps)
  ultimately show ?thesis by (simp add: regs_kept_def set_eax_def)
qed

lemma keyboardHandle_regs: "keyboardHandle c k = Inr k' \<Longrightarrow> regs_kept k k'"
  by (auto simp: keyboardHandle_def Let_def exec_Inr_iffs regs_kept_def split: if_splits)

lemma nested_irq_regs: "intr_nesting k \<Longrightarrow> nested_irq tfp e k = Inr k' \<Longrightarrow> regs_kept k k'"
  by (cases e) (auto simp: nested_irq_def timer_nested exec_Inr_iffs regs_kept_def dest!: keyboardHandle_regs)

lemma wait_for_keyboard_regs: "wait_for_keyboard tfp n es k = Inr (k', es') \<Longrightarrow> regs_kept k k'"
proof (induction es arbitrary: k)
  case Nil
  then show ?case by (auto simp: wait_for_keyboard.simps [of _ _ "[]"] split: if_splits)
next
  case (Cons e es)
  show ?case
  proof (cases "wrap32 (buf_out k + n) \<ge> buf_in k")
    case True
    then obtain k1 where k1: "nested_irq tfp e (k\<lparr>intr_nesting := True\<rparr>) = Inr k1"
      "wait_for_keyboard tfp n es k1 = Inr (k', es')"
      using Cons.prems by (auto simp: wait_for_keyboard.simps [of _ _ "e # es"] exec_Inr_iffs)
    have "regs_kept (k\<lparr>intr_nesting := True\<rparr>) k1" by (rule nested_irq_regs [OF _ k1(1)]) simp
    with Cons.IH [OF k1(2)] show ?thesis by (auto simp: regs_kept_def)
  next
    case False
    then show ?thesis using Cons.prems by (auto simp: wait_for_keyboard.simps [of _ _ "e # es"])
  qed
qed

lemma read_aux_regs:
  assumes "read_aux tfp fd p len es k = Inr (k', es')"
  shows "regs_kept k k'"
proof (cases "fd = 0")
  case True
  with assms obtain k1 m where k1: "wait_for_keyboard tfp (wrap32 (len - 1)) es k = Inr (k1, es')"
    "k' = k1\<lparr>mem := m, buf_out := wrap32 (buf_out k1 + len)\<rparr>"
    by (auto simp: read_aux_def Let_def exec_Inr_iffs)
  from wait_for_keyboard_regs [OF k1(1)] show ?thesis by (simp add: k1(2) regs_kept_def)
next
  case False
  with assms show ?thesis by (auto simp: read_aux_def Let_def exec_Inr_iffs regs_simps)
qed

lemma sem_init_regs: "sem_init_aux s v k = Inr k' \<Longrightarrow> regs_kept k k'"
  by (auto simp: sem_init_aux_def Let_def require_eq_Inr regs_simps)

lemma sem_destroy_regs: "regs_kept k (sem_destroy_aux s k)"
  by (simp add: sem_destroy_aux_def regs_simps)


section \<open>The whole kernel\<close>

text \<open>
  \<open>contexts k k'\<close>: a process that is in use keeps its registers unless it was running, the running one keeps all but \<open>eax\<close>, and a
  process that comes into use has the frame of a child.
\<close>

definition contexts :: "kernel \<Rightarrow> kernel \<Rightarrow> bool" where
  "contexts k k' \<longleftrightarrow> kaddr k' = kaddr k
     \<and> (\<forall>p. p \<noteq> current k \<longrightarrow> p \<notin> procs \<or> pstate (pcbs k p) \<noteq> DEAD \<longrightarrow> tf (pcbs k' p) = tf (pcbs k p))
     \<and> (tf (pcbs k' (current k)))\<lparr>tf_eax := 0\<rparr> = (tf (pcbs k (current k)))\<lparr>tf_eax := 0\<rparr>
     \<and> (\<forall>p\<in>procs. pstate (pcbs k' p) \<noteq> DEAD \<longrightarrow> pstate (pcbs k p) \<noteq> DEAD \<or> tf (pcbs k' p) = child_tf (tf (pcbs k (current k))))"

lemma regs_contexts: "regs_kept k k' \<Longrightarrow> contexts k k'"
  by (simp add: regs_kept_def contexts_def)

lemma sched_frame_tf: "sched_frame k k' \<Longrightarrow> tf (pcbs k' p) = tf (pcbs k p)"
  unfolding sched_frame_def by (metis pcb.select_convs(1) pcb.surjective pcb.update_convs(2-4))

text \<open>The processes that are not in use are those of the free list, and possibly the running one.\<close>

lemma dead_freed:
  assumes "sched_rel k a" and "complete a" and "p \<in> procs" and "pstate (pcbs k p) = DEAD"
  shows "p \<in> set (freed a) \<or> p = running a"
proof (rule ccontr)
  assume "\<not> ?thesis"
  then have "p \<in> set (ready a) \<or> p \<in> set (sleepers a) \<or> p \<in> set (waiters a)"
    using assms(2,3) by (auto simp: complete_def queued_def)
  then show False using assms(1,4) by (auto simp: sched_rel_def states_ok_def)
qed

lemma freed_dead: "sched_rel k a \<Longrightarrow> p \<in> set (freed a) \<Longrightarrow> pstate (pcbs k p) = DEAD"
  by (auto simp: sched_rel_def states_ok_def)

lemma freed_spec_schedule: "s \<noteq> RUNNABLE \<Longrightarrow> freed (spec_schedule s a) = freed a @ (if s = DEAD then [running a] else [])"
  by (cases s) (auto simp: spec_schedule_def split: list.split)

lemma freed_spec_tick: "freed (spec_tick k a) = freed a"
  by (simp add: spec_tick_def Let_def freed_spec_schedule spec_wakeup_def)

lemma schedule_contexts:
  assumes "sched_rel m b" and "complete b" and "can_switch m" and "schedule m = Inr k'"
  shows "kaddr k' = kaddr m" "tf (pcbs k' p) = tf (pcbs m p)" "p \<in> procs \<Longrightarrow> pstate (pcbs m p) = DEAD \<Longrightarrow> pstate (pcbs k' p) = DEAD"
proof -
  have k': "sched_rel k' (spec_schedule (pstate (cur m)) b)" "sched_frame m k'"
    using schedule_ok [OF assms(1,3)] assms(4) by auto
  show "kaddr k' = kaddr m" "tf (pcbs k' p) = tf (pcbs m p)" using sched_frame_fields(12) [OF k'(2)] sched_frame_tf [OF k'(2)] .
  assume p: "p \<in> procs" "pstate (pcbs m p) = DEAD"
  have "current m = running b" using assms(1) by (simp add: sched_rel_def)
  then have "p \<in> set (freed (spec_schedule (pstate (cur m)) b))"
    using dead_freed [OF assms(1,2) p] p(2) assms(3) by (auto simp: freed_spec_schedule can_switch_def)
  then show "pstate (pcbs k' p) = DEAD" using freed_dead [OF k'(1)] by blast
qed

lemma timer_contexts:
  assumes "kernel_inv k a" and "timerHandle (tf_addr k (current k)) k = Inr k'"
  shows "contexts k k'"
proof -
  note p = kernel_inv_parts [OF assms(1)]
  have "clock_ok k a" using assms(1) by (simp add: kernel_inv_def)
  from timer_step [OF this p(4)] assms(2) have k': "clock_ok k' (spec_tick k a)" "sched_frame k k'" by auto
  have "pstate (pcbs k' q) = DEAD" if "q \<in> procs" "pstate (pcbs k q) = DEAD" for q
  proof -
    have "q \<noteq> running a" using that(2) p(1,5) by (auto simp: sched_rel_def)
    then have "q \<in> set (freed (spec_tick k a))" using dead_freed [OF p(1,2) that] by (simp add: freed_spec_tick)
    moreover have "sched_rel k' (spec_tick k a)" using k'(1) by (simp add: clock_ok_def)
    ultimately show ?thesis by (rule freed_dead [rotated])
  qed
  then show ?thesis using sched_frame_fields(12) [OF k'(2)] sched_frame_tf [OF k'(2)] by (auto simp: contexts_def)
qed

lemma exit_contexts:
  assumes "kernel_inv k a" and "current k \<noteq> IdlePcb" and e: "exit_aux k = Inr k'"
  shows "contexts k k'"
proof -
  note p = kernel_inv_parts [OF assms(1)]
  obtain d where d: "schedule ((set_state (current k) DEAD k)\<lparr>p_num := wrap32 (p_num k - 1), disk := d\<rparr>) = Inr k'"
    using e by (auto simp: exit_aux_def Let_def writeBack_def write_back_eq)
  let ?m = "(set_state (current k) DEAD k)\<lparr>p_num := wrap32 (p_num k - 1), disk := d\<rparr>"
  have r: "sched_rel ?m a" by (rule sched_rel_same [OF sched_rel_block [OF p(1)]]) simp_all
  have c: "can_switch ?m" using assms(2) by (simp add: can_switch_def)
  from schedule_contexts [OF r p(2) c d] show ?thesis by (auto simp: contexts_def)
qed

lemma sleep_contexts:
  assumes "kernel_inv k a" and "current k \<noteq> IdlePcb" and e: "sleep_aux t k = Inr k'"
  shows "contexts k k'"
proof -
  note p = kernel_inv_parts [OF assms(1)]
  let ?m = "upd_pcb (current k) (\<lambda>b. b\<lparr>pstate := BLOCKED, sleepTime := t\<rparr>) k"
  have r: "sched_rel ?m a" by (rule sched_rel_cur_upd [OF p(1)])
  have c: "can_switch ?m" using assms(2) by (simp add: can_switch_def)
  from schedule_contexts [OF r p(2) c] e p(5) show ?thesis by (auto simp: contexts_def sleep_aux_def)
qed

lemma sem_wait_contexts:
  assumes i: "kernel_inv k a" and n: "current k \<noteq> IdlePcb" and e: "sem_wait_aux s k = Inr k'"
    and q: "psem (cur k) = s" "sem_list k s = Inr DummySem"
  shows "contexts k k'"
proof -
  let ?k1 = "set_sem_value s (sem_value (set_eax 0 k) s - 1) (set_eax 0 k)"
  let ?m = "set_state (current k) SEM_BLOCKED ?k1"
  note p = kernel_inv_parts [OF i]
  have at: "sem_at s" using e by (auto simp: sem_wait_aux_def sem_P_def require_eq_Inr)
  have l: "sem_list (set_eax 0 k) s = Inr DummySem" using q(2) sem_list_frame [of "set_eax 0 k" k s] by simp
  have t: "tf (pcbs ?m x) = (if x = current k then (tf (cur k))\<lparr>tf_eax := 0\<rparr> else tf (pcbs k x))" for x
    by (simp add: set_eax_def)
  show ?thesis
  proof (cases "sem_value ?k1 s < 0")
    case True
    then have sch: "schedule ?m = Inr k'" using e by (simp add: sem_wait_aux_def sem_P_def Let_def require_eq_Inr)
    have r: "sched_rel ?m a" using sched_rel_block [of ?k1 a SEM_BLOCKED] sched_rel_set_eax [OF p(1)] by simp
    have c: "can_switch ?m" using n q(1) at l by (simp add: can_switch_def)
    from schedule_contexts [OF r p(2) c sch] p(5) show ?thesis unfolding t by (auto simp: contexts_def)
  next
    case False
    then have "k' = ?k1" using e by (simp add: sem_wait_aux_def sem_P_def Let_def require_eq_Inr)
    then show ?thesis by (simp add: contexts_def set_eax_def)
  qed
qed

lemma sem_post_contexts:
  assumes i: "kernel_inv k a" and e: "sem_post_aux s k = Inr k'" and q: "sem_list k s = Inr DummySem"
  shows "contexts k k'"
proof -
  let ?k = "set_eax 0 k"
  have r: "sched_rel ?k a" using sched_rel_set_eax kernel_inv_parts(1) [OF i] by blast
  have l: "sem_list ?k s = Inr DummySem" using q sem_list_frame [of ?k k s] by simp
  show ?thesis
  proof (cases "sem_value ?k s < 0")
    case True
    have "waiters a \<noteq> []"
    proof
      assume "waiters a = []"
      then have "chain (nxt ?k) DummySem []" using DummySem_chain [OF r] by simp
      from list_head_empty [OF this] True e l show False
        by (simp add: sem_post_aux_def sem_V_def require_eq_Inr)
    qed
    then obtain w ws where w: "waiters a = w # ws" by (cases "waiters a") auto
    obtain n m where "list_head (nxt ?k) DummySem = Inr w" "delete_from DummySem w ?k = Inr (?k\<lparr>nxt := m\<rparr>)"
      "add_to Dummy1 w (set_state w RUNNABLE (?k\<lparr>nxt := m\<rparr>)) = Inr ((set_state w RUNNABLE ?k)\<lparr>nxt := n\<rparr>)"
      using pop_waiter [OF r w] by blast
    then have "k' = set_sem_value s (sem_value ((set_state w RUNNABLE ?k)\<lparr>nxt := n\<rparr>) s + 1) ((set_state w RUNNABLE ?k)\<lparr>nxt := n\<rparr>)"
      using e True l by (simp add: sem_post_aux_def sem_V_def require_eq_Inr)
    moreover have "pstate (pcbs k w) = SEM_BLOCKED"
      using kernel_inv_parts(1) [OF i] w by (auto simp: sched_rel_def states_ok_def)
    ultimately show ?thesis by (auto simp: contexts_def set_eax_def)
  next
    case False
    then have "k' = set_sem_value s (sem_value ?k s + 1) ?k"
      using e by (simp add: sem_post_aux_def sem_V_def require_eq_Inr)
    then show ?thesis by (simp add: contexts_def set_eax_def)
  qed
qed

lemma fork_aux_pcbs:
  assumes "fork_aux k = Inr k'" and "Pcb (nat (p_num k)) \<noteq> current k"
  shows "pcbs k' = (pcbs k)(Pcb (nat (p_num k)) := child_pcb (p_num k) (cur k) (pcbs k (Pcb (nat (p_num k)))),
      current k := (cur k)\<lparr>tf := (tf (cur k))\<lparr>tf_eax := word_of_int (p_num k)\<rparr>\<rparr>) \<and> kaddr k' = kaddr k"
  using assms unfolding fork_aux_def pcb_ref_def exec_Inr_iffs Let_def delete_from_def add_to_def
  by (auto simp: exec_Inr_iffs set_eax_def fun_upd_twist)

lemma fork_contexts:
  assumes i: "kernel_inv k a" and e: "fork_aux k = Inr k'"
  shows "contexts k k'"
proof -
  note p = kernel_inv_parts [OF i]
  have f: "Pcb (nat (p_num k)) \<in> set (freed a)" using fork_Inr [OF p(1) e] by blast
  then have c: "Pcb (nat (p_num k)) \<in> procs" "Pcb (nat (p_num k)) \<noteq> current k"
    using p(1) by (auto simp: sched_rel_def placed_def queued_def)
  from fork_aux_pcbs [OF e c(2)] c freed_dead [OF p(1) f] p(5) show ?thesis
    by (auto simp: contexts_def child_pcb_def)
qed

lemma syscall_contexts:
  assumes i: "kernel_inv k a" and n: "current k \<noteq> IdlePcb"
    and s: "tf_eax (tf (cur k)) = 9 \<Longrightarrow> psem (cur k) = tf_ebx (tf (cur k)) \<and> sem_list k (tf_ebx (tf (cur k))) = Inr DummySem"
      "tf_eax (tf (cur k)) = 10 \<Longrightarrow> sem_list k (tf_ebx (tf (cur k))) = Inr DummySem"
    and e: "syscallHandle tfp es k = Inr (k', es')"
  shows "contexts k k'"
proof -
  let ?t = "tf (cur k)"
  have c9: "uint (tf_eax ?t) = 9 \<longleftrightarrow> tf_eax ?t = 9" and c10: "uint (tf_eax ?t) = 10 \<longleftrightarrow> tf_eax ?t = 10"
    by (simp_all add: word_uint_eq_iff)
  have "regs_kept k k' \<or> exit_aux k = Inr k' \<or> fork_aux k = Inr k' \<or> sleep_aux (sint (tf_ebx ?t)) k = Inr k'
      \<or> tf_eax ?t = 9 \<and> sem_wait_aux (tf_ebx ?t) k = Inr k' \<or> tf_eax ?t = 10 \<and> sem_post_aux (tf_ebx ?t) k = Inr k'"
    using e unfolding syscallHandle_def require_eq_Inr Let_def c9 c10
    by (auto simp: exec_Inr_iffs sem_destroy_regs split: if_splits
        dest: read_aux_regs write_aux_regs lseek_aux_regs open_aux_regs close_aux_regs remove_aux_regs
          ls_aux_regs cat_aux_regs sem_init_regs)
  then show ?thesis
    using regs_contexts exit_contexts [OF i n] fork_contexts [OF i] sleep_contexts [OF i n] sem_wait_contexts [OF i n]
      sem_post_contexts [OF i] s by blast
qed

lemma contexts_stacktop [simp]: "contexts k (k'\<lparr>currentstacktop := v\<rparr>) = contexts k k'"
  by (simp add: contexts_def)

lemma irqHandle_contexts:
  assumes inv: "kernel_inv k a" and sane: "sane_call f k"
    and h: "irqHandle (trap_addr k) (tf_irq f) port es (trap f k) = Inr (k', es')"
  shows "contexts (trap f k) k'"
proof -
  let ?k = "trap f k"
  have i: "kernel_inv ?k a" by (rule trap_inv [OF inv])
  have addr: "trap_addr k = tf_addr ?k (current ?k)"
    using trap_addr_tf kernel_inv_parts(3) [OF inv] by (simp add: trap_def tf_addr_def)
  have t: "tf (pcbs ?k (current k)) = f" "psem (pcbs ?k (current k)) = psem (cur k)" "current ?k = current k"
    "sem_list ?k s = sem_list k s" for s
    by (simp_all add: trap_def sem_list_def ref_at_def)
  obtain k1 v where k': "k' = k1\<lparr>currentstacktop := v\<rparr>" and
    "k1 = ?k \<or> keyboardHandle port ?k = Inr k1 \<or> timerHandle (trap_addr k) ?k = Inr k1
      \<or> tf_irq f = 0x80 \<and> syscallHandle (trap_addr k) es ?k = Inr (k1, es')"
    using h by (auto simp: irqHandle_def exec_Inr_iffs set_stacktop_eq GProtectFaultHandle_def split: if_splits)
  from this(2) show ?thesis unfolding k' contexts_stacktop
  proof (elim disjE)
    assume "k1 = ?k" then show "contexts ?k k1" by (simp add: regs_contexts)
  next
    assume "keyboardHandle port ?k = Inr k1"
    then show "contexts ?k k1" by (rule regs_contexts [OF keyboardHandle_regs])
  next
    assume "timerHandle (trap_addr k) ?k = Inr k1"
    then show "contexts ?k k1" unfolding addr by (rule timer_contexts [OF i])
  next
    assume sc: "tf_irq f = 0x80 \<and> syscallHandle (trap_addr k) es ?k = Inr (k1, es')"
    show "contexts ?k k1"
    proof (rule syscall_contexts [OF i])
      show "current ?k \<noteq> IdlePcb" using sane sc unfolding t by (simp add: sane_call_def)
    qed (use sane sc in \<open>auto simp: sane_call_def t\<close>)
  qed
qed

text \<open>Only a system call changes the register.\<close>

lemma keyboardHandle_pcbs: "keyboardHandle c k = Inr k' \<Longrightarrow> pcbs k' = pcbs k"
  by (auto simp: keyboardHandle_def Let_def exec_Inr_iffs split: if_splits)

lemma irqHandle_tf:
  assumes inv: "kernel_inv k a" and n: "tf_irq f \<noteq> 0x80"
    and h: "irqHandle (trap_addr k) (tf_irq f) port es (trap f k) = Inr (k', es')"
  shows "tf (pcbs k' p) = tf (pcbs (trap f k) p)"
proof -
  let ?k = "trap f k"
  have i: "kernel_inv ?k a" by (rule trap_inv [OF inv])
  have addr: "trap_addr k = tf_addr ?k (current ?k)"
    using trap_addr_tf kernel_inv_parts(3) [OF inv] by (simp add: trap_def tf_addr_def)
  obtain k1 v where k': "k' = k1\<lparr>currentstacktop := v\<rparr>" and
    d: "k1 = ?k \<or> keyboardHandle port ?k = Inr k1 \<or> timerHandle (trap_addr k) ?k = Inr k1"
    using h n by (auto simp: irqHandle_def exec_Inr_iffs set_stacktop_eq GProtectFaultHandle_def split: if_splits)
  have "sched_frame ?k k1" if "timerHandle (trap_addr k) ?k = Inr k1"
    using timer_step [of ?k a] i that unfolding addr by (auto simp: kernel_inv_def)
  then show ?thesis using d keyboardHandle_pcbs sched_frame_tf unfolding k' by fastforce
qed

end
