(* ===== verification/Running.thy ===== *)
theory Running
  imports Booting Machine Contexts
begin

unbundle bit_operations_syntax

text \<open>
  The whole machine as a step relation on the processor and the kernel's state: programs run between interrupts, an interrupt
  goes through \<open>asmDoIrq\<close>, \<open>irqHandle\<close> and back. Every run of it is a run of \<open>kernel_step\<close>, and no program can tell that
  it was interrupted.
\<close>

section \<open>Steps of the machine\<close>

text \<open>What the C code finds in the \<open>tf\<close> of the processes: the words on their stacks.\<close>

definition read_frames :: "(u32 \<Rightarrow> u32) \<Rightarrow> kernel \<Rightarrow> kernel" where
  "read_frames m k = k\<lparr>pcbs := (\<lambda>p. if p \<in> insert IdlePcb procs then (pcbs k p)\<lparr>tf := frame_at m (tf_addr k p)\<rparr> else pcbs k p)\<rparr>"

text \<open>
  A program changes its registers, its stack and its memory as it likes, but not the frames, and stays a program. An
  interrupt \<open>v\<close> enters the kernel through the gate; the registers that the compiled code of \<open>irqHandle\<close> leaves are arbitrary (\<open>c1\<close>), its stores to the frames are those of
  the model. A general protection fault stops the machine and is left out.
\<close>

inductive irq_step :: "gate list \<Rightarrow> segdesc list \<Rightarrow> task_state \<Rightarrow> nat \<Rightarrow> cpu \<times> kernel \<Rightarrow> cpu \<times> kernel \<Rightarrow> bool" for idt g ts where
  "v < 256 \<Longrightarrow> v \<noteq> 13 \<Longrightarrow> err = None \<longleftrightarrow> \<not> error_vector v \<Longrightarrow>
    enter_kernel idt g (ts\<lparr>ts_esp0 := tss_esp0 k\<rparr>) v err c = (a, c') \<Longrightarrow> sane_call (frame_at (stk c') a) k \<Longrightarrow>
    irqHandle a (tf_irq (frame_at (stk c') a)) port es (read_frames (stk c') k) = Inr (k', es') \<Longrightarrow>
    r_cs c1 = r_cs c' \<Longrightarrow> frames_ok (stk c1) k' \<Longrightarrow>
    irq_step idt g ts v (c, k) (asmDoIrq_return g (currentstacktop k') c1, k')"

inductive mstep :: "gate list \<Rightarrow> segdesc list \<Rightarrow> task_state \<Rightarrow> cpu \<times> kernel \<Rightarrow> cpu \<times> kernel \<Rightarrow> bool" for idt g ts where
  program: "current k \<noteq> IdlePcb \<Longrightarrow> r_cs c' AND 3 \<noteq> 0 \<Longrightarrow>
    \<forall>p\<in>insert IdlePcb procs. frame_at (stk c') (tf_addr k p) = frame_at (stk c) (tf_addr k p) \<Longrightarrow>
    \<forall>x. \<not> user_area x 1 \<longrightarrow> m x = mem k x \<Longrightarrow>
    mstep idt g ts (c, k) (c', k\<lparr>mem := m\<rparr>)"
| interrupt: "irq_step idt g ts v s s' \<Longrightarrow> mstep idt g ts s s'"

inductive_cases irq_stepE: "irq_step idt g ts v (c, k) s'"

text \<open>What \<open>kEntry\<close> leaves when it gets to the idle loop, from kernel data in which no process waits.\<close>

definition starts :: "gate list \<Rightarrow> segdesc list \<Rightarrow> kernel \<Rightarrow> bool" where
  "starts idt g k \<longleftrightarrow> (\<exists>addr tss l idt0 gdt0 sb k0 l' sb'. length idt0 = 256 \<and> length gdt0 = 9 \<and> nxt k0 DummySem = None
     \<and> kEntry addr tss l idt0 gdt0 sb k0 = Inr (l', idt, g, sb', k))"

inductive machine_reach :: "gate list \<Rightarrow> segdesc list \<Rightarrow> task_state \<Rightarrow> cpu \<times> kernel \<Rightarrow> bool" for idt g ts where
  start: "starts idt g k \<Longrightarrow> apart k \<Longrightarrow> frames_ok (stk c) k \<Longrightarrow> r_cs c AND 3 = 0 \<Longrightarrow> machine_reach idt g ts (idle_loop k c, k)"
| step: "machine_reach idt g ts (c, k) \<Longrightarrow> mstep idt g ts (c, k) (c', k') \<Longrightarrow> machine_reach idt g ts (c', k')"


section \<open>The invariant\<close>

text \<open>A process that waits to run will run as a program, the idle loop in the kernel.\<close>

definition user_frame :: "trapframe \<Rightarrow> bool" where
  "user_frame f \<longleftrightarrow> (ucast (tf_cs f) :: u16) AND 3 \<noteq> 0"

definition modes :: "kernel \<Rightarrow> bool" where
  "modes k \<longleftrightarrow> (\<forall>p\<in>procs. p \<noteq> current k \<longrightarrow> pstate (pcbs k p) \<noteq> DEAD \<longrightarrow> user_frame (tf (pcbs k p)))
     \<and> (current k \<noteq> IdlePcb \<longrightarrow> \<not> user_frame (tf (pcbs k IdlePcb)))"

definition minv :: "task_state \<Rightarrow> cpu \<times> kernel \<Rightarrow> bool" where
  "minv ts s \<longleftrightarrow> (case s of (c, k) \<Rightarrow> reachable k \<and> apart k \<and> frames_ok (stk c) k \<and> modes k \<and> runs (ts\<lparr>ts_esp0 := tss_esp0 k\<rparr>) c k)"

text \<open>The tables are those of \<open>initIdt\<close> and \<open>initSeg\<close>.\<close>

definition machine_tables :: "gate list \<Rightarrow> segdesc list \<Rightarrow> bool" where
  "machine_tables idt g \<longleftrightarrow> (\<exists>addr idt0 gdt tss k0 k1. length idt0 = 256 \<and> length gdt = 9
     \<and> initSeg tss gdt k0 = Inr (g, k1) \<and> idt = initIdt addr idt0)"

lemma idle_not_proc [simp]: "IdlePcb \<notin> procs"
  by (auto simp: procs_def)

lemma user_frame_eax: "f\<lparr>tf_eax := 0\<rparr> = f'\<lparr>tf_eax := 0\<rparr> \<Longrightarrow> user_frame f = user_frame f'"
  by (drule arg_cong [where f = tf_cs]) (simp add: user_frame_def)

lemma user_frame_child [simp]: "user_frame (child_tf t)"
  by (simp add: user_frame_def child_tf_def USEL_def)

lemma read_frames_trap:
  assumes "frames_ok m (trap f k)" and "current k \<in> insert IdlePcb procs"
  shows "read_frames m k = trap f k"
proof -
  have "(if p \<in> insert IdlePcb procs then (pcbs k p)\<lparr>tf := frame_at m (tf_addr k p)\<rparr> else pcbs k p) = pcbs (trap f k) p" for p
  proof (cases "p \<in> insert IdlePcb procs")
    case True
    then have "frame_at m (tf_addr (trap f k) p) = tf (pcbs (trap f k) p)" using assms(1) unfolding frames_ok_def by (rule bspec [rotated])
    then show ?thesis using True by (auto simp: trap_def tf_addr_def split: if_splits)
  next
    case False
    then have "p \<noteq> current k" using assms(2) by blast
    then show ?thesis using False by (simp add: trap_def)
  qed
  then have "read_frames m k = k\<lparr>pcbs := pcbs (trap f k)\<rparr>" unfolding read_frames_def by presburger
  then show ?thesis by (simp add: trap_def upd_pcb_def)
qed

text \<open>The way back always goes to the code segment of the frame.\<close>

lemma asmDoIrq_return_cs:
  assumes "frame_at (stk c) a = f"
  shows "r_cs (asmDoIrq_return g a c) = ucast (tf_cs f)" "stk (asmDoIrq_return g a c) = stk c"
  unfolding before_iret assms [symmetric] frame_at_def trapframe.simps
  by (simp_all add: iret_def popl_def Let_def pop_off)

lemma stub_not_syscall: "v < 256 \<Longrightarrow> v \<noteq> 128 \<Longrightarrow> sint (stub_irq (handler_of v)) \<noteq> 128"
proof -
  assume "v < 256" "v \<noteq> 128"
  moreover have "sint (word_of_nat v :: u32) = int v" if "v < 15"
  proof -
    have "uint (word_of_nat v :: u32) = int v" using that by (simp add: unsigned_of_nat take_bit_nat_eq_self)
    then show ?thesis using that by (simp add: sint_uint signed_take_bit_int_eq_self)
  qed
  ultimately show ?thesis by (auto simp: handler_of_def)
qed

lemma trapped:
  assumes "machine_tables idt g" and "minv ts (c, k)" and "v < 256" and "v \<noteq> 13" and "err = None \<longleftrightarrow> \<not> error_vector v"
    and "enter_kernel idt g (ts\<lparr>ts_esp0 := tss_esp0 k\<rparr>) v err c = (a, c')"
  shows "a = trap_addr k" "frames_ok (stk c') (trap (frame_at (stk c') a) k)" "read_frames (stk c') k = trap (frame_at (stk c') a) k" "r_cs c' = 8"
    "tf_cs (frame_at (stk c') a) = ucast (r_cs c)" "tf_irq (frame_at (stk c') a) = sint (stub_irq (handler_of v))"
    "r_cs c AND 3 \<noteq> 0 \<Longrightarrow> \<exists>e. frame_at (stk c') a = saved_frame (a + 48) (stub_irq (handler_of v)) e c"
proof -
  obtain addr idt0 gdt tss k0 k1 where t: "length idt0 = 256" "length gdt = 9" "initSeg tss gdt k0 = Inr (g, k1)" "idt = initIdt addr idt0"
    using assms(1) by (auto simp: machine_tables_def)
  have i: "reachable k" "apart k" "frames_ok (stk c) k" "runs (ts\<lparr>ts_esp0 := tss_esp0 k\<rparr>) c k" using assms(2) by (simp_all add: minv_def)
  note e = interrupt_enters [OF t(1-3) assms(3-5) assms(6) [unfolded t(4)] i]
  show "a = trap_addr k" "frames_ok (stk c') (trap (frame_at (stk c') a) k)" "r_cs c' = 8" using e(1-3) .
  show "read_frames (stk c') k = trap (frame_at (stk c') a) k" by (rule read_frames_trap [OF e(2) reachable_current(1) [OF i(1)]])
  show "tf_cs (frame_at (stk c') a) = ucast (r_cs c)" "tf_irq (frame_at (stk c') a) = sint (stub_irq (handler_of v))"
    using e(4) by (auto simp: saved_frame_def)
  show "\<exists>e. frame_at (stk c') a = saved_frame (a + 48) (stub_irq (handler_of v)) e c" if "r_cs c AND 3 \<noteq> 0" using e(4) that by blast
qed

lemma modes_step:
  assumes inv: "kernel_inv k a" and m: "modes k" and inv': "kernel_inv k' a'"
    and c: "contexts (trap f k) k'" and f: "user_frame f \<longleftrightarrow> current k \<noteq> IdlePcb"
  shows "modes k'" "user_frame (tf (cur k')) \<longleftrightarrow> current k' \<noteq> IdlePcb"
proof -
  have cur: "current k' = IdlePcb \<or> current k' \<in> procs" "pstate (cur k') \<noteq> DEAD"
    using kernel_inv_parts(1,5) [OF inv'] by (auto simp: sched_rel_def placed_def)
  have t: "current (trap f k) = current k" "tf (pcbs (trap f k) p) = (if p = current k then f else tf (pcbs k p))"
    "pstate (pcbs (trap f k) p) = pstate (pcbs k p)" for p by (simp_all add: trap_def)
  have u: "user_frame (tf (pcbs k' p))" if "p \<in> procs" "pstate (pcbs k' p) \<noteq> DEAD" for p
  proof (cases "p = current k")
    case True
    then have "(tf (pcbs k' p))\<lparr>tf_eax := 0\<rparr> = f\<lparr>tf_eax := 0\<rparr>" using c by (simp add: contexts_def t)
    then have "user_frame (tf (pcbs k' p)) = user_frame f" by (rule user_frame_eax)
    then show ?thesis using f True that(1) by auto
  next
    case False
    then show ?thesis using c m that unfolding contexts_def modes_def t by fastforce
  qed
  have i: "\<not> user_frame (tf (pcbs k' IdlePcb))"
  proof (cases "current k = IdlePcb")
    case True
    then have "(tf (pcbs k' IdlePcb))\<lparr>tf_eax := 0\<rparr> = f\<lparr>tf_eax := 0\<rparr>" using c by (simp add: contexts_def t)
    then have "user_frame (tf (pcbs k' IdlePcb)) = user_frame f" by (rule user_frame_eax)
    then show ?thesis using f True by simp
  next
    case False
    then have "tf (pcbs k' IdlePcb) = tf (pcbs k IdlePcb)" using c by (simp add: contexts_def t)
    then show ?thesis using m False by (simp add: modes_def)
  qed
  show "modes k'" using u i by (simp add: modes_def)
  show "user_frame (tf (cur k')) \<longleftrightarrow> current k' \<noteq> IdlePcb" using u [of "current k'"] i cur by auto
qed

text \<open>A frame of the current process that \<open>asmDoIrq\<close> has loaded: the process runs.\<close>

lemma resumed_runs:
  assumes "currentstacktop k = tf_addr k (current k)" and "frame_at (stk c) (tf_addr k (current k)) = tf (cur k)"
    and "r_cs c AND 3 = 0" and "user_frame (tf (cur k)) \<longleftrightarrow> current k \<noteq> IdlePcb"
  shows "runs (ts\<lparr>ts_esp0 := tss_esp0 k\<rparr>) (asmDoIrq_return g (currentstacktop k) c) k"
    "stk (asmDoIrq_return g (currentstacktop k) c) = stk c"
proof -
  show "stk (asmDoIrq_return g (currentstacktop k) c) = stk c" by (rule asmDoIrq_return_cs(2) [OF refl])
  show "runs (ts\<lparr>ts_esp0 := tss_esp0 k\<rparr>) (asmDoIrq_return g (currentstacktop k) c) k"
  proof (cases "current k = IdlePcb")
    case True
    then have "(ucast (tf_cs (tf (cur k))) :: u16) AND 3 = 0" using assms(4) by (simp add: user_frame_def)
    from return_kernel [OF assms(3,2) this] this True assms(1) show ?thesis
      by (simp add: runs_def load_frame_def idle_esp_def tf_addr_def)
  next
    case False
    then show ?thesis using asmDoIrq_return_cs(1) [OF assms(2)] assms(1,4) by (simp add: runs_def user_frame_def)
  qed
qed

lemma mstep_interrupt:
  assumes t: "machine_tables idt g" and i: "minv ts (c, k)"
    and v: "v < 256" "v \<noteq> 13" "err = None \<longleftrightarrow> \<not> error_vector v"
    and e: "enter_kernel idt g (ts\<lparr>ts_esp0 := tss_esp0 k\<rparr>) v err c = (a, c')" and s: "sane_call (frame_at (stk c') a) k"
    and h: "irqHandle a (tf_irq (frame_at (stk c') a)) port es (read_frames (stk c') k) = Inr (k', es')"
    and c1: "r_cs c1 = r_cs c'" "frames_ok (stk c1) k'"
  shows "kernel_step k k'" "contexts (trap (frame_at (stk c') a) k) k'" "minv ts (asmDoIrq_return g (currentstacktop k') c1, k')"
    "resumed g k' c1 (asmDoIrq_return g (currentstacktop k') c1)"
    "v \<noteq> 128 \<Longrightarrow> tf (pcbs k' p) = tf (pcbs (trap (frame_at (stk c') a) k) p)"
proof -
  let ?f = "frame_at (stk c') a"
  note n = trapped [OF t i v e]
  have m: "reachable k" "apart k" "modes k" "runs (ts\<lparr>ts_esp0 := tss_esp0 k\<rparr>) c k" using i by (simp_all add: minv_def)
  have k: "r_cs c1 AND 3 = 0" using c1(1) n(4) by simp
  have h': "irqHandle (trap_addr k) (tf_irq ?f) port es (trap ?f k) = Inr (k', es')" using h unfolding n(1) [symmetric] n(3) .
  note l = interrupt_leaves [OF m(1) s h' k c1(2)]
  show "kernel_step k k'" "resumed g k' c1 (asmDoIrq_return g (currentstacktop k') c1)" using l(1,5) .
  obtain a0 a1 where inv: "kernel_inv k a0" "kernel_inv k' a1" using reachable_inv m(1) l(2) by blast
  show con: "contexts (trap ?f k) k'" by (rule irqHandle_contexts [OF inv(1) s h'])
  have u: "user_frame ?f \<longleftrightarrow> current k \<noteq> IdlePcb" using m(4) n(5) by (auto simp: user_frame_def runs_def split: if_splits)
  note x = modes_step [OF inv(1) m(3) inv(2) con u]
  have "apart k'" using m(2) con by (simp add: apart_def contexts_def trap_def)
  then show "minv ts (asmDoIrq_return g (currentstacktop k') c1, k')"
    using l(2) x(1) c1(2) resumed_runs [OF l(3,4) k x(2)] by (simp add: minv_def)
  show "tf (pcbs k' p) = tf (pcbs (trap ?f k) p)" if "v \<noteq> 128"
    by (rule irqHandle_tf [OF inv(1) _ h']) (simp add: n(6) stub_not_syscall [OF v(1) that])
qed

lemma mstep_program:
  assumes i: "minv ts (c, k)" and n: "current k \<noteq> IdlePcb" and c': "r_cs c' AND 3 \<noteq> 0" "\<forall>p\<in>insert IdlePcb procs. frame_at (stk c') (tf_addr k p) = frame_at (stk c) (tf_addr k p)"
    and m: "\<forall>x. \<not> user_area x 1 \<longrightarrow> m x = mem k x"
  shows "kernel_step k (k\<lparr>mem := m\<rparr>)" "minv ts (c', k\<lparr>mem := m\<rparr>)"
proof -
  show st: "kernel_step k (k\<lparr>mem := m\<rparr>)" by (rule kernel_step.compute [OF n m])
  have r: "reachable k" using i by (simp add: minv_def)
  from reachable.step [OF r st] i n c' show "minv ts (c', k\<lparr>mem := m\<rparr>)"
    by (simp add: minv_def apart_def frames_ok_def modes_def runs_def tf_addr_def)
qed

lemma mstep_minv:
  assumes "machine_tables idt g" and "minv ts s" and "mstep idt g ts s s'"
  shows "minv ts s' \<and> kernel_step (snd s) (snd s')"
  using assms(3)
proof cases
  case (program k c' c m)
  with mstep_program [of ts c k c' m] assms(2) show ?thesis by simp
next
  case (interrupt v)
  obtain c k where s: "s = (c, k)" by (cases s)
  from interrupt [unfolded s] show ?thesis
    by (rule irq_stepE) (use mstep_interrupt [OF assms(1)] assms(2) in \<open>simp add: s\<close>)
qed

lemma started_modes:
  assumes "initPcb k0 = Inr k1" and "nxt k0 DummySem = None"
    and "preparePCB entry (k1\<lparr>fs := f, mem := m, scr := s, serial := out, buf_in := 0, buf_out := 0\<rparr>) = Inr k"
  shows "modes k" "current k = IdlePcb"
proof -
  obtain k1' where k1: "initPcb k0 = Inr k1'" "clock_ok k1' boot_sched" "p_num k1' = 1"
    using initPcb_ok [OF assms(2)] by blast
  let ?k = "k1\<lparr>fs := f, mem := m, scr := s, serial := out, buf_in := 0, buf_out := 0\<rparr>"
  have eq: "k1' = k1" using assms(1) k1(1) by simp
  have "sched_rel ?k boot_sched" by (rule sched_rel_same [of k1]) (use k1(2) in \<open>simp_all add: clock_ok_def eq\<close>)
  then have c: "clock_ok ?k boot_sched" "p_num ?k = 1" using k1(2,3) by (simp_all add: clock_ok_def eq)
  obtain k2 where k2: "preparePCB entry ?k = Inr k2" "clock_ok k2 loaded_sched" "pcbs k2 (Pcb 1) = first_pcb 1 entry (pcbs ?k (Pcb 1))"
    using preparePCB_ok [OF c] by blast
  have k: "k2 = k" using k2(1) assms(3) by simp
  show i: "current k = IdlePcb" using k2(2) by (simp add: clock_ok_def sched_rel_def loaded_sched_def k)
  have "p = Pcb 1" if "p \<in> procs" "pstate (pcbs k p) \<noteq> DEAD" for p
  proof (rule ccontr)
    assume "p \<noteq> Pcb 1"
    then have "p \<in> set (freed loaded_sched)" using that(1) by (force simp: procs_def loaded_sched_def)
    moreover have "sched_rel k loaded_sched" using k2(2) by (simp add: clock_ok_def k)
    ultimately show False using freed_dead that(2) by blast
  qed
  moreover have "user_frame (tf (pcbs k (Pcb 1)))"
    using k2(3) by (simp add: k first_pcb_def user_frame_def USEL_def)
  ultimately show "modes k" using i by (auto simp: modes_def)
qed

lemma starts_parts:
  assumes "starts idt g k"
  shows "machine_tables idt g" "reachable k" "modes k" "current k = IdlePcb"
proof -
  obtain addr tss l idt0 gdt0 sb k0 l' sb' where k: "length idt0 = 256" "length gdt0 = 9" "nxt k0 DummySem = None"
    "kEntry addr tss l idt0 gdt0 sb k0 = Inr (l', idt, g, sb', k)" using assms unfolding starts_def by blast
  note e = kEntry_start [OF k(4)]
  show "machine_tables idt g" unfolding machine_tables_def using k(1,2) e(1,2) by blast
  obtain k1 k2 entry f m s out where p: "initPcb k1 = Inr k2" "nxt k1 = nxt k0"
    "preparePCB entry (k2\<lparr>fs := f, mem := m, scr := s, serial := out, buf_in := 0, buf_out := 0\<rparr>) = Inr k" using e(3) by blast
  have n: "nxt k1 DummySem = None" using k(3) p(2) by simp
  show "reachable k" by (rule reachable.boot [OF n p(1,3)])
  show "modes k" "current k = IdlePcb" using started_modes [OF p(1) n p(3)] .
qed

lemma machine_reach_tables: "machine_reach idt g ts s \<Longrightarrow> machine_tables idt g"
  by (induction rule: machine_reach.induct) (auto dest: starts_parts(1))

lemma machine_minv:
  assumes "machine_reach idt g ts s"
  shows "minv ts s"
  using assms
proof induction
  case (start k c)
  with starts_parts [OF start(1)] show ?case by (simp add: minv_def runs_def idle_loop_def enableInterrupt_def Let_def)
next
  case (step c k c' k')
  then show ?case using mstep_minv [OF machine_reach_tables [OF step(1)]] by blast
qed


section \<open>What the machine guarantees\<close>

text \<open>C2: the kernel of theory Irq is an abstraction of the machine: in every state that the machine reaches from the end of \<open>kEntry\<close> on,
  the kernel's state is reachable there, the frames of all processes are the words on their stacks, and the
  processor runs the current process, with the task state's stack for it; and what the machine does next is a step of the kernel.\<close>

theorem machine_refines_kernel:
  assumes "machine_reach idt g ts (c, k)"
  shows "reachable k \<and> frames_ok (stk c) k \<and> runs (ts\<lparr>ts_esp0 := tss_esp0 k\<rparr>) c k
    \<and> (\<forall>c' k'. mstep idt g ts (c, k) (c', k') \<longrightarrow> kernel_step k k')"
proof -
  note i = machine_minv [OF assms]
  have "kernel_step k k'" if "mstep idt g ts (c, k) (c', k')" for c' k'
    using mstep_minv [OF machine_reach_tables [OF assms] i that] by simp
  then show ?thesis using i by (simp add: minv_def)
qed

text \<open>A process that does not run: the states the machine goes through while it is not current and not ended.\<close>

definition away :: "gate list \<Rightarrow> segdesc list \<Rightarrow> task_state \<Rightarrow> pcbref \<Rightarrow> cpu \<times> kernel \<Rightarrow> cpu \<times> kernel \<Rightarrow> bool" where
  "away idt g ts p s s' \<longleftrightarrow> mstep idt g ts s s' \<and> current (snd s) \<noteq> p \<and> pstate (pcbs (snd s) p) \<noteq> DEAD"

text \<open>Its frame is kept, and when it runs again its registers have been loaded from it.\<close>

definition comes_back :: "segdesc list \<Rightarrow> pcbref \<Rightarrow> cpu \<times> kernel \<Rightarrow> bool" where
  "comes_back g p s \<longleftrightarrow> current (snd s) = p \<longrightarrow> (\<exists>c1. resumed g (snd s) c1 (fst s))"

lemma irq_step_facts:
  assumes m: "machine_reach idt g ts (c, k)" and i: "irq_step idt g ts v (c, k) (c', k')"
  shows "machine_reach idt g ts (c', k')" "\<exists>c1. resumed g k' c1 c'"
    "\<exists>f. contexts (trap f k) k' \<and> (v \<noteq> 128 \<longrightarrow> (\<forall>p. tf (pcbs k' p) = tf (pcbs (trap f k) p)))
      \<and> (r_cs c AND 3 \<noteq> 0 \<longrightarrow> (\<exists>w e. f = saved_frame w (stub_irq (handler_of v)) e c))"
proof -
  show "machine_reach idt g ts (c', k')" using m i by (blast intro: machine_reach.step mstep.interrupt)
  note t = machine_reach_tables [OF m] and inv = machine_minv [OF m]
  have "(\<exists>c1. resumed g k' c1 c') \<and> (\<exists>f. contexts (trap f k) k' \<and> (v \<noteq> 128 \<longrightarrow> (\<forall>p. tf (pcbs k' p) = tf (pcbs (trap f k) p)))
      \<and> (r_cs c AND 3 \<noteq> 0 \<longrightarrow> (\<exists>w e. f = saved_frame w (stub_irq (handler_of v)) e c)))"
    using i
  proof (rule irq_stepE)
    fix err a d port es es' k2 c1
    assume s: "(c', k') = (asmDoIrq_return g (currentstacktop k2) c1, k2)" and v: "v < 256" "v \<noteq> 13"
      "(err = None) = (\<not> error_vector v)" and e: "enter_kernel idt g (ts\<lparr>ts_esp0 := tss_esp0 k\<rparr>) v err c = (a, d)"
      and h: "sane_call (frame_at (stk d) a) k"
        "irqHandle a (tf_irq (frame_at (stk d) a)) port es (read_frames (stk d) k) = Inr (k2, es')"
        "r_cs c1 = r_cs d" "frames_ok (stk c1) k2"
    have k2: "k2 = k'" "c' = asmDoIrq_return g (currentstacktop k') c1" using s by simp_all
    note x = mstep_interrupt [OF t inv v e h, unfolded k2(1), folded k2(2)] and y = trapped [OF t inv v e]
    show ?thesis using x(2,4,5) y(7) by blast
  qed
  then show "\<exists>c1. resumed g k' c1 c'" "\<exists>f. contexts (trap f k) k' \<and> (v \<noteq> 128 \<longrightarrow> (\<forall>p. tf (pcbs k' p) = tf (pcbs (trap f k) p)))
      \<and> (r_cs c AND 3 \<noteq> 0 \<longrightarrow> (\<exists>w e. f = saved_frame w (stub_irq (handler_of v)) e c))" by blast+
qed

lemma away_step:
  assumes m: "machine_reach idt g ts s" and a: "away idt g ts p s s'" and p: "p \<in> procs"
  shows "machine_reach idt g ts s'" "tf (pcbs (snd s') p) = tf (pcbs (snd s) p)" "comes_back g p s'"
proof -
  obtain c k c' k' where s: "s = (c, k)" "s' = (c', k')" by (cases s, cases s') blast
  have st: "mstep idt g ts (c, k) (c', k')" and n: "current k \<noteq> p" "pstate (pcbs k p) \<noteq> DEAD"
    using a by (simp_all add: away_def s)
  have m': "machine_reach idt g ts (c, k)" using m by (simp add: s)
  show "machine_reach idt g ts s'" unfolding s by (rule machine_reach.step [OF m' st])
  have "tf (pcbs k' p) = tf (pcbs k p) \<and> comes_back g p (c', k')"
    using st
  proof cases
    case (program m)
    then show ?thesis using n by (simp add: comes_back_def)
  next
    case (interrupt v)
    note x = irq_step_facts [OF m' interrupt]
    obtain f where "contexts (trap f k) k'" using x(3) by blast
    then have "tf (pcbs k' p) = tf (pcbs k p)" using n p by (auto simp: contexts_def trap_def)
    then show ?thesis using x(2) by (simp add: comes_back_def)
  qed
  then show "tf (pcbs (snd s') p) = tf (pcbs (snd s) p)" "comes_back g p s'" by (simp_all add: s)
qed

lemma away_kept:
  assumes "(away idt g ts p)\<^sup>*\<^sup>* s s'" and "machine_reach idt g ts s" and "p \<in> procs" and "comes_back g p s"
  shows "machine_reach idt g ts s' \<and> tf (pcbs (snd s') p) = tf (pcbs (snd s) p) \<and> comes_back g p s'"
  using assms(1)
proof (induction rule: rtranclp_induct)
  case base
  then show ?case using assms(2,4) by simp
next
  case (step s1 s2)
  then show ?case using away_step [OF _ step(2) assms(3)] by simp
qed

lemma load_saved:
  assumes "resumed g k c1 c2" and "(tf (cur k))\<lparr>tf_eax := 0\<rparr> = (saved_frame w irq e c)\<lparr>tf_eax := 0\<rparr>"
    and "r_cs c AND 3 \<noteq> 0" and "segs_open g (r_cs c) c"
  shows "c2 = c\<lparr>r_eax := tf_eax (tf (cur k)), r_gdt := r_gdt c2, r_idt := r_idt c2, r_ldt := r_ldt c2, r_tr := r_tr c2, stk := stk c2\<rparr>"
proof -
  define F where "F = tf (cur k)"
  have "F = (F\<lparr>tf_eax := 0\<rparr>)\<lparr>tf_eax := tf_eax F\<rparr>" by simp
  also have "\<dots> = (saved_frame w irq e c)\<lparr>tf_eax := tf_eax F\<rparr>" unfolding assms(2) [folded F_def] by simp
  finally obtain r where F: "F = (saved_frame w irq e c)\<lparr>tf_eax := r\<rparr>" "r = tf_eax F" by blast
  have "c2 = (load_frame F c1)\<lparr>r_esp := tf_esp F, r_ss := ucast (tf_ss F)\<rparr>"
    using assms(1,3,4) unfolding resumed_def Let_def F_def [symmetric] F(1)
    by (simp add: saved_frame_def load_frame_def segs_open_def)
  then show ?thesis unfolding F_def [symmetric] F(2) [symmetric] unfolding F(1) saved_frame_def load_frame_def
    by (intro cpu.equality) simp_all
qed

text \<open>C3: no program can tell from its registers that it was interrupted. From the moment at which an interrupt takes the processor
  from a process until the process has it again, over any number of other interrupts, other processes and their system
  calls, everything is put back: all registers, the flags, the stack pointer and the instruction
  pointer. Only after a system call of its own, which returns its result there, may \<open>eax\<close> differ.
  Its data segments must be open to its privilege (\<open>segs_open\<close>), or \<open>iret\<close> empties them.\<close>

theorem interruption_invisible:
  assumes "machine_reach idt g ts (c, k)" and "current k \<noteq> IdlePcb" and "segs_open g (r_cs c) c"
    and "irq_step idt g ts v (c, k) s" and "(away idt g ts (current k))\<^sup>*\<^sup>* s (c2, k2)" and "current k2 = current k"
  shows "\<exists>r. c2 = c\<lparr>r_eax := r, r_gdt := r_gdt c2, r_idt := r_idt c2, r_ldt := r_ldt c2, r_tr := r_tr c2, stk := stk c2\<rparr>
    \<and> (v \<noteq> 0x80 \<longrightarrow> r = r_eax c)"
proof -
  obtain c1 k1 where s: "s = (c1, k1)" by (cases s)
  note x = irq_step_facts [OF assms(1) assms(4) [unfolded s]]
  have i: "reachable k" "r_cs c AND 3 \<noteq> 0" using machine_minv [OF assms(1)] assms(2) by (simp_all add: minv_def runs_def)
  obtain w e where f: "contexts (trap (saved_frame w (stub_irq (handler_of v)) e c) k) k1"
      "v \<noteq> 128 \<longrightarrow> (\<forall>p. tf (pcbs k1 p) = tf (pcbs (trap (saved_frame w (stub_irq (handler_of v)) e c) k) p))"
    using x(3) i(2) by blast
  have p: "current k \<in> procs" using reachable_current(1) [OF i(1)] assms(2) by simp
  have "comes_back g (current k) s" using x(2) by (simp add: comes_back_def s)
  from away_kept [OF assms(5) x(1) [folded s] p this]
  have a: "tf (cur k2) = tf (pcbs k1 (current k))" "comes_back g (current k) (c2, k2)" by (simp_all add: s assms(6))
  then obtain d where r: "resumed g k2 d c2" using assms(6) by (auto simp: comes_back_def)
  have "(tf (cur k2))\<lparr>tf_eax := 0\<rparr> = (saved_frame w (stub_irq (handler_of v)) e c)\<lparr>tf_eax := 0\<rparr>"
    using f(1) unfolding a(1) by (simp add: contexts_def trap_def)
  note l = load_saved [OF r this i(2) assms(3)]
  have "tf_eax (tf (cur k2)) = r_eax c" if "v \<noteq> 128" using f(2) that unfolding a(1) by (simp add: trap_def saved_frame_def)
  then show ?thesis by (intro exI [of _ "tf_eax (tf (cur k2))"]) (use l in simp)
qed


section \<open>The clock of the machine\<close>

lemma trap_clock: "clock_ok (trap f k) a = clock_ok k a" "spec_tick (trap f k) a = spec_tick k a"
  "timeCount (pcbs (trap f k) p) = timeCount (pcbs k p)"
proof -
  show tc: "timeCount (pcbs (trap f k) p) = timeCount (pcbs k p)" for p by (simp add: trap_def)
  show "clock_ok (trap f k) a = clock_ok k a" by (auto simp: clock_ok_def sched_rel_def states_ok_def trap_def)
  have "due (trap f k) = due k" by (rule ext) (simp add: due_def trap_def)
  moreover have "current (trap f k) = current k" by (simp add: trap_def)
  ultimately show "spec_tick (trap f k) a = spec_tick k a" by (simp add: spec_tick_def tc)
qed

text \<open>A timer interrupt always returns, and it is a tick of the scheduler whatever the compiled code leaves in the registers.\<close>

lemma machine_timer:
  assumes m: "machine_reach idt g ts (c, k)" and ck: "clock_ok k a"
    and e: "enter_kernel idt g (ts\<lparr>ts_esp0 := tss_esp0 k\<rparr>) 32 None c = (x, c')"
  defines "f \<equiv> frame_at (stk c') x"
  shows "tf_irq f = 0x20" "\<exists>k'. irqHandle x (tf_irq f) port es (read_frames (stk c') k) = Inr (k', es) \<and> frames_ok (stk c') k'
    \<and> clock_ok k' (spec_tick k a) \<and> timeCount (cur k') = (if timeCount (cur k) = 1 then 10 else timeCount (cur k) - 1)"
proof -
  have v: "(32 :: nat) < 256" "(32 :: nat) \<noteq> 13" "None = (None :: u32 option) \<longleftrightarrow> \<not> error_vector 32" by (simp_all add: error_vector_def)
  note i = machine_minv [OF m] and n = trapped [OF machine_reach_tables [OF m] machine_minv [OF m] v e, folded f_def]
  have r: "reachable k" using i by (simp add: minv_def)
  show irq: "tf_irq f = 0x20" using n(6) by (simp add: handler_of_def)
  have at: "x = tf_addr (trap f k) (current (trap f k))"
    unfolding n(1) trap_addr_tf [OF reachable_current(2) [OF r]] by (simp add: trap_def tf_addr_def)
  have ck': "clock_ok (trap f k) a" "\<not> intr_nesting (trap f k)"
    using ck reachable_current(3) [OF r] by (simp_all add: trap_clock(1)) (simp add: trap_def)
  obtain k' where k': "irqHandle x (tf_irq f) port es (read_frames (stk c') k) = Inr (k', es)" "frames_ok (stk c') k'"
    "clock_ok k' (spec_tick (trap f k) a)"
    "timeCount (cur k') = (if timeCount (cur (trap f k)) = 1 then 10 else timeCount (cur (trap f k)) - 1)"
    using timer_frames [OF n(2) ck' irq at, of port es] unfolding n(3) by blast
  moreover have "current (trap f k) = current k" by (simp add: trap_def)
  ultimately show "\<exists>k'. irqHandle x (tf_irq f) port es (read_frames (stk c') k) = Inr (k', es) \<and> frames_ok (stk c') k'
    \<and> clock_ok k' (spec_tick k a) \<and> timeCount (cur k') = (if timeCount (cur k) = 1 then 10 else timeCount (cur k) - 1)"
    unfolding trap_clock by metis
qed

lemma machine_tick:
  assumes m: "machine_reach idt g ts (c, k)" and ck: "clock_ok k a"
  shows "\<exists>c' k'. irq_step idt g ts 32 (c, k) (c', k') \<and> clock_ok k' (spec_tick k a)
    \<and> timeCount (cur k') = (if timeCount (cur k) = 1 then 10 else timeCount (cur k) - 1)"
proof -
  obtain x c' where e: "enter_kernel idt g (ts\<lparr>ts_esp0 := tss_esp0 k\<rparr>) 32 None c = (x, c')" by (rule prod.exhaust)
  have v: "(32 :: nat) < 256" "(32 :: nat) \<noteq> 13" "None = (None :: u32 option) \<longleftrightarrow> \<not> error_vector 32" by (simp_all add: error_vector_def)
  note t = machine_timer [OF m ck e]
  obtain k' where k': "irqHandle x (tf_irq (frame_at (stk c') x)) 0 [] (read_frames (stk c') k) = Inr (k', [])" "frames_ok (stk c') k'"
    "clock_ok k' (spec_tick k a)" "timeCount (cur k') = (if timeCount (cur k) = 1 then 10 else timeCount (cur k) - 1)"
    using t(2) by blast
  have "irq_step idt g ts 32 (c, k) (asmDoIrq_return g (currentstacktop k') c', k')"
    by (rule irq_step.intros [OF v e _ k'(1) refl k'(2)]) (simp add: sane_call_def t(1))
  then show ?thesis using k'(3,4) by blast
qed

lemma machine_every_tick:
  assumes m: "machine_reach idt g ts (c, k)" and ck: "clock_ok k a" and i: "irq_step idt g ts 32 (c, k) (c', k')"
  shows "machine_reach idt g ts (c', k') \<and> clock_ok k' (spec_tick k a)
    \<and> timeCount (cur k') = (if timeCount (cur k) = 1 then 10 else timeCount (cur k) - 1)"
  using i
proof (rule irq_stepE)
  fix err x d port es k2 es' c1
  assume s: "(c', k') = (asmDoIrq_return g (currentstacktop k2) c1, k2)" and v: "(err = None) = (\<not> error_vector 32)"
    and e: "enter_kernel idt g (ts\<lparr>ts_esp0 := tss_esp0 k\<rparr>) 32 err c = (x, d)"
    and h: "irqHandle x (tf_irq (frame_at (stk d) x)) port es (read_frames (stk d) k) = Inr (k2, es')"
  have "err = None" using v by (simp add: error_vector_def)
  from machine_timer(2) [OF m ck e [unfolded this], of port es] h s show ?thesis
    using irq_step_facts(1) [OF m i] by auto
qed

interpretation mc: ticking "irq_step idt g ts 32" snd
    "\<lambda>s a. machine_reach idt g ts s \<and> clock_ok (snd s) a" for idt g ts
proof
  fix s a
  assume "machine_reach idt g ts s \<and> clock_ok (snd s) a"
  then show "clock_ok (snd s) a" by blast
next
  fix s a
  assume "machine_reach idt g ts s \<and> clock_ok (snd s) a"
  then show "\<exists>s'. irq_step idt g ts 32 s s'" using machine_tick [of idt g ts "fst s" "snd s" a] by auto
next
  fix s a s'
  assume "machine_reach idt g ts s \<and> clock_ok (snd s) a" and "irq_step idt g ts 32 s s'"
  then show "(machine_reach idt g ts s' \<and> clock_ok (snd s') (spec_tick (snd s) a))
      \<and> timeCount (cur (snd s')) = (if timeCount (cur (snd s)) = 1 then 10 else timeCount (cur (snd s)) - 1)"
    using machine_every_tick [of idt g ts "fst s" "snd s" a "fst s'" "snd s'"] by simp
qed

lemma reach_clock:
  assumes "machine_reach idt g ts (c, k)" and "sched_rel k a"
  shows "machine_reach idt g ts (c, k) \<and> clock_ok (snd (c, k)) a"
proof -
  have "reachable k" using machine_minv [OF assms(1)] by (simp add: minv_def)
  then obtain b where "kernel_inv k b" using reachable_inv by blast
  then show ?thesis using assms by (simp add: kernel_inv_def clock_ok_def)
qed

text \<open>C9: the machine is never stuck while nothing but its clock comes, and every ready process gets the processor: in every state that
  the machine reaches, whether a process is ready or not, timer interrupts return one after the other for as long as they come;
  and in whatever way they return, the process behind \<open>n\<close> others in the ready queue runs as a program after the ticks left to the
  current process and 10 for each of the \<open>n\<close>.\<close>

theorem machine_round_robin:
  assumes "machine_reach idt g ts (c, k)"
  shows "(\<forall>n. \<exists>s'. nsteps (irq_step idt g ts 32) n (c, k) s')
    \<and> (\<forall>a us p vs c' k'. sched_rel k a \<longrightarrow> ready a = us @ p # vs \<longrightarrow>
      nsteps (irq_step idt g ts 32) (nat (timeCount (cur k)) + 10 * length us) (c, k) (c', k') \<longrightarrow>
      current k' = p \<and> r_cs c' AND 3 \<noteq> 0)"
proof (intro conjI allI impI)
  have "reachable k" using machine_minv [OF assms] by (simp add: minv_def)
  then obtain b where "sched_rel k b" using reachable_inv kernel_inv_parts(1) by blast
  from mc.never_stuck [OF reach_clock [OF assms this]]
  show "\<exists>s'. nsteps (irq_step idt g ts 32) n (c, k) s'" for n by blast
next
  fix a us p vs c' k'
  assume a: "sched_rel k a" "ready a = us @ p # vs"
    and n: "nsteps (irq_step idt g ts 32) (nat (timeCount (cur k)) + 10 * length us) (c, k) (c', k')"
  note ok = reach_clock [OF assms a(1)]
  then have t: "timeCount (cur (snd (c, k))) = int (nat (timeCount (cur k)))" by (simp add: clock_ok_def)
  have s': "machine_reach idt g ts (c', k')" "current k' = p" using mc.turn [OF ok a(2) t n] by auto
  have "p \<in> procs" using a by (auto simp: sched_rel_def placed_def queued_def)
  then have "p \<noteq> IdlePcb" by auto
  then show "current k' = p" "r_cs c' AND 3 \<noteq> 0" using machine_minv [OF s'(1)] s'(2) by (simp_all add: minv_def runs_def)
qed


section \<open>A run\<close>

text \<open>From the idle loop of the booted kernel, until the first process has the processor.\<close>

lemma started_fields:
  assumes "initPcb k1 = Inr k2" and "nxt k1 DummySem = None"
    and "preparePCB entry (k2\<lparr>fs := f, mem := m, scr := s, serial := out, buf_in := 0, buf_out := 0\<rparr>) = Inr k"
  shows "kaddr k = kaddr k1" "tf (pcbs k p) = (if p = Pcb 1 then tf (first_pcb 1 entry (pcbs k1 p)) else tf (pcbs k1 p))"
proof -
  have n: "p_num k2 = 1" "kaddr k2 = kaddr k1" using initPcb_ok [OF assms(2)] assms(1) by auto
  have t: "tf (pcbs k2 q) = tf (pcbs k1 q)" for q
    using assms(1) by (auto simp: initPcb_def bind_r_eq_Inr dest!: init_pcbs_tf [where p = q])
  have p: "pcbs k = (pcbs k2)(Pcb 1 := first_pcb 1 entry (pcbs k2 (Pcb 1)))" "kaddr k = kaddr k2"
    using assms(3) n(1) by (auto simp: preparePCB_def bind_r_eq_Inr require_eq_Inr pcb_ref_def add_to_def delete_from_def)
  show "kaddr k = kaddr k1" using p(2) n(2) by simp
  show "tf (pcbs k p) = (if p = Pcb 1 then tf (first_pcb 1 entry (pcbs k1 p)) else tf (pcbs k1 p))"
    unfolding p(1) by (simp add: t first_pcb_def)
qed

text \<open>The kernel of theory Booting, with the same frames as \<open>booted\<close>.\<close>

definition power_on :: kernel where
  "power_on = bss\<lparr>disk := boot_disk\<rparr>"

lemma example_start: "\<exists>g k. starts (initIdt (\<lambda>e. 0x100000) example_idt) g k \<and> apart k \<and> frames_ok example_stacks k
    \<and> sched_rel k loaded_sched \<and> dpl (desc_of g 0x23) = 3"
proof -
  obtain l g sb k where e: "kEntry (\<lambda>e. 0x100000) 0x120000 [] example_idt example_gdt (superb zero_fs) power_on =
      Inr (l, initIdt (\<lambda>e. 0x100000) example_idt, g, sb, k)" "sched_rel k loaded_sched" "tf_eip (tf (pcbs k (Pcb 1))) = 0x200000"
    using kEntry_runs [OF boot_disk_facts(1-8), of "\<lambda>e. 0x100000" "0x120000" example_idt example_gdt "superb zero_fs"]
    unfolding power_on_def [symmetric] boot_disk_facts(9) [folded power_on_def] by blast
  have n: "nxt power_on DummySem = None" by (simp add: power_on_def bss_def)
  then have s: "starts (initIdt (\<lambda>e. 0x100000) example_idt) g k" unfolding starts_def using e(1) example_facts(1,2) by blast
  note x = kEntry_start [OF e(1)]
  obtain k1 k2 entry f m s out where p: "initPcb k1 = Inr k2" "nxt k1 = nxt power_on" "pcbs k1 = pcbs power_on" "kaddr k1 = kaddr power_on"
    "preparePCB entry (k2\<lparr>fs := f, mem := m, scr := s, serial := out, buf_in := 0, buf_out := 0\<rparr>) = Inr k" using x(3) by blast
  have n1: "nxt k1 DummySem = None" using n p(2) by simp
  note st = started_fields [OF p(1) n1 p(5)]
  have z: "tf (pcbs k1 q) = zero_tf" for q by (simp add: p(3) power_on_def bss_def zero_pcb_def)
  have "entry = 0x200000" using st(2) [of "Pcb 1"] e(3) by (simp add: first_pcb_def)
  then have t: "tf (pcbs k q) = tf (pcbs booted q)" for q unfolding st(2) booted_tf by (simp add: first_pcb_def z)
  have "kaddr booted = kaddr power_on" using booted_ok by (simp add: power_on_def bss_def)
  then have a: "kaddr k = kaddr booted" using st(1) p(4) by simp
  have "apart k" "frames_ok example_stacks k" using booted_apart booted_frames a t by (simp_all add: apart_def frames_ok_def tf_addr_def)
  moreover obtain k3 where "initSeg 0x120000 example_gdt power_on = Inr (g, k3)" using x(2) by blast
  from initSeg_entries(4) [OF example_facts(2) this] have "dpl (desc_of g 0x23) = 3" by (simp add: desc_of_def)
  ultimately show ?thesis using s e(2) by blast
qed

lemma example_reach: "\<exists>g c k. machine_reach (initIdt (\<lambda>e. 0x100000) example_idt) g example_ts (c, k) \<and> clock_ok k loaded_sched
    \<and> dpl (desc_of g 0x23) = 3"
proof -
  obtain g k where g: "starts (initIdt (\<lambda>e. 0x100000) example_idt) g k" "apart k" "frames_ok example_stacks k" "sched_rel k loaded_sched"
    "dpl (desc_of g 0x23) = 3" using example_start by blast
  have "machine_reach (initIdt (\<lambda>e. 0x100000) example_idt) g example_ts (idle_loop k (example_cpu\<lparr>r_cs := 8, stk := example_stacks\<rparr>), k)"
    by (rule machine_reach.start [OF g(1,2)]) (use g(3) in simp_all)
  moreover obtain a where "kernel_inv k a" using reachable_inv [OF starts_parts(2) [OF g(1)]] by blast
  then have "clock_ok k loaded_sched" using g(4) by (simp add: kernel_inv_def clock_ok_def)
  ultimately show ?thesis using g(5) by blast
qed

lemma example_run: "\<exists>g c k a. machine_reach (initIdt (\<lambda>e. 0x100000) example_idt) g example_ts (c, k) \<and> clock_ok k a \<and> current k = Pcb 1
    \<and> timeCount (cur k) = 10 \<and> segs_open g (r_cs c) c \<and> r_eip c = 0x200010"
proof -
  let ?idt = "initIdt (\<lambda>e. 0x100000) example_idt"
  obtain g c0 k0 where g: "machine_reach ?idt g example_ts (c0, k0)" "clock_ok k0 loaded_sched" "dpl (desc_of g 0x23) = 3"
    using example_reach by blast
  then have t: "timeCount (cur (snd (c0, k0))) = int (nat (timeCount (cur k0)))" by (simp add: clock_ok_def)
  have ok: "machine_reach ?idt g example_ts (c0, k0) \<and> clock_ok (snd (c0, k0)) loaded_sched" using g by simp
  have "ready loaded_sched = Pcb 1 # []" by (simp add: loaded_sched_def)
  note q = this
  obtain s' where "nsteps (irq_step ?idt g example_ts 32) (nat (timeCount (cur k0))) (c0, k0) s'" using mc.never_stuck [OF ok] by blast
  from mc.slice [OF ok q t this] obtain a where s': "machine_reach ?idt g example_ts s'" "clock_ok (snd s') a" "running a = Pcb 1"
    "timeCount (cur (snd s')) = 10" by blast
  obtain c k where s: "s' = (c, k)" by (cases s')
  have k: "current k = Pcb 1" "clock_ok k a" "timeCount (cur k) = 10" using s'(2-4) unfolding s snd_conv
    by (auto simp: clock_ok_def sched_rel_def)
  let ?c = "c\<lparr>r_cs := 0x1B, r_ds := 0x23, r_es := 0x23, r_fs := 0x23, r_gs := 0x23, r_eip := 0x200010\<rparr>"
  have "mstep ?idt g example_ts (c, k) (?c, k\<lparr>mem := mem k\<rparr>)" by (rule mstep.program) (simp_all add: k)
  then have "machine_reach ?idt g example_ts (?c, k)" using machine_reach.step s'(1) unfolding s by fastforce
  moreover have "segs_open g (r_cs ?c) ?c" using g(3) by (simp add: segs_open_def rpl_def)
  ultimately show ?thesis using k by (intro exI [of _ g] exI [of _ ?c] exI [of _ k] exI [of _ a]) simp
qed

theorem machine_refines_kernel_witness:
  "\<exists>g c k. machine_reach (initIdt (\<lambda>e. 0x100000) example_idt) g example_ts (c, k) \<and> current k = Pcb 1 \<and> reachable k \<and> frames_ok (stk c) k"
  using example_run machine_refines_kernel by blast

theorem interruption_invisible_witness:
  "\<exists>g c k c2 k2. machine_reach (initIdt (\<lambda>e. 0x100000) example_idt) g example_ts (c, k) \<and> current k = Pcb 1 \<and> r_eip c = 0x200010
    \<and> irq_step (initIdt (\<lambda>e. 0x100000) example_idt) g example_ts 32 (c, k) (c2, k2) \<and> r_eip c2 = 0x200010 \<and> r_eax c2 = r_eax c"
proof -
  let ?idt = "initIdt (\<lambda>e. 0x100000) example_idt"
  obtain g c k a where r: "machine_reach ?idt g example_ts (c, k)" "clock_ok k a" "current k = Pcb 1"
    "timeCount (cur k) = 10" "segs_open g (r_cs c) c" "r_eip c = 0x200010" using example_run by blast
  obtain c2 k2 where i: "irq_step ?idt g example_ts 32 (c, k) (c2, k2)" "clock_ok k2 (spec_tick k a)" using machine_tick [OF r(1,2)] by blast
  have "running (spec_tick k a) = running a" using r(4) by (simp add: spec_tick_def spec_wakeup_def)
  then have cur: "current k2 = current k" using i(2) r(2) by (simp add: clock_ok_def sched_rel_def)
  have n: "current k \<noteq> IdlePcb" using r(3) by simp
  obtain x where x: "c2 = c\<lparr>r_eax := x, r_gdt := r_gdt c2, r_idt := r_idt c2, r_ldt := r_ldt c2, r_tr := r_tr c2, stk := stk c2\<rparr>"
    "x = r_eax c" using interruption_invisible [OF r(1) n r(5) i(1) rtranclp.rtrancl_refl cur] by auto
  have "r_eip c2 = r_eip c" "r_eax c2 = r_eax c" by (subst x(1), simp add: x(2))+
  then have "r_eip c2 = 0x200010" "r_eax c2 = r_eax c" using r(6) by simp_all
  then show ?thesis using r(1,3,6) i(1) by blast
qed

theorem machine_round_robin_witness:
  "\<exists>g n c k c' k'. machine_reach (initIdt (\<lambda>e. 0x100000) example_idt) g example_ts (c, k) \<and> current k = IdlePcb
    \<and> nsteps (irq_step (initIdt (\<lambda>e. 0x100000) example_idt) g example_ts 32) n (c, k) (c', k') \<and> current k' = Pcb 1"
proof -
  obtain g c k where g: "machine_reach (initIdt (\<lambda>e. 0x100000) example_idt) g example_ts (c, k)" "clock_ok k loaded_sched"
    using example_reach by blast
  then have s: "sched_rel k loaded_sched" "current k = IdlePcb" by (simp_all add: clock_ok_def sched_rel_def loaded_sched_def)
  have "ready loaded_sched = [] @ Pcb 1 # []" by (simp add: loaded_sched_def)
  note q = this
  let ?n = "nat (timeCount (cur k)) + 10 * length ([] :: pcbref list)"
  obtain c' k' where r: "nsteps (irq_step (initIdt (\<lambda>e. 0x100000) example_idt) g example_ts 32) ?n (c, k) (c', k')"
    using machine_round_robin [OF g(1)] by (metis surj_pair)
  then have "current k' = Pcb 1" using machine_round_robin [OF g(1)] s(1) q by blast
  then show ?thesis using g(1) s(2) r by blast
qed

end
