(* ===== verification/Spec2Isabelle.thy ===== *)
theory Spec2Isabelle
  imports Scheduling Filing Storing Console Filecalls Listing Makedir Tables Hardware Loading Booting Userlib Userprops
    Testapp Typing Ata Uart Stubprops Bootsector Machine Running
begin

text \<open>
  A small x86 kernel with processes, semaphores, a file system and a console. bootloader/ loads the kernel from the disk;
  kernel/ runs in ring 0; lib/ is linked into the programs of app/, which enter the kernel through int 0x80. Paths below
  are relative to src/.

  \<^bold>\<open>How the parts work together.\<close> The boot sector loads the kernel (\<open>bootMain\<close>) and jumps to \<open>kEntry\<close>, which sets up the
  descriptor tables and devices, makes the process table, loads the file system from the disk into memory, loads the first
  program and stays in the idle loop. From then on the kernel is \<open>irqHandle\<close>: the timer drives the scheduler, the keyboard
  fills the key buffer, int 0x80 dispatches the system calls. All share one state, the record \<open>kernel\<close> of theory
  Kdata; an operation of the code is a function from state to state in the result type \<open>exec\<close> of Prelude, where a failed
  assertion, an access beyond an array, a null pointer, an endless loop and a wait for an interrupt that does not come
  are values.

  \<^bold>\<open>Model and code.\<close>
  \<^item> Prelude: machine words, results, C's \<open>int\<close> (\<open>wrap32\<close>), little-endian bytes. The locales of the development are
    \<open>pqueue\<close> (Plist), what the scheduler needs of a list of processes, interpreted on list.c, and \<open>printer\<close>,
    \<open>formatter\<close> (Printing), what the printing functions have in common, interpreted on all three copies in the code, and \<open>polled\<close>
    (Device), what the waiting loops need of a device, interpreted on both disk drivers and the serial port, and \<open>ticking\<close>
    (Schedprops), round robin for anything that keeps the kernel's clock, interpreted on the kernel and on the whole machine.
  \<^item> Plist: kernel/kernel/list.c. PCBs are names (\<open>pcbref\<close>), the field \<open>next\<close> is a map; the walks are as written
    and may not end on a circular list.
  \<^item> Cstring, Format, Printing: kernel/kernel/lib.c; Screen: kernel/kernel/screen.c with the ports of the display
    controller. Printing gives the text of a format, \<open>format_text\<close>, which every copy of printf emits.
  \<^item> Disk: kernel/kernel/disk.c, what a transfer does to bytes, with C's division of \<open>int\<close>; Ata: the same driver and the copy in bootloader/boot.c port by port, with
    the port instructions of io.h and boot.h, against a drive with its registers, its busy times and its data port. Uart does the same for
    \<open>putChar\<close> of kernel/kernel/serial.c.
  \<^item> Fsdata, Path, Lookup, Fsops: kernel/kernel/fs.c and kernel/include/x86/fs.h. An inode block keeps its 32768 bytes; directory entries
    are views of them, as the union of the code. Fsimage: the bytes of the structures in memory and on the disk,
    \<open>writeBack\<close> and \<open>loadFS\<close>.
  \<^item> Kdata: kernel/include/x86/memory.h, x86.h; Sched: \<open>try_to_wakeup\<close>, \<open>schedule\<close>, \<open>timerHandle\<close> of kernel/kernel/irqHandle.c;
    Process: kernel/kernel/process.c, sem.c and the set-up of the table in kvm.c; Files: the file system calls and
    the keyboard (irqHandle.c, keyboard.c); Irq: the dispatch, the trap, and \<open>reachable\<close>, the states from power on.
  \<^item> Desc: kernel/kernel/idt.c and the segments of kvm.c; Hardware: serial.c, i8259.c, i8253.c and kernel/lib/abort.c;
    Loader: bootloader/boot.c and \<open>loadUMain\<close> of kvm.c; Kmain: kernel/main.c with \<open>initScreen\<close>, \<open>loadFS\<close> and \<open>initFS\<close>.
  \<^item> Stubs: the registers and the stack of the processor, kernel/kernel/doIrq.S, the inline assembly of cpu.h, memory.h and kvm.c
    (\<open>initSeg\<close>, \<open>enterUserSpace\<close>), the idle loop and \<open>abort\<close>. It stands below Irq: the frame that theory Irq places at \<open>trap_addr\<close> is
    built here, word by word. Bootsector: bootloader/start.S, the switch to protected mode.
  \<^item> Userlib: lib/syscall.c. A call of the library is a trap of theory Irq with the arguments in the registers, so
    the programs' side runs on the same kernel. Testapp: app/main.c, the program that runs first, as a composition of those calls.

  \<^bold>\<open>What is proved.\<close>
  \<^item> Scheduling (over Schedprops, Semprops, Processprops, Irqprops): the lists and states refine an abstract scheduler
    with four queues; the invariant holds in every reachable state; the timer returns; processes run in turn and sleepers
    wake; semaphores count and wake in order; fork copies a process; exit and a later fork; the set-up.
  \<^item> Typing: on every run, of well-behaved programs or not (\<open>any_step\<close> asks nothing of their calls), the integers of the model stay
    in the range of C's \<open>int\<close> and the arrays keep the lengths and index ranges of their declarations, so the model's types are the code's.
  \<^item> Filing, Makedir and Storing (over Fsprops, Fscreate, Rootfs): \<open>fs_ok\<close>, the order of the directory tree, and what lookup,
    creation of files and directories, removal, reading and writing do to it; sector transfers; saved files come back after a restart.
  \<^item> Console, Filecalls, Listing: lists, strings, screen, keyboard; what a program sees through a descriptor; what ls and cat show.
  \<^item> Tables, Hardware, Loading, Booting: every vector reaches its handler; the segments agree with the kernel's pointers;
    the message of a failed assertion; segments of ELF files are in place; and \<open>kernel_boots\<close>, which composes the
    initialisations: from a disk with saved files and a program, \<open>kEntry\<close> reaches a state of \<open>reachable\<close>.
  \<^item> Stubprops: every interrupt but the general protection fault arrives with a complete trap frame where the kernel looks for it, and the
    way back restores every register; both ways into a program agree. Machine puts the two levels together: from program to program, the
    processor with the frames on the stacks of the processes does a step of \<open>kernel_step\<close>, and goes on with the process that
    \<open>irqHandle\<close> made current. Contexts goes through every operation of the kernel for what it does to the trap frames of the
    processes. Running is the machine as a step relation from what \<open>kEntry\<close> leaves on: every run of it is a run of \<open>kernel_step\<close>, a program
    gets back every register however many interrupts, switches and system calls of others lie between, timer interrupts return in
    every state, and every ready process comes to run. Bootsector: the segments
    of the boot sector give \<open>bootMain\<close> all of memory and agree with those of \<open>initSeg\<close>. Ata: both disk drivers end and do what Disk says.
  \<^item> Userprops: the library's functions reach the kernel's operations with their arguments; printf shows its text or
    leaves its buffer; scanf reads what printf prints; gets reads a line.
  \<^item> Testapp: one step lemma per call on what a program sees (\<open>prog\<close>: files, memory, screen, descriptors), and the whole run of the test
    program, from the scheduler's invariant to the saved disk.
  \<^item> Startup, Rootfs, Makedir, Loading and Testapp define concrete kernels, file systems and disks, on which every property is applied once.

  \<^bold>\<open>Termination and bounds.\<close> Loops over arrays carry the bound of the array as a check, so their recursion ends.
  \<open>waitDisk\<close> and the wait of \<open>putChar\<close> end because the device is busy for finitely many polls, their number being arbitrary.
  The walk of \<open>try_to_wakeup\<close> is a \<open>partial_function\<close>; that it ends from every reachable state is \<open>timer_never_stops\<close>. Walks of lists give \<open>None\<close> when they never end
  and are shown to end on the lists of the invariant. The loops that wait for keys consume a finite list of interrupts,
  and the scanning loops end because every character read moves \<open>buf_out\<close> inside the 1024 bytes of the buffer.

  \<^bold>\<open>Assumptions.\<close> \<open>sane_call\<close> (Irq): programs use semaphores in the way the shared \<open>dummysem\<close> supports. \<open>user_area\<close> (Kdata): pointers of
  programs are followed between 0x200000 and 0x1000000 only, and programs store nowhere else; the segments, which reach all of memory
  (\<open>initSeg\<close>), do not enforce this. The addresses of kernel objects come from the linker and are
  parameters (\<open>kaddr\<close>, \<open>entry_point\<close>). Interrupts that arrive while a system call waits for the keyboard are an explicit list; the others
  come between system calls, as the gates keep interrupts off. Between interrupts a program may store anywhere in \<open>user_area\<close>
  (\<open>compute\<close> of Irq). The screen's memory is apart from \<open>mem\<close>: on the machine it lies at 0xB8000, and as the code never bounds the row, the
  output would reach the kernel at 0x100000 after some 1843 lines. The global \<open>outlen\<close> of the library's printf is apart from \<open>mem\<close>, too.
  Where the code would follow a null or stray pointer, the model stops with \<open>OutOfBounds\<close>. That the compiled code of \<open>irqHandle\<close> stores to the trap frames what the model does is a premise of
  \<open>irq_step\<close> (Running).

  What the processor does on an interrupt, on \<open>iret\<close> and on the instructions the stubs use, and what the drive does on its ports, are stated
  from their manuals (Stubs, Ata).

  \<^bold>\<open>Not modelled.\<close> The protection faults of segment loads, the part of the kernel stacks below the trap
  frames, the build files, utils/genApp.pl and the binary image fs/FS_SXD.
\<close>

end
